(* ===== verification/Runner_Prelude.thy ===== *)
theory Runner_Prelude
  imports Main "HOL-Library.Word" "HOL-Library.AList" "HOL-Library.Multiset"
begin

section \<open>Prelude: the Go values the runner computes with\<close>

text \<open>
  The types and the generic lemmas the component theories share.

  \<^item> A Go \<open>byte\<close> is an \<open>8 word\<close>, a \<open>[]byte\<close> a list of them; where the code tests a slice
    against \<open>nil\<close> the model has an \<open>option\<close> (\<open>None\<close> is \<open>nil\<close>).
  \<^item> A Go \<open>string\<close> is a byte sequence and is a HOL \<open>string\<close>; the conversions \<open>string(b)\<close>
    and \<open>[]byte(s)\<close> are \<open>go_string\<close> and \<open>go_bytes\<close>.
  \<^item> A Go \<open>map\<close> is an association list with distinct keys (\<open>wf_map\<close>).  Go leaves the
    iteration order of \<open>range\<close> over a map open; a definition that ranges over a map takes
    the order as an argument, a function that permutes the key list (\<open>range_ok\<close>).
  \<^item> A Go \<open>error\<close> is a value of \<open>go_error\<close>; a function with results \<open>(v, error)\<close> returns a
    value of \<open>go_error + 'v\<close>.
  \<^item> A call that may panic returns a value of \<open>'a rt\<close>: \<open>Val\<close> of its result, or \<open>Panic\<close>.
\<close>

named_theorems go_defs \<open>definitions of the standard-library operations\<close>
named_theorems wf_intros \<open>the operations keep the well-formedness of maps\<close>
named_theorems api_defs \<open>definitions of the request and response methods\<close>

type_synonym byte = "8 word"
type_synonym bytes = "byte list"
type_synonym u16 = "16 word"
type_synonym u32 = "32 word"

datatype go_error =
    EOF
  | Truncated nat
  | ErrConnClosed
  | ErrNotFound
  | UnknownType byte
  | DataTooLarge nat nat
  | ErrMissingName
  | ErrMissingParseConfMethod
  | ErrMissingRequestFilterMethod
  | ErrMissingResponseFilterMethod
  | ErrPluginRegistered string
  | OtherError string

datatype 'a rt = Val 'a | Panic

subsection \<open>Byte strings\<close>

definition go_string :: "bytes \<Rightarrow> string" where
  "go_string bs = map (\<lambda>b. char_of (unat b)) bs"

definition go_bytes :: "string \<Rightarrow> bytes" where
  "go_bytes s = map (\<lambda>c. word_of_nat (of_char c)) s"

text \<open>A \<open>nil\<close> slice converts to the empty string.\<close>

definition go_string_opt :: "bytes option \<Rightarrow> string" where
  "go_string_opt b = (case b of None \<Rightarrow> [] | Some bs \<Rightarrow> go_string bs)"

lemma char_of_unat_of_char [simp]: "char_of (unat (word_of_nat (of_char c) :: byte)) = c"
  by (simp add: unat_of_nat)

lemma word_of_nat_unat_mod [simp]: "word_of_nat (unat (b :: byte) mod 256) = b"
proof -
  have "unat b < 256" using unsigned_less [of b, where ?'a = nat] by simp
  then show ?thesis by simp
qed

lemma go_string_go_bytes [simp]: "go_string (go_bytes s) = s"
  by (induction s) (simp_all add: go_string_def go_bytes_def)

lemma go_bytes_go_string [simp]: "go_bytes (go_string bs) = bs"
  by (induction bs) (simp_all add: go_string_def go_bytes_def)

lemma go_bytes_empty_iff [simp]: "go_bytes s = [] \<longleftrightarrow> s = []"
  by (simp add: go_bytes_def)

lemma length_go_bytes [simp]: "length (go_bytes s) = length s"
  by (simp add: go_bytes_def)

subsection \<open>Go maps as association lists\<close>

type_synonym ('k, 'v) gomap = "('k \<times> 'v) list"

definition wf_map :: "('k, 'v) gomap \<Rightarrow> bool" where
  "wf_map m \<longleftrightarrow> distinct (map fst m)"

definition keys :: "('k, 'v) gomap \<Rightarrow> 'k list" where
  "keys m = map fst m"

lemma wf_map_empty [simp, wf_intros]: "wf_map []"
  by (simp add: wf_map_def)

lemma wf_map_update [wf_intros]: "wf_map m \<Longrightarrow> wf_map (AList.update k v m)"
  by (simp add: wf_map_def distinct_update)

lemma wf_map_delete [wf_intros]: "wf_map m \<Longrightarrow> wf_map (AList.delete k m)"
  by (simp add: wf_map_def distinct_delete)

lemma set_keys [simp]: "set (keys m) = dom (map_of m)"
  by (simp add: keys_def dom_map_of_conv_image_fst)

lemma distinct_keys [simp]: "wf_map m \<Longrightarrow> distinct (keys m)"
  by (simp add: keys_def wf_map_def)

lemma map_of_update [simp]: "map_of (AList.update k v m) = (map_of m)(k \<mapsto> v)"
  by (simp add: update_conv')

lemma map_of_delete [simp]: "map_of (AList.delete k m) = (map_of m)(k := None)"
  by (simp add: delete_conv')

lemma map_of_empty_iff: "m = [] \<longleftrightarrow> map_of m = Map.empty"
  by (cases m) auto

subsection \<open>Iteration order of range over a map\<close>

definition range_ok :: "('k list \<Rightarrow> 'k list) \<Rightarrow> bool" where
  "range_ok ord \<longleftrightarrow> (\<forall>ks. mset (ord ks) = mset ks)"

lemma range_ok_id [simp]: "range_ok (\<lambda>ks. ks)"
  by (simp add: range_ok_def)

lemma range_ok_rev [simp]: "range_ok rev"
  by (simp add: range_ok_def)

lemma range_ok_set: "range_ok ord \<Longrightarrow> set (ord ks) = set ks"
  by (metis range_ok_def set_mset_mset)

lemma range_ok_distinct: "range_ok ord \<Longrightarrow> distinct ks \<Longrightarrow> distinct (ord ks)"
  by (metis range_ok_def mset_eq_imp_distinct_iff)

text \<open>The loops of the code that range over a map; each may see its own order.\<close>

datatype range_site =
  RDeleteField | RHdr | RRespHdr | ROldArgs | RNewArgs | RStopHdr | RCloneArgs | RConfHeaders

type_synonym range_orders = "range_site \<Rightarrow> string list \<Rightarrow> string list"

definition ranges_ok :: "range_orders \<Rightarrow> bool" where
  "ranges_ok ro \<longleftrightarrow> (\<forall>site. range_ok (ro site))"

lemma ranges_okD: "ranges_ok ro \<Longrightarrow> range_ok (ro site)"
  by (simp add: ranges_ok_def)

lemma ranges_ok_id [simp]: "ranges_ok (\<lambda>_ ks. ks)"
  by (simp add: ranges_ok_def)

lemma ranges_ok_rev [simp]: "ranges_ok (\<lambda>_. rev)"
  by (simp add: ranges_ok_def)

end
