(* ===== verification/Util_Msg.thy ===== *)
theory Util_Msg
  imports Runner_Prelude
begin

unbundle bit_operations_syntax

section \<open>Framing and connection I/O (internal/util/msg.go)\<close>

text \<open>
  The wire format of the runner's RPC and the loops that move bytes over a connection.

  A \<open>net.Conn\<close> is a record with the peer's behaviour as two scripts: \<open>rd\<close> says what the
  successive \<open>Read\<close> calls deliver (a chunk, possibly with an error; the end of the script
  is EOF) and \<open>wr\<close> how many bytes the successive \<open>Write\<close> calls take (the end of the
  script is a peer that takes everything).  \<open>sent\<close> collects the bytes written, \<open>closed\<close>
  records \<open>Close\<close>.  Theorems quantify over the scripts, hence over every way the
  operating system may split the byte stream.

  Every caller of \<open>ReadBytes(c, b, n)\<close> and \<open>WriteBytes(c, b, n)\<close> in the repository passes
  \<open>n = len(b)\<close>; the model takes \<open>n\<close> from the buffer.
\<close>

definition HeaderLen :: nat where
  "HeaderLen = 4"

text \<open>\<open>2<<24 - 1\<close>: in Go the shift binds tighter than the subtraction.\<close>

definition MaxDataSize :: nat where
  "MaxDataSize = push_bit 24 2 - 1"

definition RPCError :: byte where "RPCError = 0"
definition RPCPrepareConf :: byte where "RPCPrepareConf = 1"
definition RPCHTTPReqCall :: byte where "RPCHTTPReqCall = 2"
definition RPCExtraInfo :: byte where "RPCExtraInfo = 3"
definition RPCHTTPRespCall :: byte where "RPCHTTPRespCall = 4"

lemmas rpc_defs = RPCError_def RPCPrepareConf_def RPCHTTPReqCall_def RPCExtraInfo_def
  RPCHTTPRespCall_def

subsection \<open>The connection\<close>

datatype rd_event = RdData bytes | RdFail bytes go_error

datatype wr_event = WrOk nat | WrFail nat go_error

record conn =
  rd :: "rd_event list"
  wr :: "wr_event list"
  sent :: bytes
  closed :: bool

text \<open>\<open>c.Read(p)\<close> with \<open>k = len(p)\<close>: the bytes delivered, the error, the connection after.\<close>

fun conn_Read :: "nat \<Rightarrow> conn \<Rightarrow> bytes \<times> go_error option \<times> conn" where
  "conn_Read k c =
     (case rd c of
        [] \<Rightarrow> ([], Some EOF, c)
      | RdData d # evs \<Rightarrow>
          (if length d \<le> k then (d, None, c\<lparr>rd := evs\<rparr>)
           else (take k d, None, c\<lparr>rd := RdData (drop k d) # evs\<rparr>))
      | RdFail d e # evs \<Rightarrow>
          (if length d \<le> k then (d, Some e, c\<lparr>rd := evs\<rparr>)
           else (take k d, None, c\<lparr>rd := RdFail (drop k d) e # evs\<rparr>)))"

fun conn_Write :: "bytes \<Rightarrow> conn \<Rightarrow> nat \<times> go_error option \<times> conn" where
  "conn_Write p c =
     (case wr c of
        [] \<Rightarrow> (length p, None, c\<lparr>sent := sent c @ p\<rparr>)
      | WrOk k # evs \<Rightarrow>
          (min k (length p), None, c\<lparr>wr := evs, sent := sent c @ take k p\<rparr>)
      | WrFail k e # evs \<Rightarrow>
          (min k (length p), Some e, c\<lparr>wr := evs, sent := sent c @ take k p\<rparr>))"

definition conn_Close :: "conn \<Rightarrow> conn" where
  "conn_Close c = c\<lparr>closed := True\<rparr>"

text \<open>How much input a connection still holds: what the read loops consume.\<close>

fun rd_size :: "rd_event \<Rightarrow> nat" where
  "rd_size (RdData d) = Suc (length d)"
| "rd_size (RdFail d e) = Suc (length d)"

definition rd_left :: "conn \<Rightarrow> nat" where
  "rd_left c = sum_list (map rd_size (rd c))"

declare conn_Read.simps [simp del] conn_Write.simps [simp del]

lemma conn_Read_length: "conn_Read k c = (d, e, c') \<Longrightarrow> length d \<le> k"
  by (auto simp: conn_Read.simps split: list.splits rd_event.splits if_splits)

lemma conn_Read_left:
  "conn_Read k c = (d, None, c') \<Longrightarrow> 0 < k \<Longrightarrow> rd_left c' < rd_left c"
  by (auto simp: conn_Read.simps rd_left_def split: list.splits rd_event.splits if_splits)

lemma conn_Read_frame:
  "conn_Read k c = (d, e, c') \<Longrightarrow> wr c' = wr c \<and> sent c' = sent c \<and> closed c' = closed c"
  by (auto simp: conn_Read.simps split: list.splits rd_event.splits if_splits)

subsection \<open>ReadErr, ReadBytes, WriteBytes\<close>

text \<open>\<open>ReadErr\<close> decides whether the caller gives up; the log line it writes is not modelled.\<close>

definition ReadErr :: "nat \<Rightarrow> go_error option \<Rightarrow> nat \<Rightarrow> bool" where
  "ReadErr n err required =
     (let err' = (if 0 < n \<and> n < required then Some (Truncated n) else err)
      in err' \<noteq> None)"

text \<open>The loop of \<open>ReadBytes\<close>: \<open>b\<close> is the buffer, its first \<open>l\<close> bytes are read.\<close>

function read_loop :: "bytes \<Rightarrow> nat \<Rightarrow> conn \<Rightarrow> bytes \<times> nat \<times> go_error option \<times> conn" where
  "read_loop b l c =
     (if l < length b then
        (let (d, err, c') = conn_Read (length b - l) c;
             b' = take l b @ d @ drop (l + length d) b
         in case err of
              Some e \<Rightarrow> (b', l + length d, Some e, c')
            | None \<Rightarrow> read_loop b' (l + length d) c')
      else (b, l, None, c))"
  by pat_completeness auto
termination
  by (relation "measure (\<lambda>(b, l, c). rd_left c)") (auto intro!: conn_Read_left elim: sym)

declare read_loop.simps [simp del]

definition ReadBytes :: "conn \<Rightarrow> bytes \<Rightarrow> bytes \<times> nat \<times> go_error option \<times> conn" where
  "ReadBytes c b = read_loop b 0 c"

function write_loop :: "bytes \<Rightarrow> nat \<Rightarrow> conn \<Rightarrow> nat \<times> go_error option \<times> conn" where
  "write_loop b l c =
     (if l < length b then
        (let (tmp, err, c') = conn_Write (drop l b) c
         in case err of
              Some e \<Rightarrow> (l + tmp, Some e, c')
            | None \<Rightarrow> write_loop b (l + tmp) c')
      else (l, None, c))"
  by pat_completeness auto
termination
  by (relation "measure (\<lambda>(b, l, c). length (wr c) + (length b - l))")
    (auto simp: conn_Write.simps split: list.splits wr_event.splits)

declare write_loop.simps [simp del]

definition WriteBytes :: "conn \<Rightarrow> bytes \<Rightarrow> nat \<times> go_error option \<times> conn" where
  "WriteBytes c b = write_loop b 0 c"

subsection \<open>The frame header\<close>

text \<open>\<open>binary.BigEndian\<close> on a four byte slice.\<close>

definition PutUint32 :: "u32 \<Rightarrow> bytes" where
  "PutUint32 v = [ucast (drop_bit 24 v), ucast (drop_bit 16 v), ucast (drop_bit 8 v), ucast v]"

definition Uint32 :: "bytes \<Rightarrow> u32" where
  "Uint32 b = ucast (b ! 3) OR push_bit 8 (ucast (b ! 2)) OR push_bit 16 (ucast (b ! 1))
     OR push_bit 24 (ucast (b ! 0))"

text \<open>
  A header carries the RPC type in its first byte and the length in the other three: the
  writer stores the length in all four bytes and then overwrites the first.
\<close>

definition put_header :: "byte \<Rightarrow> nat \<Rightarrow> bytes" where
  "put_header ty n = (PutUint32 (word_of_nat n))[0 := ty]"

definition get_header :: "bytes \<Rightarrow> byte \<times> nat" where
  "get_header header = (header ! 0, unat (Uint32 (header[0 := 0])))"

lemma length_put_header [simp]: "length (put_header ty n) = HeaderLen"
  by (simp add: put_header_def PutUint32_def HeaderLen_def)

lemma low_three_bytes:
  "ucast (ucast v :: byte) OR push_bit 8 (ucast (ucast (drop_bit 8 v) :: byte))
     OR push_bit 16 (ucast (ucast (drop_bit 16 v) :: byte)) = take_bit 24 (v :: u32)"
  apply (rule bit_word_eqI)
  apply (auto simp: bit_or_iff bit_push_bit_iff bit_take_bit_iff bit_ucast_iff bit_drop_bit_eq)
  subgoal for n by (cases "n < 8"; cases "n < 16"; simp)
  done

lemma get_put_header: "get_header (put_header ty n) = (ty, n mod 2 ^ 24)"
proof -
  have "Uint32 ((put_header ty n)[0 := 0]) = take_bit 24 (word_of_nat n)"
    using low_three_bytes [of "word_of_nat n"]
    by (simp add: Uint32_def put_header_def PutUint32_def ac_simps)
  moreover have "unat (take_bit 24 (word_of_nat n :: u32)) = n mod 2 ^ 24"
    by (simp add: unat_of_nat take_bit_eq_mod unat_mod mod_mod_cancel)
  ultimately show ?thesis
    by (simp add: get_header_def put_header_def PutUint32_def)
qed

subsection \<open>What the loops deliver\<close>

text \<open>
  The bytes a peer delivers before a reader sees an error.  The last byte of a failing
  chunk is not among them: \<open>Read\<close> returns it together with the error.
\<close>

fun avail_ev :: "rd_event list \<Rightarrow> bytes" where
  "avail_ev [] = []"
| "avail_ev (RdData d # evs) = d @ avail_ev evs"
| "avail_ev (RdFail d e # evs) = butlast d"

definition avail :: "conn \<Rightarrow> bytes" where
  "avail c = avail_ev (rd c)"

lemma take_butlast_drop: "k < length d \<Longrightarrow> take k d @ butlast (drop k d) = butlast d"
  by (metis append_take_drop_id butlast_append drop_eq_Nil not_less)

lemma conn_Read_avail:
  "conn_Read k c = (d, None, c') \<Longrightarrow> avail c = d @ avail c'"
  by (auto simp: conn_Read.simps avail_def take_butlast_drop
      split: list.splits rd_event.splits if_splits)

lemma conn_Read_fail:
  "conn_Read k c = (d, Some e, c') \<Longrightarrow> 0 < k \<Longrightarrow> length (avail c) < k"
  by (auto simp: conn_Read.simps avail_def split: list.splits rd_event.splits if_splits)

text \<open>Reading delivers the next bytes of the stream, however it was split into chunks.\<close>

lemma read_loop_ok:
  assumes "l \<le> length b" and "length b - l \<le> length (avail c)"
  shows "\<exists>c'. read_loop b l c = (take l b @ take (length b - l) (avail c), length b, None, c') \<and>
    avail c' = drop (length b - l) (avail c) \<and> wr c' = wr c \<and> sent c' = sent c \<and>
    closed c' = closed c \<and> rd_left c' \<le> rd_left c"
  using assms
proof (induction b l c rule: read_loop.induct)
  case (1 b l c)
  show ?case
  proof (cases "l < length b")
    case False
    with "1.prems" show ?thesis by (auto simp: read_loop.simps)
  next
    case True
    obtain d err c1 where rd: "conn_Read (length b - l) c = (d, err, c1)"
      by (cases "conn_Read (length b - l) c") auto
    then have len: "length d \<le> length b - l" by (rule conn_Read_length)
    from True rd "1.prems" have err: "err = None"
      using conn_Read_fail by (cases err) fastforce+
    let ?b = "take l b @ d @ drop (l + length d) b"
    from rd err have av: "avail c = d @ avail c1" by (simp add: conn_Read_avail)
    from True len have lb: "length ?b = length b" by simp
    have left: "rd_left c1 < rd_left c"
      using rd err True by (auto intro: conn_Read_left)
    have "\<exists>c'. read_loop ?b (l + length d) c1 =
        (take (l + length d) ?b @ take (length ?b - (l + length d)) (avail c1), length ?b, None, c') \<and>
        avail c' = drop (length ?b - (l + length d)) (avail c1) \<and> wr c' = wr c1 \<and>
        sent c' = sent c1 \<and> closed c' = closed c1 \<and> rd_left c' \<le> rd_left c1"
      using True rd err len lb av "1.prems" by (intro "1.IH" [OF _ refl _ refl]) auto
    with True rd err len lb av left conn_Read_frame [OF rd] show ?thesis
      by (auto simp: read_loop.simps [of b l c])
  qed
qed

lemma read_loop_fail:
  assumes "l \<le> length b" and "length (avail c) < length b - l"
  shows "\<exists>b' n e c'. read_loop b l c = (b', n, Some e, c')"
  using assms
proof (induction b l c rule: read_loop.induct)
  case (1 b l c)
  from "1.prems" have l: "l < length b" by simp
  obtain d err c1 where rd: "conn_Read (length b - l) c = (d, err, c1)"
    by (cases "conn_Read (length b - l) c") auto
  then have len: "length d \<le> length b - l" by (rule conn_Read_length)
  let ?b = "take l b @ d @ drop (l + length d) b"
  show ?case
  proof (cases err)
    case (Some e)
    with l rd show ?thesis by (simp add: read_loop.simps [of b l c])
  next
    case None
    with rd have av: "avail c = d @ avail c1" by (simp add: conn_Read_avail)
    have "\<exists>b' n e c'. read_loop ?b (l + length d) c1 = (b', n, Some e, c')"
      using l rd None len av "1.prems" by (intro "1.IH" [OF _ refl _ refl]) auto
    with l rd None show ?thesis by (simp add: read_loop.simps [of b l c])
  qed
qed

text \<open>Writing sends a prefix of the buffer, the whole of it when no error is reported.\<close>

lemma conn_Write_sent:
  "conn_Write p c = (n, err, c') \<Longrightarrow>
    n \<le> length p \<and> sent c' = sent c @ take n p \<and> rd c' = rd c \<and> closed c' = closed c"
  by (auto simp: conn_Write.simps min_def split: list.splits wr_event.splits)

lemma write_loop_sent:
  assumes "write_loop b l c = (n, err, c')" and "l \<le> length b"
  shows "l \<le> n \<and> n \<le> length b \<and> sent c' = sent c @ take (n - l) (drop l b) \<and> rd c' = rd c \<and>
    closed c' = closed c \<and> (err = None \<longrightarrow> n = length b)"
  using assms
proof (induction b l c rule: write_loop.induct)
  case (1 b l c)
  show ?case
  proof (cases "l < length b")
    case False
    with "1.prems" show ?thesis by (auto simp: write_loop.simps)
  next
    case True
    obtain m e c1 where w: "conn_Write (drop l b) c = (m, e, c1)"
      by (cases "conn_Write (drop l b) c") auto
    note s1 = conn_Write_sent [OF w]
    show ?thesis
    proof (cases e)
      case (Some e')
      with True w s1 "1.prems" show ?thesis by (auto simp: write_loop.simps [of b l c])
    next
      case None
      with True w "1.prems" have nxt: "write_loop b (l + m) c1 = (n, err, c')"
        by (simp add: write_loop.simps [of b l c])
      from s1 True have "l + m \<le> length b" by auto
      then have IH: "l + m \<le> n \<and> n \<le> length b \<and> sent c' = sent c1 @ take (n - (l + m)) (drop (l + m) b)
          \<and> rd c' = rd c1 \<and> closed c' = closed c1 \<and> (err = None \<longrightarrow> n = length b)"
        using "1.IH" [OF True refl w [symmetric] refl None nxt] by auto
      have "n - l = m + (n - (l + m))" using IH by simp
      then have "take (n - l) (drop l b) = take m (drop l b) @ take (n - (l + m)) (drop (l + m) b)"
        by (metis take_add drop_drop add.commute)
      with IH s1 show ?thesis by auto
    qed
  qed
qed

fun wr_ok :: "wr_event \<Rightarrow> bool" where
  "wr_ok (WrOk k) = True"
| "wr_ok (WrFail k e) = False"

definition wr_clean :: "conn \<Rightarrow> bool" where
  "wr_clean c \<longleftrightarrow> list_all wr_ok (wr c)"

lemma conn_Write_clean:
  "wr_clean c \<Longrightarrow> conn_Write p c = (n, err, c') \<Longrightarrow> err = None \<and> wr_clean c'"
  by (auto simp: conn_Write.simps wr_clean_def split: list.splits wr_event.splits)

lemma write_loop_clean:
  "wr_clean c \<Longrightarrow> write_loop b l c = (n, err, c') \<Longrightarrow> err = None \<and> wr_clean c'"
proof (induction b l c rule: write_loop.induct)
  case (1 b l c)
  obtain m e c1 where w: "conn_Write (drop l b) c = (m, e, c1)"
    by (cases "conn_Write (drop l b) c") auto
  from conn_Write_clean [OF "1.prems"(1) w] have e: "e = None" "wr_clean c1" by auto
  show ?case
  proof (cases "l < length b")
    case True
    with e w "1.prems" have "write_loop b (l + m) c1 = (n, err, c')"
      by (simp add: write_loop.simps [of b l c])
    then show ?thesis using "1.IH" [OF True refl w [symmetric] refl e(1) e(2)] by simp
  next
    case False
    with "1.prems" show ?thesis by (simp add: write_loop.simps [of b l c])
  qed
qed

subsection \<open>Properties of the wire utilities\<close>

text \<open>C14: \<open>ReadBytes\<close> reassembles the stream.  Whenever the peer delivers at least as many
  bytes as the buffer holds, the buffer is filled with exactly the next bytes of the stream
  and no error is reported, whatever the sizes of the chunks \<open>Read\<close> returned; what follows
  in the stream is left for the next call.\<close>

theorem ReadBytes_stream:
  assumes "length b \<le> length (avail c)"
  shows "\<exists>c'. ReadBytes c b = (take (length b) (avail c), length b, None, c') \<and>
    \<not> ReadErr (length b) None (length b) \<and>
    avail c' = drop (length b) (avail c) \<and> sent c' = sent c \<and> wr c' = wr c \<and>
    closed c' = closed c"
  using read_loop_ok [of 0 b c] assms by (auto simp: ReadBytes_def ReadErr_def)

theorem ReadBytes_stream_witness:
  "\<exists>c'. ReadBytes \<lparr>rd = [RdData [1], RdData [], RdData [2, 3, 4, 5]], wr = [], sent = [], closed = False\<rparr>
      [0, 0, 0, 0] = ([1, 2, 3, 4], 4, None, c') \<and> avail c' = [5]"
  using ReadBytes_stream [of "[0, 0, 0, 0]"
      "\<lparr>rd = [RdData [1], RdData [], RdData [2, 3, 4, 5]], wr = [], sent = [], closed = False\<rparr>"]
  by (auto simp: avail_def)

text \<open>A stream that ends or fails too early is always reported.  If the peer delivers
  fewer bytes than the buffer holds before its error, \<open>ReadBytes\<close> returns an error and
  \<open>ReadErr\<close> tells the caller to give up.\<close>

lemma ReadBytes_short:
  assumes "length (avail c) < length b"
  shows "\<exists>b' n e c'. ReadBytes c b = (b', n, Some e, c') \<and> ReadErr n (Some e) (length b)"
  using read_loop_fail [of 0 b c] assms by (auto simp: ReadBytes_def ReadErr_def Let_def)

lemma ReadBytes_short_sample:
  "\<exists>b' n e c'. ReadBytes \<lparr>rd = [RdData [1], RdFail [2] EOF], wr = [], sent = [], closed = False\<rparr>
      [0, 0] = (b', n, Some e, c') \<and> ReadErr n (Some e) 2"
  using ReadBytes_short [of "\<lparr>rd = [RdData [1], RdFail [2] EOF], wr = [], sent = [], closed = False\<rparr>"
      "[0, 0]"]
  by (auto simp: avail_def numeral_2_eq_2)

text \<open>\<open>WriteBytes\<close> never reorders, repeats or drops bytes.  Whatever the peer accepts per
  call, the bytes added to the connection are the first \<open>n\<close> bytes of the buffer, where \<open>n\<close>
  is the count returned, and a call that reports no error has sent the whole buffer.\<close>

lemma WriteBytes_prefix:
  assumes "WriteBytes c b = (n, err, c')"
  shows "n \<le> length b \<and> sent c' = sent c @ take n b \<and> rd c' = rd c \<and> closed c' = closed c \<and>
    (err = None \<longrightarrow> n = length b)"
  using write_loop_sent [of b 0 c n err c'] assms by (simp add: WriteBytes_def)

lemma WriteBytes_prefix_sample:
  "\<exists>n err c'. WriteBytes \<lparr>rd = [], wr = [WrOk 1, WrOk 0, WrFail 1 EOF], sent = [9], closed = False\<rparr> [1, 2, 3]
      = (n, err, c') \<and> sent c' = [9] @ take n [1, 2, 3]"
proof -
  obtain n err c' where
    w: "WriteBytes \<lparr>rd = [], wr = [WrOk 1, WrOk 0, WrFail 1 EOF], sent = [9], closed = False\<rparr> [1, 2, 3]
      = (n, err, c')"
    by (cases "WriteBytes \<lparr>rd = [], wr = [WrOk 1, WrOk 0, WrFail 1 EOF], sent = [9], closed = False\<rparr> [1, 2, 3]")
      auto
  from WriteBytes_prefix [OF w] w show ?thesis by auto
qed

text \<open>The frame header round trip.  Reading back a header yields the RPC type that was
  written and the length modulo \<open>2 ^ 24\<close>; the length is intact exactly when it fits in the
  three low bytes.\<close>

lemma frame_header_roundtrip:
  "get_header (put_header ty n) = (ty, n mod 2 ^ 24) \<and>
   (get_header (put_header ty n) = (ty, n) \<longleftrightarrow> n < 2 ^ 24)"
  by (auto simp: get_put_header mod_eq_self_iff_div_eq_0 div_eq_0_iff)

end
