(* ===== verification/Util_Pool.thy ===== *)
theory Util_Pool
  imports Util_Msg
begin

section \<open>Messages, builders and object pools (internal/util/pool.go)\<close>

text \<open>
  The FlatBuffers library and the generated protocol code (ext-plugin-proto) are not part
  of the repository.  What the runner uses of them enters the model in two ways:

  \<^item> a message the runner builds is a value of \<open>msg\<close>, the table fields the code adds in the
    order of its \<open>...Start\<close>, \<open>...Add...\<close>, \<open>...End\<close> calls; an offset variable that stays 0 is
    \<open>None\<close>, and adding offset 0 leaves the field absent;
  \<^item> the codec is a parameter, a record of the functions that turn a finished message into
    bytes and received bytes into the values of the accessors the code calls.  A malformed
    buffer makes the accessors panic; a decoder returns \<open>Panic\<close> for it.

  \<open>sync.Pool\<close> may hand out any pooled object or a new one: the choice is an oracle, a list
  of picks that each \<open>Get\<close> consumes, and the theorems hold for every oracle.
\<close>

subsection \<open>The messages the runner writes\<close>

type_synonym entry = "string \<times> string option"

datatype info = InfoVar string | InfoReqBody | InfoRespBody

datatype err_code = BAD_REQUEST | SERVICE_UNAVAILABLE | CONF_TOKEN_NOT_FOUND

record rewrite_action =
  rwPath :: "bytes option"
  rwBody :: "bytes option"
  rwHeaders :: "entry list option"
  rwRespHeaders :: "entry list option"
  rwArgs :: "entry list option"

record stop_action =
  stStatus :: u16
  stHeaders :: "entry list option"
  stBody :: "bytes option"

datatype action = ActionRewrite rewrite_action | ActionStop stop_action

datatype msg =
    MsgErr err_code
  | MsgPrepareConfResp u32
  | MsgHTTPReqResp u32 "action option"
  | MsgHTTPRespResp u32 "u16 option" "entry list option" "bytes option"
  | MsgExtraInfoReq info

subsection \<open>The codec\<close>

record text_entry =
  teName :: "bytes option"
  teValue :: "bytes option"

text \<open>The accessors of \<open>HTTPReqCall.Req\<close>, \<open>HTTPRespCall.Req\<close> and \<open>PrepareConf.Req\<close>; element
  \<open>i\<close> of a vector is \<open>None\<close> when the accessor of the element returns false.\<close>

record hreq =
  hqId :: u32
  hqConfToken :: u32
  hqSrcIp :: bytes
  hqMethod :: byte
  hqPath :: "bytes option"
  hqHeaders :: "text_entry option list"
  hqArgs :: "text_entry option list"

record hresp =
  hpId :: u32
  hpConfToken :: u32
  hpStatus :: u16
  hpHeaders :: "text_entry option list"

record preq =
  pqKey :: "bytes option"
  pqConf :: "text_entry option list"

record codec =
  GetRootAsHTTPReqCall :: "bytes \<Rightarrow> hreq rt"
  GetRootAsHTTPRespCall :: "bytes \<Rightarrow> hresp rt"
  GetRootAsPrepareConf :: "bytes \<Rightarrow> preq rt"
  GetRootAsExtraInfoResp :: "bytes \<Rightarrow> bytes option rt"
  MethodString :: "byte \<Rightarrow> string"
  encode_msg :: "msg \<Rightarrow> bytes"

subsection \<open>Builders\<close>

record builder =
  bdMsg :: "msg option"

definition NewBuilder :: builder where
  "NewBuilder = \<lparr>bdMsg = None\<rparr>"

definition Finish :: "msg \<Rightarrow> builder \<Rightarrow> builder" where
  "Finish m b = b\<lparr>bdMsg := Some m\<rparr>"

definition builder_Reset :: "builder \<Rightarrow> builder" where
  "builder_Reset b = b\<lparr>bdMsg := None\<rparr>"

definition FinishedBytes :: "codec \<Rightarrow> builder \<Rightarrow> bytes rt" where
  "FinishedBytes cd b = (case bdMsg b of None \<Rightarrow> Panic | Some m \<Rightarrow> Val (encode_msg cd m))"

text \<open>
  A vector is built by prepending its elements from the last to the first, the loop
  \<open>for i := size - 1; i >= 0; i--\<close> of every \<open>FetchChanges\<close>.
\<close>

fun prepend_down :: "'a list \<Rightarrow> nat \<Rightarrow> 'a list \<Rightarrow> 'a list" where
  "prepend_down es 0 acc = acc"
| "prepend_down es (Suc i) acc = prepend_down es i (es ! i # acc)"

definition build_vector :: "'a list \<Rightarrow> 'a list" where
  "build_vector es = prepend_down es (length es) []"

lemma prepend_down_take: "n \<le> length es \<Longrightarrow> prepend_down es n acc = take n es @ acc"
  by (induction n arbitrary: acc) (simp_all add: take_Suc_conv_app_nth)

lemma build_vector_id [simp]: "build_vector es = es"
  by (simp add: build_vector_def prepend_down_take)

subsection \<open>sync.Pool\<close>

definition Pool_Get :: "'a \<Rightarrow> 'a list \<Rightarrow> nat option list \<Rightarrow> 'a \<times> 'a list \<times> nat option list" where
  "Pool_Get new p picks =
     (case picks of
        [] \<Rightarrow> (new, p, [])
      | None # ps \<Rightarrow> (new, p, ps)
      | Some i # ps \<Rightarrow>
          (if i < length p then (p ! i, take i p @ drop (Suc i) p, ps) else (new, p, ps)))"

definition Pool_Put :: "'a \<Rightarrow> 'a list \<Rightarrow> 'a list" where
  "Pool_Put x p = x # p"

text \<open>
  The contract of a pool of reusable objects: \<open>New\<close> yields a clean object and an object is
  reset before it is put back, so \<open>Get\<close> yields a clean object whatever it picks.
\<close>

locale reset_pool =
  fixes new :: 'a and reset :: "'a \<Rightarrow> 'a" and clean :: "'a \<Rightarrow> bool"
  assumes clean_new: "clean new"
    and clean_reset: "clean (reset x)"
begin

definition pool_ok :: "'a list \<Rightarrow> bool" where
  "pool_ok p \<longleftrightarrow> list_all clean p"

lemma pool_ok_Nil: "pool_ok []"
  by (simp add: pool_ok_def)

lemma Get_clean:
  assumes "pool_ok p" and "Pool_Get new p picks = (x, p', picks')"
  shows "clean x \<and> pool_ok p'"
  using assms clean_new
  by (auto simp: pool_ok_def Pool_Get_def list_all_iff dest!: in_set_takeD in_set_dropD
      split: list.splits option.splits if_splits)

lemma Put_ok: "pool_ok p \<Longrightarrow> pool_ok (Pool_Put (reset x) p)"
  by (simp add: pool_ok_def Pool_Put_def clean_reset)

end

subsection \<open>The state a handler works on\<close>

text \<open>
  The connection of the goroutine, the shared builder pool, the oracle of the pools, and the
  contexts: the next identifier and the identifiers of the contexts cancelled so far.
\<close>

record io =
  ioConn :: conn
  ioBuilders :: "builder list"
  ioPicks :: "nat option list"
  ioNextCtx :: nat
  ioCancelled :: "nat list"

definition GetBuilder :: "io \<Rightarrow> builder \<times> io" where
  "GetBuilder s =
     (let (b, p, ps) = Pool_Get NewBuilder (ioBuilders s) (ioPicks s)
      in (b, s\<lparr>ioBuilders := p, ioPicks := ps\<rparr>))"

definition PutBuilder :: "builder \<Rightarrow> io \<Rightarrow> io" where
  "PutBuilder b s = s\<lparr>ioBuilders := Pool_Put (builder_Reset b) (ioBuilders s)\<rparr>"

definition builder_clean :: "builder \<Rightarrow> bool" where
  "builder_clean b \<longleftrightarrow> bdMsg b = None"

interpretation builder_pool: reset_pool NewBuilder builder_Reset builder_clean
  by unfold_locales (simp_all add: builder_clean_def NewBuilder_def builder_Reset_def)

lemma GetBuilder_frame:
  "GetBuilder s = (b, s') \<Longrightarrow> ioConn s' = ioConn s \<and> ioNextCtx s' = ioNextCtx s \<and>
    ioCancelled s' = ioCancelled s"
  by (auto simp: GetBuilder_def Let_def split: prod.splits)

lemma GetBuilder_conn [simp]: "ioConn (snd (GetBuilder s)) = ioConn s"
  by (simp add: GetBuilder_def Let_def split: prod.splits)

lemma PutBuilder_conn [simp]: "ioConn (PutBuilder b s) = ioConn s"
  by (simp add: PutBuilder_def)

end
