(* ===== verification/Http_Header.thy ===== *)
theory Http_Header
  imports Util_Pool
begin

section \<open>Headers (internal/http/header.go)\<close>

text \<open>
  The part of \<open>net/http\<close> the runner uses (canonical keys, \<open>http.Header\<close>) and the runner's
  own \<open>Header\<close>, which records the changes a plugin makes so that \<open>HeaderBuild\<close> can send
  them to APISIX.

  The abstract specification is a case-insensitive store of header values
  (\<open>spec_op\<close>); the theorems relate \<open>Get\<close> and the entries \<open>HeaderBuild\<close> emits to it.
\<close>

subsection \<open>net/textproto: canonical header keys\<close>

abbreviation code :: "char \<Rightarrow> nat" where
  "code c \<equiv> of_char c"

definition is_lower :: "char \<Rightarrow> bool" where
  "is_lower c \<longleftrightarrow> 97 \<le> code c \<and> code c \<le> 122"

definition is_upper :: "char \<Rightarrow> bool" where
  "is_upper c \<longleftrightarrow> 65 \<le> code c \<and> code c \<le> 90"

definition to_upper :: "char \<Rightarrow> char" where
  "to_upper c = char_of (code c - 32)"

definition to_lower :: "char \<Rightarrow> char" where
  "to_lower c = char_of (code c + 32)"

definition validHeaderFieldByte :: "char \<Rightarrow> bool" where
  "validHeaderFieldByte c \<longleftrightarrow> is_lower c \<or> is_upper c \<or> (48 \<le> code c \<and> code c \<le> 57) \<or>
     c \<in> set ''!#$%&*+-.^_|~'' \<or> code c = 39 \<or> code c = 96"

fun canon_loop :: "bool \<Rightarrow> string \<Rightarrow> string" where
  "canon_loop upper [] = []"
| "canon_loop upper (c # cs) =
     (let c' = (if upper \<and> is_lower c then to_upper c
                else if \<not> upper \<and> is_upper c then to_lower c else c)
      in c' # canon_loop (c' = CHR ''-'') cs)"

definition CanonicalHeaderKey :: "string \<Rightarrow> string" where
  "CanonicalHeaderKey s = (if list_all validHeaderFieldByte s then canon_loop True s else s)"

lemma is_lower_to_upper: "is_lower c \<Longrightarrow> is_upper (to_upper c)"
  by (auto simp: is_lower_def is_upper_def to_upper_def)

lemma is_upper_to_lower: "is_upper c \<Longrightarrow> is_lower (to_lower c)"
  by (auto simp: is_lower_def is_upper_def to_lower_def)

lemma lower_not_upper: "is_lower c \<Longrightarrow> \<not> is_upper c"
  by (simp add: is_lower_def is_upper_def)

lemma valid_case [simp]:
  "is_lower c \<Longrightarrow> validHeaderFieldByte (to_upper c)"
  "is_upper c \<Longrightarrow> validHeaderFieldByte (to_lower c)"
  by (simp_all add: validHeaderFieldByte_def is_lower_to_upper is_upper_to_lower)

lemma canon_loop_valid:
  "list_all validHeaderFieldByte s \<Longrightarrow> list_all validHeaderFieldByte (canon_loop u s)"
  by (induction u s rule: canon_loop.induct) (auto simp: Let_def)

lemma canon_loop_idem [simp]: "canon_loop u (canon_loop u s) = canon_loop u s"
  by (induction u s rule: canon_loop.induct)
    (auto simp: Let_def lower_not_upper is_lower_to_upper is_upper_to_lower
      dest: lower_not_upper is_lower_to_upper is_upper_to_lower)

lemma CanonicalHeaderKey_idem [simp]:
  "CanonicalHeaderKey (CanonicalHeaderKey s) = CanonicalHeaderKey s"
  by (simp add: CanonicalHeaderKey_def canon_loop_valid)

subsection \<open>net/http: Header\<close>

type_synonym http_header = "(string, string list) gomap"

definition http_Add :: "string \<Rightarrow> string \<Rightarrow> http_header \<Rightarrow> http_header" where
  "http_Add key value h =
     (let k = CanonicalHeaderKey key
      in AList.update k ((case map_of h k of None \<Rightarrow> [] | Some vs \<Rightarrow> vs) @ [value]) h)"

definition http_Set :: "string \<Rightarrow> string \<Rightarrow> http_header \<Rightarrow> http_header" where
  "http_Set key value h = AList.update (CanonicalHeaderKey key) [value] h"

definition http_Del :: "string \<Rightarrow> http_header \<Rightarrow> http_header" where
  "http_Del key h = AList.delete (CanonicalHeaderKey key) h"

definition first_value :: "string list option \<Rightarrow> string" where
  "first_value vs = (case vs of Some (v # _) \<Rightarrow> v | _ \<Rightarrow> [])"

definition http_Get :: "string \<Rightarrow> http_header \<Rightarrow> string" where
  "http_Get key h = first_value (map_of h (CanonicalHeaderKey key))"

lemmas http_defs = http_Add_def http_Set_def http_Del_def http_Get_def

lemma first_value_simps [simp]:
  "first_value None = []" "first_value (Some []) = []" "first_value (Some (v # vs)) = v"
  by (simp_all add: first_value_def)

lemma http_wf [wf_intros]:
  "wf_map h \<Longrightarrow> wf_map (http_Add k v h)" "wf_map h \<Longrightarrow> wf_map (http_Set k v h)"
  "wf_map h \<Longrightarrow> wf_map (http_Del k h)"
  by (simp_all add: http_defs Let_def wf_intros)

subsection \<open>The runner's Header\<close>

record Header =
  hdr :: http_header
  rawHdr :: http_header
  deleteField :: "(string, unit) gomap"

text \<open>\<open>ReadHeader\<close>: \<open>HeadersLength\<close> and \<open>Headers(&obj, i)\<close> as the list of the entries.\<close>

fun add_entries :: "text_entry option list \<Rightarrow> http_header \<Rightarrow> http_header" where
  "add_entries [] hh = hh"
| "add_entries (None # es) hh = add_entries es hh"
| "add_entries (Some e # es) hh =
     add_entries es (http_Add (go_string_opt (teName e)) (go_string_opt (teValue e)) hh)"

definition newHeader :: "text_entry option list \<Rightarrow> Header" where
  "newHeader es = \<lparr>hdr = [], rawHdr = add_entries es [], deleteField = []\<rparr>"

definition Header_Set :: "string \<Rightarrow> string \<Rightarrow> Header \<Rightarrow> Header" where
  "Header_Set key value h =
     h\<lparr>hdr := http_Set key value (hdr h), deleteField := AList.delete key (deleteField h)\<rparr>"

definition Header_Del :: "string \<Rightarrow> Header \<Rightarrow> Header" where
  "Header_Del key h =
     (let h1 = (if http_Get key (rawHdr h) \<noteq> [] then
                  h\<lparr>deleteField := AList.update key () (deleteField h),
                    rawHdr := http_Del key (rawHdr h)\<rparr>
                else h)
      in h1\<lparr>hdr := http_Del key (hdr h1)\<rparr>)"

definition Header_Get :: "string \<Rightarrow> Header \<Rightarrow> string" where
  "Header_Get key h =
     (let v = http_Get key (hdr h) in if v \<noteq> [] then v else http_Get key (rawHdr h))"

definition Header_View :: "Header \<Rightarrow> http_header" where
  "Header_View h = hdr h"

text \<open>
  \<open>HeaderBuild\<close> ranges over \<open>deleteField\<close> and then over \<open>hdr\<close>.  Indexing \<open>raw[0]\<close> or
  \<open>hVal[0]\<close> of an empty slice panics.
\<close>

fun build_deleted :: "string list \<Rightarrow> entry list" where
  "build_deleted [] = []"
| "build_deleted (d # ds) = (d, None) # build_deleted ds"

fun build_set :: "Header \<Rightarrow> string list \<Rightarrow> entry list rt" where
  "build_set h [] = Val []"
| "build_set h (hKey # ks) =
     (case (map_of (rawHdr h) hKey, map_of (hdr h) hKey) of
        (Some (r # _), Some (v # _)) \<Rightarrow>
          (if r \<noteq> v then
             (case build_set h ks of Val es \<Rightarrow> Val ((hKey, Some v) # es) | Panic \<Rightarrow> Panic)
           else build_set h ks)
      | (None, Some (v # _)) \<Rightarrow>
          (case build_set h ks of Val es \<Rightarrow> Val ((hKey, Some v) # es) | Panic \<Rightarrow> Panic)
      | _ \<Rightarrow> Panic)"

definition HeaderBuild ::
  "(string list \<Rightarrow> string list) \<Rightarrow> (string list \<Rightarrow> string list) \<Rightarrow> Header \<Rightarrow> entry list rt" where
  "HeaderBuild ordD ordH h =
     (case build_set h (ordH (keys (hdr h))) of
        Val es \<Rightarrow> Val (build_deleted (ordD (keys (deleteField h))) @ es)
      | Panic \<Rightarrow> Panic)"

subsection \<open>Operation sequences and the abstract specification\<close>

datatype hdr_op = HSet string string | HDel string

fun Header_op :: "hdr_op \<Rightarrow> Header \<Rightarrow> Header" where
  "Header_op (HSet k v) h = Header_Set k v h"
| "Header_op (HDel k) h = Header_Del k h"

fun Header_run :: "hdr_op list \<Rightarrow> Header \<Rightarrow> Header" where
  "Header_run [] h = h"
| "Header_run (x # xs) h = Header_run xs (Header_op x h)"

text \<open>The interface promises a store of values under case-insensitive keys.\<close>

type_synonym hdr_spec = "string \<Rightarrow> string list option"

fun spec_op :: "hdr_op \<Rightarrow> hdr_spec \<Rightarrow> hdr_spec" where
  "spec_op (HSet k v) m = m(CanonicalHeaderKey k \<mapsto> [v])"
| "spec_op (HDel k) m = m(CanonicalHeaderKey k := None)"

fun spec_run :: "hdr_op list \<Rightarrow> hdr_spec \<Rightarrow> hdr_spec" where
  "spec_run [] m = m"
| "spec_run (x # xs) m = spec_run xs (spec_op x m)"

text \<open>What the receiver of the entries does: an entry without a value removes the header, one
  with a value replaces it, in order.\<close>

fun apply_entries :: "entry list \<Rightarrow> hdr_spec \<Rightarrow> hdr_spec" where
  "apply_entries [] m = m"
| "apply_entries ((k, None) # es) m = apply_entries es (m(CanonicalHeaderKey k := None))"
| "apply_entries ((k, Some v) # es) m = apply_entries es (m(CanonicalHeaderKey k \<mapsto> [v]))"

text \<open>Whether the operations delete the canonical key \<open>K\<close>, set and then delete it, delete it and
  then set and delete it once more.\<close>

fun deletes :: "string \<Rightarrow> hdr_op list \<Rightarrow> bool" where
  "deletes K [] = False"
| "deletes K (HSet k v # xs) = deletes K xs"
| "deletes K (HDel k # xs) = (CanonicalHeaderKey k = K \<or> deletes K xs)"

fun sets_deletes :: "string \<Rightarrow> hdr_op list \<Rightarrow> bool" where
  "sets_deletes K [] = False"
| "sets_deletes K (HSet k v # xs) = (CanonicalHeaderKey k = K \<and> deletes K xs \<or> sets_deletes K xs)"
| "sets_deletes K (HDel k # xs) = sets_deletes K xs"

fun redeleted :: "string \<Rightarrow> hdr_op list \<Rightarrow> bool" where
  "redeleted K [] = False"
| "redeleted K (HSet k v # xs) = redeleted K xs"
| "redeleted K (HDel k # xs) = (CanonicalHeaderKey k = K \<and> sets_deletes K xs \<or> redeleted K xs)"

fun sets_nonempty :: "hdr_op list \<Rightarrow> bool" where
  "sets_nonempty [] = True"
| "sets_nonempty (HSet k v # xs) = (v \<noteq> [] \<and> sets_nonempty xs)"
| "sets_nonempty (HDel k # xs) = sets_nonempty xs"

subsection \<open>The invariant of a Header\<close>

text \<open>
  Keys of \<open>hdr\<close> are canonical and carry one value; every raw value list is non-empty; a key
  recorded as deleted is no longer in \<open>rawHdr\<close>.
\<close>

definition header_ok :: "Header \<Rightarrow> bool" where
  "header_ok h \<longleftrightarrow> wf_map (hdr h) \<and> wf_map (rawHdr h) \<and> wf_map (deleteField h) \<and>
     (\<forall>K vs. map_of (hdr h) K = Some vs \<longrightarrow> CanonicalHeaderKey K = K \<and> (\<exists>v. vs = [v])) \<and>
     (\<forall>K. map_of (rawHdr h) K \<noteq> Some []) \<and>
     (\<forall>d. map_of (deleteField h) d \<noteq> None \<longrightarrow> map_of (rawHdr h) (CanonicalHeaderKey d) = None)"

lemma add_entries_ok:
  "wf_map hh \<Longrightarrow> \<forall>K. map_of hh K \<noteq> Some [] \<Longrightarrow>
    wf_map (add_entries es hh) \<and> (\<forall>K. map_of (add_entries es hh) K \<noteq> Some [])"
proof (induction es hh rule: add_entries.induct)
  case (3 e es hh)
  then show ?case
    by (simp add: wf_intros) (simp add: http_Add_def Let_def)
qed auto

lemma newHeader_ok [simp]: "header_ok (newHeader es)"
  using add_entries_ok [of "[]" es] by (simp add: header_ok_def newHeader_def)

lemma Header_Set_ok: "header_ok h \<Longrightarrow> header_ok (Header_Set k v h)"
  by (auto simp: header_ok_def Header_Set_def http_Set_def wf_intros)

lemma Header_Del_ok: "header_ok h \<Longrightarrow> header_ok (Header_Del k h)"
  by (auto simp: header_ok_def Header_Del_def http_Del_def Let_def wf_intros)

lemma Header_run_ok: "header_ok h \<Longrightarrow> header_ok (Header_run ops h)"
proof (induction ops arbitrary: h)
  case (Cons x xs)
  then show ?case by (cases x) (simp_all add: Header_Set_ok Header_Del_ok)
qed simp

text \<open>Under the invariant \<open>HeaderBuild\<close> does not panic and has a closed form.\<close>

definition changed :: "Header \<Rightarrow> string \<Rightarrow> bool" where
  "changed h k \<longleftrightarrow> map_of (rawHdr h) k = None \<or>
     first_value (map_of (rawHdr h) k) \<noteq> first_value (map_of (hdr h) k)"

lemma build_deleted_map: "build_deleted ds = map (\<lambda>d. (d, None)) ds"
  by (induction ds) auto

lemma build_set_closed:
  assumes "header_ok h" and "set ks \<subseteq> dom (map_of (hdr h))"
  shows "build_set h ks =
    Val (map (\<lambda>k. (k, Some (first_value (map_of (hdr h) k)))) (filter (changed h) ks))"
  using assms(2)
proof (induction ks)
  case (Cons k ks)
  from Cons.prems assms(1) obtain v where "map_of (hdr h) k = Some [v]"
    by (fastforce simp: header_ok_def)
  moreover from assms(1) have "map_of (rawHdr h) k \<noteq> Some []" by (auto simp: header_ok_def)
  ultimately show ?case using Cons
    by (auto simp: changed_def split: option.splits list.splits)
qed simp

lemma HeaderBuild_closed:
  assumes "header_ok h" and "range_ok ordH"
  shows "HeaderBuild ordD ordH h =
    Val (map (\<lambda>d. (d, None)) (ordD (keys (deleteField h))) @
      map (\<lambda>k. (k, Some (first_value (map_of (hdr h) k)))) (filter (changed h) (ordH (keys (hdr h)))))"
proof -
  have "set (ordH (keys (hdr h))) \<subseteq> dom (map_of (hdr h))"
    using range_ok_set [OF assms(2)] by simp
  then show ?thesis
    by (simp add: HeaderBuild_def build_deleted_map build_set_closed [OF assms(1)])
qed

subsection \<open>Get and HeaderBuild against the specification\<close>

definition raw_spec :: "text_entry option list \<Rightarrow> hdr_spec" where
  "raw_spec es = map_of (add_entries es [])"

definition hdr_nonempty :: "Header \<Rightarrow> bool" where
  "hdr_nonempty h \<longleftrightarrow> (\<forall>K vs. map_of (hdr h) K = Some vs \<longrightarrow> first_value (Some vs) \<noteq> [])"

text \<open>The value a plugin sees under canonical key \<open>K\<close>.\<close>

definition seen :: "Header \<Rightarrow> string \<Rightarrow> string" where
  "seen h K = (case map_of (hdr h) K of Some vs \<Rightarrow> first_value (Some vs)
     | None \<Rightarrow> first_value (map_of (rawHdr h) K))"

lemma Header_Get_seen: "hdr_nonempty h \<Longrightarrow> Header_Get k h = seen h (CanonicalHeaderKey k)"
  by (auto simp: Header_Get_def seen_def hdr_nonempty_def http_Get_def Let_def split: option.splits)

lemma Header_Get_layers: "Header_Get k h =
    (if seen h (CanonicalHeaderKey k) = [] then first_value (map_of (rawHdr h) (CanonicalHeaderKey k))
     else seen h (CanonicalHeaderKey k))"
  by (cases "map_of (hdr h) (CanonicalHeaderKey k)") (simp_all add: Header_Get_def seen_def http_Get_def)

lemma seen_Set: "seen (Header_Set k v h) K = (if K = CanonicalHeaderKey k then v else seen h K)"
  by (simp add: seen_def Header_Set_def http_Set_def split: option.splits)

lemma seen_Del: "seen (Header_Del k h) K = (if K = CanonicalHeaderKey k then [] else seen h K)"
  by (auto simp: seen_def Header_Del_def http_Del_def http_Get_def Let_def split: option.splits)

lemma Header_Get_canon: "Header_Get k h = Header_Get (CanonicalHeaderKey k) h"
  by (simp add: Header_Get_def http_Get_def Let_def)

lemma Header_Get_Set:
  "CanonicalHeaderKey k' = CanonicalHeaderKey k \<Longrightarrow> v \<noteq> [] \<Longrightarrow> Header_Get k' (Header_Set k v h) = v"
  by (simp add: Header_Get_def Header_Set_def http_defs)

lemma Header_Get_Del:
  "CanonicalHeaderKey k' = CanonicalHeaderKey k \<Longrightarrow> Header_Get k' (Header_Del k h) = []"
  by (simp add: Header_Get_def Header_Del_def http_defs Let_def)

lemma seen_run:
  "(\<And>K. seen h K = first_value (m K)) \<Longrightarrow>
    seen (Header_run ops h) K = first_value (spec_run ops m K)"
proof (induction ops arbitrary: h m)
  case (Cons x xs)
  show ?case
    by (cases x) (auto simp: seen_Set seen_Del Cons.prems intro!: Cons.IH)
qed simp

lemma Header_Set_nonempty: "hdr_nonempty h \<Longrightarrow> v \<noteq> [] \<Longrightarrow> hdr_nonempty (Header_Set k v h)"
  by (auto simp: hdr_nonempty_def Header_Set_def http_Set_def)

lemma Header_Del_nonempty: "hdr_nonempty h \<Longrightarrow> hdr_nonempty (Header_Del k h)"
  by (auto simp: hdr_nonempty_def Header_Del_def http_Del_def Let_def)

lemma seen_newHeader: "seen (newHeader es) K = first_value (raw_spec es K)"
  by (simp add: seen_def newHeader_def raw_spec_def)

subsection \<open>The contract of a header object\<close>

text \<open>What the interface of plugins (\<open>pkgHTTP.Header\<close>) promises of \<open>Set\<close>, \<open>Del\<close> and \<open>Get\<close>.  The runner's header keeps
  it while no empty value is set; \<open>http.Header\<close> itself always does.\<close>

locale header_object =
  fixes set_op :: "string \<Rightarrow> string \<Rightarrow> 'h \<Rightarrow> 'h" and del_op :: "string \<Rightarrow> 'h \<Rightarrow> 'h"
    and get_op :: "string \<Rightarrow> 'h \<Rightarrow> string" and ok :: "'h \<Rightarrow> bool"
  assumes get_set: "ok h \<Longrightarrow> v \<noteq> [] \<Longrightarrow> get_op k' (set_op k v h) =
      (if CanonicalHeaderKey k' = CanonicalHeaderKey k then v else get_op k' h)"
    and get_del: "ok h \<Longrightarrow> get_op k' (del_op k h) =
      (if CanonicalHeaderKey k' = CanonicalHeaderKey k then [] else get_op k' h)"
    and ok_set: "ok h \<Longrightarrow> v \<noteq> [] \<Longrightarrow> ok (set_op k v h)"
    and ok_del: "ok h \<Longrightarrow> ok (del_op k h)"
begin

fun run_ops :: "hdr_op list \<Rightarrow> 'h \<Rightarrow> 'h" where
  "run_ops [] h = h"
| "run_ops (HSet k v # ops) h = run_ops ops (set_op k v h)"
| "run_ops (HDel k # ops) h = run_ops ops (del_op k h)"

text \<open>What \<open>Get\<close> returns depends on the calls since the key was last written only.\<close>

lemma get_last:
  "ok h \<Longrightarrow> sets_nonempty ops \<Longrightarrow> first_value (m (CanonicalHeaderKey k)) = get_op k h \<Longrightarrow>
    get_op k (run_ops ops h) = first_value (spec_run ops m (CanonicalHeaderKey k))"
proof (induction ops arbitrary: h m rule: list.induct)
  case (Cons x ops)
  show ?case
  proof (cases x)
    case (HSet k' v)
    with Cons.prems Cons.IH [of "set_op k' v h" "m(CanonicalHeaderKey k' \<mapsto> [v])"] show ?thesis
      by (cases "CanonicalHeaderKey k = CanonicalHeaderKey k'") (simp_all add: get_set ok_set fun_upd_def)
  next
    case (HDel k')
    with Cons.prems Cons.IH [of "del_op k' h" "m(CanonicalHeaderKey k' := None)"] show ?thesis
      by (cases "CanonicalHeaderKey k = CanonicalHeaderKey k'") (simp_all add: get_del ok_del fun_upd_def)
  qed
qed simp

end

text \<open>Two implementations that agree on every \<open>Get\<close> still do after the same calls.\<close>

locale header_objects = h1: header_object set1 del1 get1 ok1 + h2: header_object set2 del2 get2 ok2
  for set1 :: "string \<Rightarrow> string \<Rightarrow> 'h \<Rightarrow> 'h" and del1 get1 ok1 and set2 :: "string \<Rightarrow> string \<Rightarrow> 'g \<Rightarrow> 'g" and del2 get2 ok2
begin

lemma gets_agree:
  assumes "ok1 h" "ok2 g" "sets_nonempty ops" "get1 k h = get2 k g"
  shows "get1 k (h1.run_ops ops h) = get2 k (h2.run_ops ops g)"
  using h1.get_last [OF assms(1,3), of "\<lambda>_. Some [get2 k g]"] h2.get_last [OF assms(2,3), of "\<lambda>_. Some [get2 k g]"] assms(4)
  by simp

end

interpretation runner_header: header_object Header_Set Header_Del Header_Get hdr_nonempty
  by unfold_locales (simp_all add: Header_Get_seen Header_Set_nonempty Header_Del_nonempty seen_Set seen_Del)

interpretation recorder_header: header_object http_Set http_Del http_Get "\<lambda>h. True"
  by unfold_locales (simp_all add: http_defs map_of_update map_of_delete)

interpretation both_headers: header_objects Header_Set Header_Del Header_Get hdr_nonempty http_Set http_Del http_Get "\<lambda>h. True"
  by unfold_locales

lemma Header_run_ops: "runner_header.run_ops ops h = Header_run ops h"
proof (induction ops arbitrary: h)
  case (Cons x ops)
  then show ?case by (cases x) simp_all
qed simp

text \<open>
  A raw header that is gone is \<open>told\<close> when it is recorded in \<open>deleteField\<close> or overwritten in \<open>hdr\<close>.  A key
  passes through three stages: still received or recorded as deleted (\<open>marked\<close>), overwritten after
  that, and lost.  Only a deletion of an overwritten key leads to the last stage.
\<close>

definition recorded :: "Header \<Rightarrow> string \<Rightarrow> bool" where
  "recorded h K \<longleftrightarrow> (\<exists>d. map_of (deleteField h) d \<noteq> None \<and> CanonicalHeaderKey d = K)"

definition marked :: "hdr_spec \<Rightarrow> Header \<Rightarrow> string \<Rightarrow> bool" where
  "marked m0 h K \<longleftrightarrow> map_of (rawHdr h) K = m0 K \<or> map_of (rawHdr h) K = None \<and> recorded h K"

definition told :: "hdr_spec \<Rightarrow> Header \<Rightarrow> string \<Rightarrow> bool" where
  "told m0 h K \<longleftrightarrow> marked m0 h K \<or> map_of (rawHdr h) K = None \<and> map_of (hdr h) K \<noteq> None"

lemma raw_Set [simp]: "rawHdr (Header_Set k v h) = rawHdr h"
  by (simp add: Header_Set_def)

lemma raw_Del: "map_of (rawHdr (Header_Del k h)) K =
    (if CanonicalHeaderKey k = K \<and> first_value (map_of (rawHdr h) K) \<noteq> [] then None else map_of (rawHdr h) K)"
  by (auto simp: Header_Del_def http_defs Let_def map_of_delete)

lemma told_Set: "told m0 h K \<Longrightarrow> told m0 (Header_Set k v h) K"
  unfolding told_def marked_def recorded_def Header_Set_def http_Set_def
  by (auto simp: map_of_update map_of_delete split: if_splits)

lemma marked_Set:
  "marked m0 h K \<Longrightarrow> CanonicalHeaderKey k \<noteq> K \<Longrightarrow> marked m0 (Header_Set k v h) K"
  unfolding marked_def recorded_def Header_Set_def http_Set_def by auto

lemma marked_Del: "marked m0 h K \<Longrightarrow> marked m0 (Header_Del k h) K"
  unfolding marked_def recorded_def Header_Del_def http_defs Let_def by (auto simp: map_of_delete)

lemma told_Del: "told m0 h K \<Longrightarrow> CanonicalHeaderKey k \<noteq> K \<Longrightarrow> told m0 (Header_Del k h) K"
  unfolding told_def marked_def recorded_def Header_Del_def http_defs Let_def by auto

lemma told_run: "told m0 h K \<Longrightarrow> \<not> deletes K ops \<Longrightarrow> told m0 (Header_run ops h) K"
proof (induction K ops arbitrary: h rule: deletes.induct)
  case (2 K k v xs)
  then show ?case by (simp add: told_Set)
next
  case (3 K k xs)
  then show ?case by (simp add: told_Del)
qed simp

lemma marked_run: "marked m0 h K \<Longrightarrow> \<not> sets_deletes K ops \<Longrightarrow> told m0 (Header_run ops h) K"
proof (induction K ops arbitrary: h rule: sets_deletes.induct)
  case (2 K k v xs)
  then have "told m0 (Header_Set k v h) K" by (intro told_Set) (simp add: told_def)
  with 2 show ?case by (cases "CanonicalHeaderKey k = K") (simp_all add: told_run marked_Set)
next
  case (3 K k xs)
  then show ?case by (simp add: marked_Del)
qed (simp add: told_def)

lemma received_run:
  "map_of (rawHdr h) K = m0 K \<Longrightarrow> \<not> redeleted K ops \<Longrightarrow> told m0 (Header_run ops h) K"
proof (induction K ops arbitrary: h rule: redeleted.induct)
  case (3 K k xs)
  show ?case
  proof (cases "CanonicalHeaderKey k = K")
    case True
    from 3 have "marked m0 (Header_Del k h) K" by (intro marked_Del) (simp add: marked_def)
    with 3 True show ?thesis by (simp add: marked_run)
  next
    case False
    with 3 show ?thesis by (simp add: raw_Del)
  qed
qed (simp_all add: told_def marked_def)

text \<open>The received value under a key stays as it was until the key is deleted.\<close>

lemma raw_run: "map_of (rawHdr (Header_run ops h)) K = map_of (rawHdr h) K \<or>
    map_of (rawHdr (Header_run ops h)) K = None"
proof (induction ops arbitrary: h)
  case (Cons x xs)
  then show ?case
    using Cons.IH [of "Header_op x h"] by (cases x) (auto simp: raw_Del split: if_splits)
qed simp

lemma raw_run_first: "first_value (map_of (rawHdr (Header_run ops h)) K) =
    (if deletes K ops then [] else first_value (map_of (rawHdr h) K))"
proof (induction K ops arbitrary: h rule: deletes.induct)
  case (3 K k xs)
  then show ?case by (auto simp: raw_Del)
qed simp_all

lemma apply_deleted:
  "apply_entries (map (\<lambda>d. (d, None)) ds @ es) m =
   apply_entries es (\<lambda>K. if \<exists>d\<in>set ds. CanonicalHeaderKey d = K then None else m K)"
  by (induction ds arbitrary: m) (auto intro!: arg_cong [where f = "apply_entries es"])

lemma apply_set:
  "\<forall>k\<in>set ks. CanonicalHeaderKey k = k \<Longrightarrow>
   apply_entries (map (\<lambda>k. (k, Some (f k))) ks) m K = (if K \<in> set ks then Some [f K] else m K)"
  by (induction ks arbitrary: m) auto

lemma HeaderBuild_apply:
  assumes ok: "header_ok h" and ord: "range_ok ordD" "range_ok ordH"
  obtains es where "HeaderBuild ordD ordH h = Val es"
    "\<And>K. apply_entries es m0 K = (if map_of (hdr h) K \<noteq> None \<and> changed h K then map_of (hdr h) K
      else if recorded h K then None else m0 K)"
proof -
  let ?ds = "ordD (keys (deleteField h))" and ?ks = "filter (changed h) (ordH (keys (hdr h)))"
  let ?f = "\<lambda>k. first_value (map_of (hdr h) k)"
  have ds: "set ?ds = dom (map_of (deleteField h))" using range_ok_set [OF ord(1)] by simp
  have ks: "set ?ks = {k \<in> dom (map_of (hdr h)). changed h k}"
    using range_ok_set [OF ord(2)] by auto
  have canon: "\<forall>k\<in>set ?ks. CanonicalHeaderKey k = k"
    using ok unfolding ks header_ok_def by blast
  have one: "map_of (hdr h) K = Some [?f K]" if "map_of (hdr h) K \<noteq> None" for K
    using ok that by (fastforce simp: header_ok_def)
  have "apply_entries (map (\<lambda>d. (d, None)) ?ds @ map (\<lambda>k. (k, Some (?f k))) ?ks) m0 K =
      (if K \<in> set ?ks then Some [?f K]
       else if \<exists>d\<in>set ?ds. CanonicalHeaderKey d = K then None else m0 K)" for K
    by (simp only: apply_deleted apply_set [OF canon])
  moreover have "K \<in> set ?ks \<longleftrightarrow> map_of (hdr h) K \<noteq> None \<and> changed h K" for K
    unfolding ks by blast
  moreover have "(\<exists>d\<in>set ?ds. CanonicalHeaderKey d = K) \<longleftrightarrow> recorded h K" for K
    unfolding ds recorded_def by blast
  ultimately show thesis
    using that one by (simp add: HeaderBuild_closed [OF ok ord(2)])
qed

lemma told_seen:
  assumes "header_ok h" and "told m0 h K"
  shows "first_value (if map_of (hdr h) K \<noteq> None \<and> changed h K then map_of (hdr h) K
    else if recorded h K then None else m0 K) = seen h K"
proof (cases "map_of (hdr h) K")
  case None
  moreover from assms(1) have "recorded h K \<Longrightarrow> map_of (rawHdr h) K = None"
    by (auto simp: header_ok_def recorded_def)
  ultimately show ?thesis using assms(2) by (auto simp: told_def marked_def seen_def)
next
  case (Some vs)
  with assms show ?thesis
    by (auto simp: told_def marked_def recorded_def seen_def changed_def header_ok_def)
qed

subsection \<open>Properties of the header component\<close>

text \<open>Header keys are case insensitive.  Canonicalisation is idempotent, so \<open>Get\<close>, \<open>Set\<close>
  and \<open>Del\<close> treat a key and its canonical spelling alike as far as \<open>hdr\<close> and \<open>rawHdr\<close> are
  concerned, and a \<open>Get\<close> after a \<open>Set\<close> of a non-empty value or a \<open>Del\<close> under any spelling
  with the same canonical form returns that value, or nothing.\<close>

lemma Header_case_insensitive:
  assumes "CanonicalHeaderKey k' = CanonicalHeaderKey k"
  shows "CanonicalHeaderKey (CanonicalHeaderKey k) = CanonicalHeaderKey k \<and>
    Header_Get k' h = Header_Get k h \<and>
    (v \<noteq> [] \<longrightarrow> Header_Get k' (Header_Set k v h) = v) \<and>
    Header_Get k' (Header_Del k h) = []"
  using assms by (simp add: Header_Get_Set Header_Get_Del Header_Get_canon [of k'] Header_Get_canon [of k])

lemma Header_case_insensitive_witness:
  "CanonicalHeaderKey ''cache-CONTROL'' = ''Cache-Control'' \<and>
   Header_Get ''cache-control'' (Header_Set ''CACHE-Control'' ''no-store''
     (newHeader [Some \<lparr>teName = Some (go_bytes ''cache-control''), teValue = Some (go_bytes ''a'')\<rparr>]))
     = ''no-store''"
proof -
  have a: "CanonicalHeaderKey ''cache-CONTROL'' = ''Cache-Control''" by code_simp
  have b: "CanonicalHeaderKey ''cache-control'' = CanonicalHeaderKey ''CACHE-Control''" by code_simp
  show ?thesis
    using a Header_case_insensitive [OF b, where v = "''no-store''" and
        h = "newHeader [Some \<lparr>teName = Some (go_bytes ''cache-control''), teValue = Some (go_bytes ''a'')\<rparr>]"]
    by simp
qed

text \<open>While no empty value is set, \<open>Get\<close> is the abstract store.\<close>

lemma Header_Get_store:
  assumes "sets_nonempty ops"
  shows "Header_Get k (Header_run ops (newHeader es)) =
    first_value (spec_run ops (raw_spec es) (CanonicalHeaderKey k))"
proof -
  have ne: "hdr_nonempty (newHeader es)" by (simp add: hdr_nonempty_def newHeader_def)
  then have "first_value (raw_spec es (CanonicalHeaderKey k)) = Header_Get k (newHeader es)"
    by (simp add: Header_Get_seen seen_newHeader)
  from runner_header.get_last [where m = "raw_spec es" and k = k, OF ne assms this] show ?thesis by (simp add: Header_run_ops)
qed

text \<open>C32: what \<open>Get\<close> returns after any sequence of \<open>Set\<close> and \<open>Del\<close> calls on a header built from
  the received entries, empty values included: the first value that the abstract store, which
  replaces and removes values under case-insensitive keys, holds after the same sequence;
  except that, when this is the empty string and no call deleted the key, \<open>Get\<close> returns the
  first value received.  So \<open>Set\<close> of an empty value does not hide a received header.\<close>

theorem Header_Get_refines:
  "Header_Get k (Header_run ops (newHeader es)) =
    (let K = CanonicalHeaderKey k; v = first_value (spec_run ops (raw_spec es) K)
     in if v = [] \<and> \<not> deletes K ops then first_value (raw_spec es K) else v)"
proof -
  let ?h = "Header_run ops (newHeader es)" and ?K = "CanonicalHeaderKey k"
  have "first_value (map_of (rawHdr ?h) ?K) = (if deletes ?K ops then [] else first_value (raw_spec es ?K))"
    by (simp add: raw_run_first newHeader_def raw_spec_def)
  moreover have "first_value (spec_run ops (raw_spec es) ?K) = seen ?h ?K"
    by (simp add: seen_run seen_newHeader)
  ultimately show ?thesis by (simp only: Header_Get_layers Let_def) simp
qed

text \<open>C6: \<open>HeaderBuild\<close> transmits the changes.  After any sequence of \<open>Set\<close> and \<open>Del\<close> calls on a header
  built from the received entries, and in whatever order Go iterates over its maps,
  \<open>HeaderBuild\<close> does not panic, and applying the entries it emits to the received headers
  gives under every key the first value the abstract store holds, except under keys that
  were deleted, then set, and then deleted again: there the receiver may be left with the
  values it sent although the store holds nothing (or an empty value).\<close>

theorem HeaderBuild_refines:
  assumes "range_ok ordD" and "range_ok ordH"
  shows "\<exists>out. HeaderBuild ordD ordH (Header_run ops (newHeader es)) = Val out \<and>
    (\<forall>K. first_value (apply_entries out (raw_spec es) K) = first_value (spec_run ops (raw_spec es) K) \<or>
      redeleted K ops \<and> first_value (spec_run ops (raw_spec es) K) = [] \<and>
      apply_entries out (raw_spec es) K = raw_spec es K)"
proof -
  let ?h = "Header_run ops (newHeader es)" and ?m = "raw_spec es"
  have ok: "header_ok ?h" by (simp add: Header_run_ok)
  have seen: "seen ?h K = first_value (spec_run ops ?m K)" for K
    by (simp add: seen_run seen_newHeader)
  have raw: "map_of (rawHdr (newHeader es)) K = ?m K" for K by (simp add: newHeader_def raw_spec_def)
  obtain out where out: "HeaderBuild ordD ordH ?h = Val out"
    "\<And>K. apply_entries out ?m K = (if map_of (hdr ?h) K \<noteq> None \<and> changed ?h K then map_of (hdr ?h) K
      else if recorded ?h K then None else ?m K)"
    using HeaderBuild_apply [OF ok assms] by blast
  have "first_value (apply_entries out ?m K) = first_value (spec_run ops ?m K) \<or>
      redeleted K ops \<and> first_value (spec_run ops ?m K) = [] \<and> apply_entries out ?m K = ?m K" for K
  proof (cases "told ?m ?h K")
    case True
    from told_seen [OF ok True] show ?thesis unfolding out(2) seen by (rule disjI1)
  next
    case False
    with received_run [where ?m0.0 = "raw_spec es" and K = K and ops = ops, OF raw] have "redeleted K ops" by blast
    moreover from False raw_run [of ops "newHeader es" K]
    have "map_of (rawHdr ?h) K = None" "map_of (hdr ?h) K = None" "\<not> recorded ?h K"
      by (auto simp: told_def marked_def raw)
    moreover from this have "seen ?h K = []" by (simp add: seen_def)
    ultimately show ?thesis by (simp add: out(2) seen)
  qed
  with out(1) show ?thesis by blast
qed

theorem HeaderBuild_refines_witness:
  "\<exists>out. HeaderBuild rev rev (Header_run [HSet ''k'' ''w'', HDel ''K'', HSet ''a'' ''b'', HDel ''a'']
      (newHeader [Some \<lparr>teName = Some (go_bytes ''k''), teValue = Some (go_bytes ''v'')\<rparr>])) = Val out \<and>
    first_value (apply_entries out
      (raw_spec [Some \<lparr>teName = Some (go_bytes ''k''), teValue = Some (go_bytes ''v'')\<rparr>]) ''K'') = []"
proof -
  let ?ops = "[HSet ''k'' ''w'', HDel ''K'', HSet ''a'' ''b'', HDel ''a'']"
    and ?es = "[Some \<lparr>teName = Some (go_bytes ''k''), teValue = Some (go_bytes ''v'')\<rparr>]"
  have k: "CanonicalHeaderKey ''k'' = ''K''" "CanonicalHeaderKey ''K'' = ''K''"
    "CanonicalHeaderKey ''a'' = ''A''" by code_simp+
  have r: "\<not> redeleted ''K'' ?ops" by (simp add: k)
  have e: "first_value (spec_run ?ops m ''K'') = []" for m by (simp add: k)
  from HeaderBuild_refines [OF range_ok_rev range_ok_rev, of ?ops ?es] obtain out where
    "HeaderBuild rev rev (Header_run ?ops (newHeader ?es)) = Val out"
    "first_value (apply_entries out (raw_spec ?es) ''K'') = first_value (spec_run ?ops (raw_spec ?es) ''K'')"
    using r by blast
  then show ?thesis unfolding e by blast
qed

text \<open>C33: the exception of the previous property happens.  A header that is deleted, set
  again and deleted once more is gone for the plugin, but \<open>HeaderBuild\<close> emits no entry, so
  the deletion never reaches APISIX: \<open>Set\<close> forgets the recorded deletion and the second \<open>Del\<close>
  does not record it again, because the key is no longer in \<open>rawHdr\<close>.\<close>

theorem Header_Del_lost:
  assumes "range_ok ordD" and "range_ok ordH"
    and "first_value (raw_spec es (CanonicalHeaderKey k)) \<noteq> []"
  shows "Header_Get k (Header_run [HDel k, HSet k w, HDel k] (newHeader es)) = [] \<and>
    HeaderBuild ordD ordH (Header_run [HDel k, HSet k w, HDel k] (newHeader es)) = Val [] \<and>
    first_value (apply_entries [] (raw_spec es) (CanonicalHeaderKey k)) \<noteq> []"
proof -
  let ?h = "Header_run [HDel k, HSet k w, HDel k] (newHeader es)"
  from assms(3) have h: "hdr ?h = []" "deleteField ?h = []"
    by (simp_all add: Header_Del_def Header_Set_def newHeader_def http_defs raw_spec_def Let_def)
  have "ordD [] = []" "ordH [] = []"
    using assms(1,2) range_ok_set [of ordD "[]"] range_ok_set [of ordH "[]"] by auto
  with h have "HeaderBuild ordD ordH ?h = Val []"
    by (simp add: HeaderBuild_def keys_def)
  moreover have "Header_Get k ?h = []"
    by (simp add: Header_Get_Del)
  ultimately show ?thesis using assms(3) by simp
qed

theorem Header_Del_lost_witness:
  "HeaderBuild rev rev (Header_run [HDel ''k'', HSet ''k'' ''w'', HDel ''k'']
     (newHeader [Some \<lparr>teName = Some (go_bytes ''k''), teValue = Some (go_bytes ''v'')\<rparr>])) = Val []"
proof -
  have r: "raw_spec [Some \<lparr>teName = Some (go_bytes ''k''), teValue = Some (go_bytes ''v'')\<rparr>]
      (CanonicalHeaderKey ''k'') = Some [''v'']"
    by (simp add: raw_spec_def http_Add_def go_string_opt_def)
  show ?thesis
    using Header_Del_lost [of rev rev
        "[Some \<lparr>teName = Some (go_bytes ''k''), teValue = Some (go_bytes ''v'')\<rparr>]" "''k''" "''w''"] r
    by simp
qed

end
