(* ===== verification/Req_Response.thy ===== *)
theory Req_Response
  imports Http_Header
begin

section \<open>The response a plugin writes in the request phase (internal/http/req-response.go)\<close>

text \<open>
  \<open>ReqResponse\<close> is the \<open>http.ResponseWriter\<close> handed to request filters: a lazily created
  header map, a body buffer and a status code.  Two contracts are stated as locales here,
  because the response of the response phase and the test recorder have them too:
  \<open>status_writer\<close> (the first status wins, writes append) and \<open>change_source\<close> (when
  \<open>FetchChanges\<close> writes a message).
\<close>

record ReqResponse =
  rrHdr :: "http_header option"
  rrBody :: "bytes option"
  rrCode :: int

definition newReqResponse :: ReqResponse where
  "newReqResponse = \<lparr>rrHdr = None, rrBody = None, rrCode = 0\<rparr>"

definition ReqResponse_Header :: "ReqResponse \<Rightarrow> http_header \<times> ReqResponse" where
  "ReqResponse_Header r =
     (case rrHdr r of None \<Rightarrow> ([], r\<lparr>rrHdr := Some []\<rparr>) | Some h \<Rightarrow> (h, r))"

text \<open>\<open>bytes.Buffer.Write\<close> appends and returns the length and no error.\<close>

definition buffer_Write :: "bytes \<Rightarrow> bytes option \<Rightarrow> bytes" where
  "buffer_Write b buf = (case buf of None \<Rightarrow> [] | Some x \<Rightarrow> x) @ b"

definition ReqResponse_Write :: "bytes \<Rightarrow> ReqResponse \<Rightarrow> nat \<times> ReqResponse" where
  "ReqResponse_Write b r = (length b, r\<lparr>rrBody := Some (buffer_Write b (rrBody r))\<rparr>)"

definition ReqResponse_WriteHeader :: "int \<Rightarrow> ReqResponse \<Rightarrow> ReqResponse" where
  "ReqResponse_WriteHeader statusCode r =
     (if rrCode r \<noteq> 0 then r else r\<lparr>rrCode := statusCode\<rparr>)"

definition ReqResponse_Reset :: "ReqResponse \<Rightarrow> ReqResponse" where
  "ReqResponse_Reset r = r\<lparr>rrBody := None, rrCode := 0, rrHdr := None\<rparr>"

definition ReqResponse_HasChange :: "ReqResponse \<Rightarrow> bool" where
  "ReqResponse_HasChange r \<longleftrightarrow> \<not> (rrBody r = None \<and> rrCode r = 0)"

text \<open>\<open>for n, arr := range h { for _, v := range arr { ... } }\<close>: one entry per value.\<close>

fun flatten_values :: "(string, string list) gomap \<Rightarrow> string list \<Rightarrow> entry list" where
  "flatten_values h [] = []"
| "flatten_values h (n # ns) =
     map (\<lambda>v. (n, Some v)) (case map_of h n of None \<Rightarrow> [] | Some arr \<Rightarrow> arr) @ flatten_values h ns"

definition ReqResponse_FetchChanges ::
  "range_orders \<Rightarrow> u32 \<Rightarrow> ReqResponse \<Rightarrow> builder \<Rightarrow> bool \<times> builder" where
  "ReqResponse_FetchChanges ro rid r bd =
     (if \<not> ReqResponse_HasChange r then (False, bd)
      else
        (let h = (case rrHdr r of None \<Rightarrow> [] | Some h \<Rightarrow> h);
             hdrLen = length h;
             hdrVec = (if 0 < hdrLen
               then Some (build_vector (flatten_values h (ro RStopHdr (keys h)))) else None);
             bodyVec = (case rrBody r of
                 Some b \<Rightarrow> (if 0 < length b then Some b else None)
               | None \<Rightarrow> None);
             stop = \<lparr>stStatus = (if rrCode r = 0 then 200 else word_of_int (rrCode r)),
                     stHeaders = (if 0 < hdrLen then hdrVec else None),
                     stBody = (if rrBody r \<noteq> None then bodyVec else None)\<rparr>
         in (True, Finish (MsgHTTPReqResp rid (Some (ActionStop stop))) bd)))"

definition CreateReqResponse ::
  "ReqResponse list \<Rightarrow> nat option list \<Rightarrow> ReqResponse \<times> ReqResponse list \<times> nat option list" where
  "CreateReqResponse pool picks = Pool_Get newReqResponse pool picks"

definition ReuseReqResponse :: "ReqResponse \<Rightarrow> ReqResponse list \<Rightarrow> ReqResponse list" where
  "ReuseReqResponse r pool = Pool_Put (ReqResponse_Reset r) pool"

lemmas ReqResponse_defs = ReqResponse_Header_def ReqResponse_Write_def ReqResponse_WriteHeader_def
  ReqResponse_Reset_def ReqResponse_HasChange_def newReqResponse_def

interpretation reqresp_pool: reset_pool newReqResponse ReqResponse_Reset "\<lambda>r. r = newReqResponse"
  by unfold_locales (simp_all add: ReqResponse_defs)

subsection \<open>The contract of a status writer\<close>

locale status_writer =
  fixes write_header :: "int \<Rightarrow> 'w \<Rightarrow> 'w" and put :: "bytes \<Rightarrow> 'w \<Rightarrow> 'w"
    and status :: "'w \<Rightarrow> int" and body :: "'w \<Rightarrow> bytes option"
  assumes status_write_header: "status (write_header n w) = (if status w \<noteq> 0 then status w else n)"
    and body_write_header: "body (write_header n w) = body w"
    and status_write: "status (put b w) = status w"
    and body_write: "body (put b w) = Some (buffer_Write b (body w))"
begin

definition statuses :: "int list \<Rightarrow> 'w \<Rightarrow> 'w" where
  "statuses ns w = fold write_header ns w"

definition writes :: "bytes list \<Rightarrow> 'w \<Rightarrow> 'w" where
  "writes bs w = fold put bs w"

text \<open>Only the first non-zero status counts.\<close>

lemma status_statuses:
  "status (statuses ns w) =
    (if status w \<noteq> 0 then status w else case filter (\<lambda>n. n \<noteq> 0) ns of [] \<Rightarrow> 0 | n # _ \<Rightarrow> n)"
  unfolding statuses_def by (induction ns arbitrary: w) (simp_all add: status_write_header)

text \<open>The body is the concatenation of everything written.\<close>

lemma body_writes:
  "bs \<noteq> [] \<Longrightarrow> body (writes bs w) = Some ((case body w of None \<Rightarrow> [] | Some x \<Rightarrow> x) @ concat bs)"
proof (induction bs arbitrary: w rule: list_nonempty_induct)
  case (single b)
  then show ?case by (simp add: writes_def body_write buffer_Write_def)
next
  case (cons b bs)
  have "writes (b # bs) w = writes bs (put b w)" by (simp add: writes_def)
  then show ?case by (simp add: cons.IH body_write buffer_Write_def)
qed

lemma status_writes: "status (writes bs w) = status w"
  unfolding writes_def by (induction bs arbitrary: w) (simp_all add: status_write)

end

interpretation reqresp_writer: status_writer ReqResponse_WriteHeader
  "\<lambda>b w. snd (ReqResponse_Write b w)" rrCode rrBody
  by unfold_locales (simp_all add: ReqResponse_defs)

subsection \<open>The contract of a source of changes\<close>

locale change_source =
  fixes inv :: "'r \<Rightarrow> bool" and has_change :: "'r \<Rightarrow> bool"
    and fetch :: "'r \<Rightarrow> builder \<Rightarrow> (bool \<times> builder) rt"
  assumes fetch_unchanged: "\<not> has_change r \<Longrightarrow> fetch r b = Val (False, b)"
    and fetch_changed: "inv r \<Longrightarrow> has_change r \<Longrightarrow> \<exists>m. fetch r b = Val (True, Finish m b)"
begin

text \<open>With a default message for the case of no change the builder always ends finished.\<close>

lemma fetch_or_default:
  assumes "inv r"
  shows "\<exists>m. (case fetch r b of Panic \<Rightarrow> Panic
     | Val (ok, b') \<Rightarrow> Val (if ok then b' else Finish dflt b')) = Val (Finish m b)"
  using assms fetch_unchanged [of r b] fetch_changed [of r b] by (cases "has_change r") auto

lemma fetch_reports: "inv r \<Longrightarrow> \<exists>b'. fetch r b = Val (has_change r, b')"
  using fetch_unchanged [of r b] fetch_changed [of r b] by (cases "has_change r") auto

end

interpretation reqresp_changes: change_source "\<lambda>r. True" ReqResponse_HasChange
  "\<lambda>r b. Val (ReqResponse_FetchChanges ro rid r b)" for ro rid
  by unfold_locales (auto simp: ReqResponse_FetchChanges_def Let_def)

subsection \<open>The values an entry list carries\<close>

definition values_of :: "string \<Rightarrow> entry list \<Rightarrow> string list" where
  "values_of n es = List.map_filter (\<lambda>(n', v). if n' = n then v else None) es"

lemma values_of_simps [simp]:
  "values_of n [] = []"
  "values_of n ((n', None) # es) = values_of n es"
  "values_of n ((n', Some v) # es) = (if n' = n then v # values_of n es else values_of n es)"
  by (simp_all add: values_of_def List.map_filter_simps)

lemma values_of_append [simp]: "values_of n (es @ fs) = values_of n es @ values_of n fs"
  by (induction es) (auto simp: values_of_def List.map_filter_simps split: option.splits)

lemma values_of_map: "values_of n (map (\<lambda>v. (n', Some v)) vs) = (if n' = n then vs else [])"
  by (induction vs) auto

lemma values_of_flatten_other: "n \<notin> set ns \<Longrightarrow> values_of n (flatten_values h ns) = []"
  by (induction ns) (auto simp: values_of_map)

lemma values_of_flatten:
  "distinct ns \<Longrightarrow> n \<in> set ns \<Longrightarrow>
    values_of n (flatten_values h ns) = (case map_of h n of None \<Rightarrow> [] | Some vs \<Rightarrow> vs)"
  by (induction ns) (auto simp: values_of_map values_of_flatten_other)

lemma values_of_flatten_range:
  assumes "wf_map h" and "range_ok ord"
  shows "values_of n (flatten_values h (ord (keys h))) =
    (case map_of h n of None \<Rightarrow> [] | Some vs \<Rightarrow> vs)"
proof (cases "map_of h n")
  case None
  then have "n \<notin> set (ord (keys h))" by (auto simp: range_ok_set [OF assms(2)])
  with None show ?thesis by (simp add: values_of_flatten_other)
next
  case (Some vs)
  then have "n \<in> set (ord (keys h))" by (auto simp: range_ok_set [OF assms(2)])
  with assms show ?thesis by (simp add: values_of_flatten range_ok_distinct)
qed

subsection \<open>Properties of the request-phase response\<close>

text \<open>C34: what a plugin's response becomes.  Whatever statuses and then bodies are written to a new
  response, \<open>FetchChanges\<close> leaves the builder alone when there was no write and no non-zero
  status, and otherwise finishes a stop action for the request's id with the first non-zero
  status (reduced to 16 bits, 200 when there is none) and the concatenation of the writes.\<close>

theorem ReqResponse_stop_action:
  "ReqResponse_FetchChanges ro rid
     (fold (\<lambda>b w. snd (ReqResponse_Write b w)) bs (fold ReqResponse_WriteHeader ns newReqResponse)) bd =
   (if filter (\<lambda>n. n \<noteq> 0) ns = [] \<and> bs = [] then (False, bd)
    else (True, Finish (MsgHTTPReqResp rid (Some (ActionStop
      \<lparr>stStatus = (case filter (\<lambda>n. n \<noteq> 0) ns of [] \<Rightarrow> 200 | n # _ \<Rightarrow> word_of_int n),
       stHeaders = None,
       stBody = (if concat bs = [] then None else Some (concat bs))\<rparr>))) bd))"
proof -
  let ?w = "fold ReqResponse_WriteHeader ns newReqResponse"
  let ?r = "fold (\<lambda>b w. snd (ReqResponse_Write b w)) bs ?w"
  have st: "rrCode ?w = (case filter (\<lambda>n. n \<noteq> 0) ns of [] \<Rightarrow> 0 | n # _ \<Rightarrow> n)"
    using reqresp_writer.status_statuses [of ns newReqResponse]
    by (simp add: reqresp_writer.statuses_def newReqResponse_def)
  have bw: "rrBody (fold ReqResponse_WriteHeader ns w) = rrBody w" for w
    by (induction ns arbitrary: w) (simp_all add: ReqResponse_WriteHeader_def)
  have hw: "rrHdr (fold ReqResponse_WriteHeader ns w) = rrHdr w" for w
    by (induction ns arbitrary: w) (simp_all add: ReqResponse_WriteHeader_def)
  have hr: "rrHdr (fold (\<lambda>b w. snd (ReqResponse_Write b w)) bs w) = rrHdr w" for w
    by (induction bs arbitrary: w) (simp_all add: ReqResponse_Write_def)
  have code: "rrCode ?r = rrCode ?w"
    using reqresp_writer.status_writes [of bs ?w] by (simp add: reqresp_writer.writes_def)
  have body: "rrBody ?r = (if bs = [] then None else Some (concat bs))"
    using reqresp_writer.body_writes [of bs ?w] bw [of newReqResponse]
    by (simp add: reqresp_writer.writes_def newReqResponse_def)
  have hdr: "rrHdr ?r = None" using hr hw by (simp add: newReqResponse_def)
  show ?thesis
  proof (cases "filter (\<lambda>n. n \<noteq> 0) ns")
    case Nil
    then show ?thesis
      by (simp add: ReqResponse_FetchChanges_def ReqResponse_HasChange_def Let_def code st body hdr)
  next
    case (Cons n ms)
    then have "n \<in> set (filter (\<lambda>n. n \<noteq> 0) ns)" by simp
    then have "n \<noteq> 0" by simp
    with Cons show ?thesis
      by (simp add: ReqResponse_FetchChanges_def ReqResponse_HasChange_def Let_def code st body hdr)
  qed
qed

text \<open>The headers of a plugin's response reach APISIX.  In whatever order Go iterates over
  the header map, the stop action carries under every name exactly the values of that header,
  in their order.\<close>

lemma ReqResponse_stop_headers:
  assumes "wf_map h" and "h \<noteq> []" and "ranges_ok ro" and "ReqResponse_HasChange r"
    and "rrHdr r = Some h"
  shows "\<exists>stop es bd'. ReqResponse_FetchChanges ro rid r bd = (True, bd') \<and>
    bdMsg bd' = Some (MsgHTTPReqResp rid (Some (ActionStop stop))) \<and> stHeaders stop = Some es \<and>
    (\<forall>n. values_of n es = (case map_of h n of None \<Rightarrow> [] | Some vs \<Rightarrow> vs))"
  using assms
  by (simp add: ReqResponse_FetchChanges_def Let_def Finish_def values_of_flatten_range ranges_okD)

lemma ReqResponse_stop_headers_sample:
  "\<exists>stop es bd'. ReqResponse_FetchChanges (\<lambda>_. rev) 7
      \<lparr>rrHdr = Some [(''A'', [''1'', ''2'']), (''B'', [''3''])], rrBody = None, rrCode = 404\<rparr> NewBuilder
      = (True, bd') \<and>
    bdMsg bd' = Some (MsgHTTPReqResp 7 (Some (ActionStop stop))) \<and> stHeaders stop = Some es \<and>
    (\<forall>n. values_of n es = (case map_of [(''A'', [''1'', ''2'']), (''B'', [''3''])] n of None \<Rightarrow> [] | Some vs \<Rightarrow> vs))"
  by (rule ReqResponse_stop_headers) (simp_all add: wf_map_def ReqResponse_HasChange_def)

end
