(* ===== verification/Extra_Info.thy ===== *)
theory Extra_Info
  imports Util_Pool
begin

section \<open>Asking APISIX for extra information\<close>

text \<open>
  \<open>askExtraInfo\<close>, which \<open>internal/http/request.go\<close> and \<open>internal/http/response.go\<close> have in
  two copies that differ in the receiver only: it sends an \<open>ExtraInfo\<close> request on the
  connection the handler serves and reads one frame back.  The receiver's \<open>extraInfoHeader\<close>
  buffer is an argument and a result.

  The contract of a method that asks for a value by name and caches it (\<open>Var\<close>) is the locale
  \<open>var_source\<close>, which the request and the response interpret.
\<close>

definition askExtraInfo ::
  "codec \<Rightarrow> bool \<Rightarrow> bytes \<Rightarrow> builder \<Rightarrow> info \<Rightarrow> io \<Rightarrow> (go_error + bytes option) rt \<times> bytes \<times> builder \<times> io" where
  "askExtraInfo cd bound hdr0 bd info s =
     (let bd1 = Finish (MsgExtraInfoReq info) bd;
          header = (if length hdr0 = 0 then replicate HeaderLen 0 else hdr0)
      in case FinishedBytes cd bd1 of
        Panic \<Rightarrow> (Panic, header, bd1, s)
      | Val out \<Rightarrow>
        (let header1 = put_header RPCExtraInfo (length out)
         in if \<not> bound then (Panic, header1, bd1, s)
         else (let (n, err, c1) = WriteBytes (ioConn s) header1
         in case err of
           Some e \<Rightarrow> (Val (Inl ErrConnClosed), header1, bd1, s\<lparr>ioConn := c1\<rparr>)
         | None \<Rightarrow> (let (n, err, c2) = WriteBytes c1 out
         in case err of
           Some e \<Rightarrow> (Val (Inl ErrConnClosed), header1, bd1, s\<lparr>ioConn := c2\<rparr>)
         | None \<Rightarrow> (let (header2, n, err, c3) = ReadBytes c2 header1
         in if ReadErr n err HeaderLen then
           (Val (Inl ErrConnClosed), header2, bd1, s\<lparr>ioConn := c3\<rparr>)
         else (let (ty, len) = get_header header2;
                   header3 = header2[0 := 0];
                   (buf, n, err, c4) = ReadBytes c3 (replicate len 0)
         in if ReadErr n err len then
           (Val (Inl ErrConnClosed), header3, bd1, s\<lparr>ioConn := c4\<rparr>)
         else (case GetRootAsExtraInfoResp cd buf of
           Panic \<Rightarrow> (Panic, header3, bd1, s\<lparr>ioConn := c4\<rparr>)
         | Val res \<Rightarrow> (Val (Inr res), header3, bd1, s\<lparr>ioConn := c4\<rparr>))))))))"

subsection \<open>Lemmas\<close>

lemma FinishedBytes_Finish [simp]: "FinishedBytes cd (Finish m b) = Val (encode_msg cd m)"
  by (simp add: FinishedBytes_def Finish_def)

text \<open>The old contents of the header buffer do not matter.\<close>

lemma askExtraInfo_buffer:
  "askExtraInfo cd bound h bd info s = askExtraInfo cd bound h' bd info s"
  by (simp add: askExtraInfo_def Let_def)

lemma length_read_loop: "length (fst (read_loop b l c)) = length b"
proof (induction b l c rule: read_loop.induct)
  case (1 b l c)
  obtain d err c1 where rd: "conn_Read (length b - l) c = (d, err, c1)"
    by (cases "conn_Read (length b - l) c") auto
  then have "length d \<le> length b - l" by (rule conn_Read_length)
  with rd 1 show ?case
    by (cases "l < length b"; cases err) (auto simp: read_loop.simps [of b l c])
qed

lemma ReadBytes_length: "ReadBytes c b = (b', n, e, c') \<Longrightarrow> length b' = length b"
  using length_read_loop [of b 0 c] by (simp add: ReadBytes_def)

lemma read_loop_frame:
  "read_loop b l c = (b', n, e, c') \<Longrightarrow>
    wr c' = wr c \<and> sent c' = sent c \<and> closed c' = closed c \<and> rd_left c' \<le> rd_left c"
proof (induction b l c rule: read_loop.induct)
  case (1 b l c)
  obtain d err c1 where rd: "conn_Read (length b - l) c = (d, err, c1)"
    by (cases "conn_Read (length b - l) c") auto
  have left: "rd_left c1 \<le> rd_left c"
    using rd by (auto simp: conn_Read.simps rd_left_def split: list.splits rd_event.splits if_splits)
  show ?case
  proof (cases "l < length b \<and> err = None")
    case True
    with rd "1.prems"
    have "read_loop (take l b @ d @ drop (l + length d) b) (l + length d) c1 = (b', n, e, c')"
      by (simp add: read_loop.simps [of b l c])
    with True rd "1.IH" [OF _ refl rd [symmetric] refl refl] conn_Read_frame [OF rd] left
    show ?thesis by auto
  next
    case False
    with rd "1.prems" conn_Read_frame [OF rd] left show ?thesis
      by (auto simp: read_loop.simps [of b l c] split: if_splits option.splits)
  qed
qed

lemma ReadBytes_frame:
  "ReadBytes c b = (b', n, e, c') \<Longrightarrow>
    wr c' = wr c \<and> sent c' = sent c \<and> closed c' = closed c \<and> rd_left c' \<le> rd_left c"
  unfolding ReadBytes_def by (rule read_loop_frame)

lemma WriteBytes_frame:
  "WriteBytes c b = (n, e, c') \<Longrightarrow> rd c' = rd c \<and> closed c' = closed c \<and> rd_left c' = rd_left c"
  using write_loop_sent [of b 0 c n e c'] by (simp add: WriteBytes_def rd_left_def)

lemma WriteBytes_avail: "WriteBytes c b = (n, e, c') \<Longrightarrow> avail c' = avail c"
  using WriteBytes_frame [of c b n e c'] by (simp add: avail_def)

lemma WriteBytes_clean:
  assumes "wr_clean c"
  obtains c' where "WriteBytes c b = (length b, None, c')" "sent c' = sent c @ b" "wr_clean c'"
    "avail c' = avail c" "closed c' = closed c"
proof -
  obtain n err c' where w: "WriteBytes c b = (n, err, c')" by (cases "WriteBytes c b") auto
  then have "err = None \<and> wr_clean c'"
    using write_loop_clean [OF assms, of b 0] by (simp add: WriteBytes_def)
  with w show thesis
    using that write_loop_sent [of b 0 c n err c'] WriteBytes_avail [OF w]
    by (simp add: WriteBytes_def)
qed

lemma ReadBytes_ok:
  assumes "length b \<le> length (avail c)"
  obtains c' where "ReadBytes c b = (take (length b) (avail c), length b, None, c')"
    "avail c' = drop (length b) (avail c)" "sent c' = sent c" "wr c' = wr c" "closed c' = closed c"
  using read_loop_ok [of 0 b c] assms by (auto simp: ReadBytes_def)

lemma askExtraInfo_header_length:
  "askExtraInfo cd bound h bd info s = (res, h', bd', s') \<Longrightarrow> length h' = HeaderLen \<or> h' = h"
  by (auto simp: askExtraInfo_def Let_def dest!: ReadBytes_length split: prod.splits option.splits if_splits rt.splits)

text \<open>What every call keeps: the contexts, the closed flag and that pooled builders are clean; the
  input only shrinks.\<close>

definition io_frame :: "io \<Rightarrow> io \<Rightarrow> bool" where
  "io_frame s s' \<longleftrightarrow> closed (ioConn s') = closed (ioConn s) \<and>
     rd_left (ioConn s') \<le> rd_left (ioConn s) \<and>
     ioNextCtx s' = ioNextCtx s \<and> ioCancelled s' = ioCancelled s \<and>
     (builder_pool.pool_ok (ioBuilders s) \<longrightarrow> builder_pool.pool_ok (ioBuilders s'))"

lemma io_frame_refl [simp]: "io_frame s s"
  by (simp add: io_frame_def)

lemma io_frame_trans [trans]: "io_frame s t \<Longrightarrow> io_frame t u \<Longrightarrow> io_frame s u"
  by (simp add: io_frame_def)

lemma io_frame_GetBuilder: "GetBuilder s = (b, s') \<Longrightarrow> io_frame s s'"
  using GetBuilder_frame [of s b s']
  by (auto simp: io_frame_def GetBuilder_def Let_def dest: builder_pool.Get_clean split: prod.splits)

lemma io_frame_PutBuilder [simp]: "io_frame s (PutBuilder b s)"
  by (simp add: io_frame_def PutBuilder_def builder_pool.Put_ok)

lemma askExtraInfo_frame:
  "askExtraInfo cd bound h bd info s = (res, h', bd', s') \<Longrightarrow> io_frame s s'"
  unfolding askExtraInfo_def Let_def io_frame_def
  by (auto dest!: ReadBytes_frame WriteBytes_frame split: prod.splits option.splits if_splits rt.splits)

lemma askExtraInfo_error:
  "askExtraInfo cd bound h bd info s = (Val (Inl e), h', bd', s') \<Longrightarrow> e = ErrConnClosed"
  by (auto simp: askExtraInfo_def Let_def split: prod.splits option.splits if_splits rt.splits)

subsection \<open>The contract of Var\<close>

locale var_source =
  fixes vars_of :: "'r \<Rightarrow> string \<Rightarrow> bytes option option"
    and var :: "string \<Rightarrow> 'r \<Rightarrow> io \<Rightarrow> (go_error + bytes option) rt \<times> 'r \<times> io"
  assumes var_hit: "vars_of r name = Some v \<Longrightarrow> var name r s = (Val (Inr v), r, s)"
    and var_ok: "var name r s = (Val (Inr v), r', s') \<Longrightarrow> vars_of r' = (vars_of r)(name := Some v)"
    and var_err: "var name r s = (Val (Inl e), r', s') \<Longrightarrow> e = ErrConnClosed \<and> vars_of r' = vars_of r"
begin

text \<open>A value that was fetched is returned from then on, without touching the connection.\<close>

lemma var_repeat:
  assumes "var name r s = (Val (Inr v), r', s')"
  shows "var name r' t = (Val (Inr v), r', t)"
proof -
  from var_ok [OF assms] have "vars_of r' name = Some v" by simp
  then show ?thesis by (rule var_hit)
qed

lemma var_keeps:
  assumes "vars_of r name = Some v" and "var other r s = (Val res, r', s')"
  shows "var name r' t = (Val (Inr v), r', t)"
proof (cases "other = name")
  case True
  with assms var_hit [OF assms(1), of s] show ?thesis by (auto simp: var_hit)
next
  case False
  have "vars_of r' name = Some v"
  proof (cases res)
    case (Inl e)
    with assms var_err [of other r s e r' s'] show ?thesis by simp
  next
    case (Inr w)
    with assms False var_ok [of other r s w r' s'] show ?thesis by simp
  qed
  then show ?thesis by (rule var_hit)
qed

text \<open>A failed call caches nothing and fails with the documented error.\<close>

lemma var_fail:
  assumes "var name r s = (Val (Inl e), r', s')"
  shows "e = ErrConnClosed \<and> vars_of r' = vars_of r \<and> vars_of r name = None"
  using var_err [OF assms] var_hit [of r name _ s] assms by (cases "vars_of r name") auto

end

subsection \<open>The exchange\<close>

text \<open>The exchange with APISIX.  On a bound connection whose peer takes everything and
  answers with a well-formed frame, \<open>askExtraInfo\<close> sends exactly one frame of type
  \<open>RPCExtraInfo\<close> that holds the request, consumes exactly the answer and returns what the
  codec reads in it; bytes that follow the answer stay in the stream.\<close>

lemma askExtraInfo_exchange:
  assumes wr: "wr_clean (ioConn s)"
    and av: "avail (ioConn s) = put_header ty (length p) @ p @ rest"
    and len: "length p < 2 ^ 24"
    and dec: "GetRootAsExtraInfoResp cd p = Val v"
  shows "\<exists>h' bd' s'. askExtraInfo cd True h bd info s = (Val (Inr v), h', bd', s') \<and>
    sent (ioConn s') = sent (ioConn s) @
      put_header RPCExtraInfo (length (encode_msg cd (MsgExtraInfoReq info))) @
      encode_msg cd (MsgExtraInfoReq info) \<and>
    avail (ioConn s') = rest \<and> wr_clean (ioConn s')"
proof -
  let ?out = "encode_msg cd (MsgExtraInfoReq info)"
  let ?hd = "put_header RPCExtraInfo (length ?out)"
  obtain c1 where c1: "WriteBytes (ioConn s) ?hd = (length ?hd, None, c1)" "sent c1 = sent (ioConn s) @ ?hd"
    "wr_clean c1" "avail c1 = avail (ioConn s)" by (rule WriteBytes_clean [OF wr])
  obtain c2 where c2: "WriteBytes c1 ?out = (length ?out, None, c2)" "sent c2 = sent c1 @ ?out" "wr_clean c2"
    "avail c2 = avail c1" by (rule WriteBytes_clean [OF c1(3)])
  have "length ?hd \<le> length (avail c2)" using av c1 c2 by simp
  then obtain c3 where c3: "ReadBytes c2 ?hd = (take (length ?hd) (avail c2), length ?hd, None, c3)"
    "avail c3 = drop (length ?hd) (avail c2)" "sent c3 = sent c2" "wr c3 = wr c2" by (rule ReadBytes_ok)
  then have h2: "take (length ?hd) (avail c2) = put_header ty (length p)" "avail c3 = p @ rest"
    using av c1 c2 by simp_all
  have "length (replicate (length p) (0 :: byte)) \<le> length (avail c3)" using h2 by simp
  then obtain c4 where c4: "ReadBytes c3 (replicate (length p) 0) = (p, length p, None, c4)"
    "avail c4 = rest" "sent c4 = sent c3" "wr c4 = wr c3"
    by (rule ReadBytes_ok) (use h2 in auto)
  have gh: "get_header (put_header ty (length p)) = (ty, length p)" using len by (simp add: get_put_header)
  show ?thesis
    using c1 c2 c3 c4 h2 gh dec by (simp add: askExtraInfo_def Let_def ReadErr_def wr_clean_def)
qed

lemma askExtraInfo_exchange_sample:
  "\<exists>h' bd' s'. askExtraInfo \<lparr>GetRootAsHTTPReqCall = \<lambda>_. Panic, GetRootAsHTTPRespCall = \<lambda>_. Panic,
       GetRootAsPrepareConf = \<lambda>_. Panic, GetRootAsExtraInfoResp = \<lambda>b. Val (Some b),
       MethodString = \<lambda>_. [], encode_msg = \<lambda>_. [7, 7]\<rparr> True [] NewBuilder InfoReqBody
     \<lparr>ioConn = \<lparr>rd = [RdData [3, 0, 0], RdData [1, 42, 9]], wr = [], sent = [], closed = False\<rparr>,
       ioBuilders = [], ioPicks = [], ioNextCtx = 0, ioCancelled = []\<rparr>
   = (Val (Inr (Some [42])), h', bd', s') \<and> sent (ioConn s') = [3, 0, 0, 2, 7, 7] \<and> avail (ioConn s') = [9]"
  using askExtraInfo_exchange [of
      "\<lparr>ioConn = \<lparr>rd = [RdData [3, 0, 0], RdData [1, 42, 9]], wr = [], sent = [], closed = False\<rparr>,
       ioBuilders = [], ioPicks = [], ioNextCtx = 0, ioCancelled = []\<rparr>" 3 "[42]" "[9]"
      "\<lparr>GetRootAsHTTPReqCall = \<lambda>_. Panic, GetRootAsHTTPRespCall = \<lambda>_. Panic,
       GetRootAsPrepareConf = \<lambda>_. Panic, GetRootAsExtraInfoResp = \<lambda>b. Val (Some b),
       MethodString = \<lambda>_. [], encode_msg = \<lambda>_. [7, 7]\<rparr>" "Some [42]" "[]" NewBuilder InfoReqBody]
  by (auto simp: wr_clean_def avail_def put_header_def PutUint32_def RPCExtraInfo_def)

end
