(* ===== verification/Request.thy ===== *)
theory Request
  imports Req_Response Extra_Info
begin

section \<open>The request (internal/http/request.go)\<close>

text \<open>
  \<open>Request\<close> is what request filters see of the client's request: the received message, and
  lazily created copies of the parts a plugin may change.  \<open>FetchChanges\<close> turns the changes
  into a rewrite action.  The objects are pooled; \<open>Reset\<close> keeps \<open>r\<close>, \<open>rawArgs\<close>, \<open>cancel\<close> and
  \<open>extraInfoHeader\<close>, and the relation \<open>req_equiv\<close> says which of their contents a method may
  not depend on.

  \<open>reqConn\<close> tells whether \<open>conn\<close> is bound; the connection itself is the one of the handler's
  \<open>io\<close> state.  A context is an identifier with its timeout in seconds.
\<close>

type_synonym url_values = "(string, string list) gomap"

datatype go_ctx = Background | WithTimeout nat nat

record Request =
  req_r :: "hreq option"
  reqConn :: bool
  extraInfoHeader :: bytes
  reqPath :: "bytes option"
  reqHdr :: "Header option"
  reqArgs :: "url_values option"
  rawArgs :: url_values
  reqVars :: "(string, bytes option) gomap option"
  reqBody :: "bytes option"
  reqCtx :: "go_ctx option"
  reqCancel :: "nat option"
  respHdr :: "http_header option"

definition newRequest :: Request where
  "newRequest = \<lparr>req_r = None, reqConn = False, extraInfoHeader = [], reqPath = None, reqHdr = None,
     reqArgs = None, rawArgs = [], reqVars = None, reqBody = None, reqCtx = None, reqCancel = None,
     respHdr = None\<rparr>"

subsection \<open>Accessors\<close>

text \<open>The accessors of a message on a nil \<open>*hrc.Req\<close> panic.\<close>

definition with_r :: "(hreq \<Rightarrow> 'a) \<Rightarrow> Request \<Rightarrow> 'a rt" where
  "with_r f r = (case req_r r of None \<Rightarrow> Panic | Some q \<Rightarrow> Val (f q))"

definition Request_ConfToken :: "Request \<Rightarrow> u32 rt" where
  "Request_ConfToken r = with_r hqConfToken r"

definition Request_ID :: "Request \<Rightarrow> u32 rt" where
  "Request_ID r = with_r hqId r"

definition Request_SrcIP :: "Request \<Rightarrow> bytes rt" where
  "Request_SrcIP r = with_r hqSrcIp r"

definition Request_Method :: "codec \<Rightarrow> Request \<Rightarrow> string rt" where
  "Request_Method cd r = with_r (\<lambda>q. MethodString cd (hqMethod q)) r"

definition Request_Path :: "Request \<Rightarrow> bytes option rt" where
  "Request_Path r = (case reqPath r of None \<Rightarrow> with_r hqPath r | Some p \<Rightarrow> Val (Some p))"

definition Request_SetPath :: "bytes option \<Rightarrow> Request \<Rightarrow> Request" where
  "Request_SetPath p r = r\<lparr>reqPath := p\<rparr>"

definition Request_Header :: "Request \<Rightarrow> (Header \<times> Request) rt" where
  "Request_Header r =
     (case reqHdr r of
        Some h \<Rightarrow> Val (h, r)
      | None \<Rightarrow>
          (case with_r (\<lambda>q. newHeader (hqHeaders q)) r of
             Panic \<Rightarrow> Panic
           | Val h \<Rightarrow> Val (h, r\<lparr>reqHdr := Some h\<rparr>)))"

definition Request_RespHeader :: "Request \<Rightarrow> http_header \<times> Request" where
  "Request_RespHeader r =
     (case respHdr r of None \<Rightarrow> ([], r\<lparr>respHdr := Some []\<rparr>) | Some h \<Rightarrow> (h, r))"

subsection \<open>Query arguments\<close>

text \<open>\<open>net/url\<close>: \<open>Values.Add\<close>, \<open>Values.Set\<close>, \<open>Values.Del\<close>; keys are case sensitive.\<close>

definition values_Add :: "string \<Rightarrow> string \<Rightarrow> url_values \<Rightarrow> url_values" where
  "values_Add k v m = AList.update k ((case map_of m k of None \<Rightarrow> [] | Some vs \<Rightarrow> vs) @ [v]) m"

definition values_Set :: "string \<Rightarrow> string \<Rightarrow> url_values \<Rightarrow> url_values" where
  "values_Set k v m = AList.update k [v] m"

definition values_Del :: "string \<Rightarrow> url_values \<Rightarrow> url_values" where
  "values_Del k m = AList.delete k m"

text \<open>
  \<open>cloneUrlValues\<close> copies all the value slices into one backing array \<open>sv\<close> and hands each
  key its part of it.
\<close>

fun clone_loop :: "url_values \<Rightarrow> string list \<Rightarrow> string list \<Rightarrow> url_values \<Rightarrow> url_values" where
  "clone_loop old [] sv new = new"
| "clone_loop old (k # ks) sv new =
     (let vv = (case map_of old k of None \<Rightarrow> [] | Some vv \<Rightarrow> vv);
          n = min (length sv) (length vv);
          sv' = take n vv @ drop n sv
      in clone_loop old ks (drop n sv') (AList.update k (take n sv') new))"

definition cloneUrlValues :: "range_orders \<Rightarrow> url_values \<Rightarrow> url_values" where
  "cloneUrlValues ro old =
     (let nv = sum_list (map (\<lambda>(k, vv). length vv) old)
      in clone_loop old (ro RCloneArgs (keys old)) (replicate nv []) [])"

fun args_of :: "text_entry option list \<Rightarrow> url_values \<Rightarrow> url_values" where
  "args_of [] args = args"
| "args_of (None # es) args = args_of es args"
| "args_of (Some e # es) args =
     args_of es (values_Add (go_string_opt (teName e)) (go_string_opt (teValue e)) args)"

definition Request_Args :: "range_orders \<Rightarrow> Request \<Rightarrow> (url_values \<times> Request) rt" where
  "Request_Args ro r =
     (case reqArgs r of
        Some args \<Rightarrow> Val (args, r)
      | None \<Rightarrow>
          (case with_r (\<lambda>q. args_of (hqArgs q) []) r of
             Panic \<Rightarrow> Panic
           | Val args \<Rightarrow> Val (args, r\<lparr>reqArgs := Some args, rawArgs := cloneUrlValues ro args\<rparr>)))"

subsection \<open>Var and Body\<close>

definition Request_askExtraInfo ::
  "codec \<Rightarrow> builder \<Rightarrow> info \<Rightarrow> Request \<Rightarrow> io \<Rightarrow> (go_error + bytes option) rt \<times> builder \<times> Request \<times> io" where
  "Request_askExtraInfo cd bd info r s =
     (let (res, header, bd', s') = askExtraInfo cd (reqConn r) (extraInfoHeader r) bd info s
      in (res, bd', r\<lparr>extraInfoHeader := header\<rparr>, s'))"

definition Request_Var ::
  "codec \<Rightarrow> string \<Rightarrow> Request \<Rightarrow> io \<Rightarrow> (go_error + bytes option) rt \<times> Request \<times> io" where
  "Request_Var cd name r s =
     (let m = (case reqVars r of None \<Rightarrow> [] | Some m \<Rightarrow> m);
          r0 = r\<lparr>reqVars := Some m\<rparr>
      in case map_of m name of
           Some v \<Rightarrow> (Val (Inr v), r0, s)
         | None \<Rightarrow>
             (let (bd, s1) = GetBuilder s;
                  (res, bd', r1, s2) = Request_askExtraInfo cd bd (InfoVar name) r0 s1
              in case res of
                   Panic \<Rightarrow> (Panic, r1, s2)
                 | Val (Inl e) \<Rightarrow> (Val (Inl e), r1, PutBuilder bd' s2)
                 | Val (Inr v) \<Rightarrow>
                     (Val (Inr v), r1\<lparr>reqVars := Some (AList.update name v m)\<rparr>, PutBuilder bd' s2)))"

text \<open>Unlike \<open>Var\<close>, \<open>Body\<close> does not give its builder back to the pool.\<close>

definition Request_Body ::
  "codec \<Rightarrow> Request \<Rightarrow> io \<Rightarrow> (go_error + bytes option) rt \<times> Request \<times> io" where
  "Request_Body cd r s =
     (case reqBody r of
        Some (b # bs) \<Rightarrow> (Val (Inr (Some (b # bs))), r, s)
      | _ \<Rightarrow>
          (let (bd, s1) = GetBuilder s;
               (res, bd', r1, s2) = Request_askExtraInfo cd bd InfoReqBody r s1
           in case res of
                Panic \<Rightarrow> (Panic, r1, s2)
              | Val (Inl e) \<Rightarrow> (Val (Inl e), r1, s2)
              | Val (Inr v) \<Rightarrow> (Val (Inr v), r1\<lparr>reqBody := v\<rparr>, s2)))"

definition Request_SetBody :: "bytes option \<Rightarrow> Request \<Rightarrow> Request" where
  "Request_SetBody b r = r\<lparr>reqBody := b\<rparr>"

definition Request_BindConn :: "bool \<Rightarrow> Request \<Rightarrow> Request" where
  "Request_BindConn c r = r\<lparr>reqConn := c\<rparr>"

definition Request_Context :: "Request \<Rightarrow> go_ctx" where
  "Request_Context r = (case reqCtx r of Some c \<Rightarrow> c | None \<Rightarrow> Background)"

subsection \<open>Collecting the changes\<close>

definition Request_hasChanges :: "Request \<Rightarrow> bool" where
  "Request_hasChanges r \<longleftrightarrow> reqPath r \<noteq> None \<or> reqHdr r \<noteq> None \<or>
     reqArgs r \<noteq> None \<or> respHdr r \<noteq> None \<or> reqBody r \<noteq> None"

fun args_deleted :: "url_values \<Rightarrow> string list \<Rightarrow> entry list" where
  "args_deleted new [] = []"
| "args_deleted new (n # ns) =
     (if map_of new n = None then (n, None) # args_deleted new ns else args_deleted new ns)"

fun args_set :: "url_values \<Rightarrow> url_values \<Rightarrow> string list \<Rightarrow> entry list" where
  "args_set old new [] = []"
| "args_set old new (n # ns) =
     (let v = (case map_of new n of None \<Rightarrow> [] | Some v \<Rightarrow> v)
      in (if map_of old n = None \<or> map_of old n \<noteq> Some v
          then map (\<lambda>vv. (n, Some vv)) v else []) @ args_set old new ns)"

definition args_changes :: "range_orders \<Rightarrow> url_values \<Rightarrow> url_values \<Rightarrow> entry list" where
  "args_changes ro old new =
     args_deleted new (ro ROldArgs (keys old)) @ args_set old new (ro RNewArgs (keys new))"

definition Request_FetchChanges ::
  "range_orders \<Rightarrow> u32 \<Rightarrow> Request \<Rightarrow> builder \<Rightarrow> (bool \<times> builder) rt" where
  "Request_FetchChanges ro rid r bd =
     (if \<not> Request_hasChanges r then Val (False, bd)
      else
        (case (case reqHdr r of
                 None \<Rightarrow> Val None
               | Some h \<Rightarrow>
                   (case HeaderBuild (ro RDeleteField) (ro RHdr) h of
                      Panic \<Rightarrow> Panic
                    | Val hdrs \<Rightarrow> Val (Some (build_vector hdrs)))) of
           Panic \<Rightarrow> Panic
         | Val hdrVec \<Rightarrow>
             (let respHdrVec = (case respHdr r of
                    None \<Rightarrow> None
                  | Some h \<Rightarrow> Some (build_vector (flatten_values h (ro RRespHdr (keys h)))));
                  argsVec = (case reqArgs r of
                    None \<Rightarrow> None
                  | Some newArgs \<Rightarrow> Some (build_vector (args_changes ro (rawArgs r) newArgs)));
                  rewrite = \<lparr>rwPath = reqPath r, rwBody = reqBody r, rwHeaders = hdrVec,
                             rwRespHeaders = respHdrVec, rwArgs = argsVec\<rparr>
              in Val (True, Finish (MsgHTTPReqResp rid (Some (ActionRewrite rewrite))) bd))))"

subsection \<open>Pooling\<close>

definition request_clear :: "Request \<Rightarrow> Request" where
  "request_clear r = r\<lparr>reqPath := None, reqHdr := None, reqArgs := None, reqVars := None,
     reqBody := None, reqConn := False, reqCtx := None, respHdr := None\<rparr>"

text \<open>\<open>defer r.cancel()\<close> runs last; calling a nil function panics.\<close>

definition Request_Reset :: "Request \<Rightarrow> io \<Rightarrow> unit rt \<times> Request \<times> io" where
  "Request_Reset r s =
     (case reqCancel r of
        None \<Rightarrow> (Panic, request_clear r, s)
      | Some c \<Rightarrow> (Val (), request_clear r, s\<lparr>ioCancelled := c # ioCancelled s\<rparr>))"

definition CreateRequest ::
  "codec \<Rightarrow> bytes \<Rightarrow> Request list \<Rightarrow> io \<Rightarrow> Request rt \<times> Request list \<times> io" where
  "CreateRequest cd buf pool s =
     (let (req, pool', picks) = Pool_Get newRequest pool (ioPicks s);
          s1 = s\<lparr>ioPicks := picks\<rparr>
      in case GetRootAsHTTPReqCall cd buf of
           Panic \<Rightarrow> (Panic, pool', s1)
         | Val q \<Rightarrow>
             (let c = ioNextCtx s1
              in (Val (req\<lparr>req_r := Some q, reqCtx := Some (WithTimeout c 56), reqCancel := Some c\<rparr>),
                  pool', s1\<lparr>ioNextCtx := Suc c\<rparr>)))"

definition ReuseRequest :: "Request \<Rightarrow> Request list \<Rightarrow> io \<Rightarrow> unit rt \<times> Request list \<times> io" where
  "ReuseRequest r pool s =
     (case Request_Reset r s of
        (Val u, r', s') \<Rightarrow> (Val u, Pool_Put r' pool, s')
      | (Panic, r', s') \<Rightarrow> (Panic, pool, s'))"

lemmas Request_defs [api_defs] = with_r_def Request_ConfToken_def Request_ID_def Request_SrcIP_def
  Request_Method_def Request_Path_def Request_SetPath_def Request_Header_def Request_RespHeader_def
  Request_Args_def Request_SetBody_def Request_BindConn_def Request_Context_def

text \<open>An object in the pool: everything but the kept fields is cleared.\<close>

definition request_clean :: "Request \<Rightarrow> bool" where
  "request_clean r \<longleftrightarrow> reqPath r = None \<and> reqHdr r = None \<and> reqArgs r = None \<and> reqVars r = None \<and>
     reqBody r = None \<and> \<not> reqConn r \<and> reqCtx r = None \<and> respHdr r = None"

interpretation request_pool: reset_pool newRequest request_clear request_clean
  by unfold_locales (simp_all add: request_clean_def request_clear_def newRequest_def)

subsection \<open>Well-formedness\<close>

definition request_ok :: "Request \<Rightarrow> bool" where
  "request_ok r \<longleftrightarrow>
     (\<forall>h. reqHdr r = Some h \<longrightarrow> header_ok h) \<and>
     (\<forall>h. respHdr r = Some h \<longrightarrow> wf_map h) \<and>
     (\<forall>a. reqArgs r = Some a \<longrightarrow> wf_map a \<and> wf_map (rawArgs r)) \<and>
     (\<forall>m. reqVars r = Some m \<longrightarrow> wf_map m)"

lemma request_clean_ok: "request_clean r \<Longrightarrow> request_ok r"
  by (simp add: request_clean_def request_ok_def)

lemma Finish_ex [simp]: "\<exists>m'. Finish m b = Finish m' b"
  by blast

interpretation request_changes: change_source
  "\<lambda>r. request_ok r \<and> ranges_ok ro" Request_hasChanges "Request_FetchChanges ro rid" for ro rid
proof
  fix r b
  assume "\<not> Request_hasChanges r"
  then show "Request_FetchChanges ro rid r b = Val (False, b)"
    by (simp add: Request_FetchChanges_def)
next
  fix r b
  assume ok: "request_ok r \<and> ranges_ok ro" and "Request_hasChanges r"
  moreover have "\<exists>es. HeaderBuild (ro RDeleteField) (ro RHdr) h = Val es" if "reqHdr r = Some h" for h
    using ok that HeaderBuild_closed [of h "ro RHdr" "ro RDeleteField"]
    by (simp add: request_ok_def ranges_okD)
  ultimately show "\<exists>m. Request_FetchChanges ro rid r b = Val (True, Finish m b)"
    by (auto simp: Request_FetchChanges_def Let_def split: option.splits)
qed

subsection \<open>Query arguments: the clone and the differences\<close>

lemma clone_loop_map_of:
  assumes "distinct ks" and "set ks \<subseteq> dom (map_of old)"
    and "length sv = sum_list (map (\<lambda>k. length (the (map_of old k))) ks)"
  shows "map_of (clone_loop old ks sv new) k = (if k \<in> set ks then map_of old k else map_of new k)"
  using assms
proof (induction ks arbitrary: sv new)
  case (Cons x xs)
  then obtain vv where vv: "map_of old x = Some vv" by auto
  with Cons.prems(3) have n: "min (length sv) (length vv) = length vv" by simp
  have "map_of (clone_loop old xs (drop (length vv) sv) (AList.update x vv new)) k =
      (if k \<in> set xs then map_of old k else map_of (AList.update x vv new) k)"
    using Cons.prems vv by (intro Cons.IH) auto
  with Cons.prems vv n show ?case by (auto simp: Let_def)
qed simp

lemma clone_total:
  assumes "wf_map old" and "range_ok ord"
  shows "sum_list (map (\<lambda>(k, vv). length vv) old) =
    sum_list (map (\<lambda>k. length (the (map_of old k))) (ord (keys old)))"
proof -
  have "map (\<lambda>(k, vv). length vv) old = map (\<lambda>k. length (the (map_of old k))) (keys old)"
    using assms(1) by (auto simp: keys_def wf_map_def)
  moreover have "mset (map f (ord (keys old))) = mset (map f (keys old))" for f :: "'a \<Rightarrow> nat"
    using assms(2) by (simp add: range_ok_def)
  ultimately show ?thesis by (metis sum_mset_sum_list)
qed

lemma cloneUrlValues_map_of:
  assumes "wf_map old" and "ranges_ok ro"
  shows "map_of (cloneUrlValues ro old) = map_of old"
proof
  fix k
  let ?ks = "ro RCloneArgs (keys old)"
  have ro: "range_ok (ro RCloneArgs)" using assms(2) by (rule ranges_okD)
  have "map_of (cloneUrlValues ro old) k = (if k \<in> set ?ks then map_of old k else map_of [] k)"
    unfolding cloneUrlValues_def Let_def
    using assms(1) ro clone_total [OF assms(1) ro]
    by (intro clone_loop_map_of) (simp_all add: range_ok_set range_ok_distinct)
  then show "map_of (cloneUrlValues ro old) k = map_of old k"
    using range_ok_set [OF ro, of "keys old"] by (auto simp: domIff)
qed

lemma clone_loop_wf: "wf_map new \<Longrightarrow> wf_map (clone_loop old ks sv new)"
  by (induction ks arbitrary: sv new) (auto simp: Let_def wf_intros)

lemma cloneUrlValues_wf [wf_intros]: "wf_map (cloneUrlValues ro old)"
  by (simp add: cloneUrlValues_def Let_def clone_loop_wf)

lemma values_wf [wf_intros]:
  "wf_map m \<Longrightarrow> wf_map (values_Add k v m)" "wf_map m \<Longrightarrow> wf_map (values_Set k v m)"
  "wf_map m \<Longrightarrow> wf_map (values_Del k m)"
  by (simp_all add: values_Add_def values_Set_def values_Del_def wf_intros)

lemma args_of_wf: "wf_map args \<Longrightarrow> wf_map (args_of es args)"
  by (induction es args rule: args_of.induct) (auto simp: wf_intros)

text \<open>The receiver's reading of the argument entries: a name without value is removed, a name
  with values gets exactly these values.\<close>

definition apply_args :: "entry list \<Rightarrow> (string \<Rightarrow> string list option) \<Rightarrow> string \<Rightarrow> string list option" where
  "apply_args es m n =
     (if (n, None) \<in> set es then None
      else if values_of n es = [] then m n else Some (values_of n es))"

lemma args_deleted_mem: "(n, None) \<in> set (args_deleted new ns) \<longleftrightarrow> n \<in> set ns \<and> map_of new n = None"
  by (induction ns) auto

lemma args_deleted_values [simp]: "values_of n (args_deleted new ns) = []"
  by (induction ns) auto

lemma args_set_none [simp]: "(n, None) \<notin> set (args_set old new ns)"
  by (induction ns) (auto simp: Let_def)

lemma args_set_values:
  "distinct ns \<Longrightarrow> values_of n (args_set old new ns) =
    (if n \<in> set ns \<and> map_of old n \<noteq> map_of new n
     then (case map_of new n of None \<Rightarrow> [] | Some v \<Rightarrow> v) else [])"
  by (induction ns) (auto simp: Let_def values_of_map split: option.splits)

lemma args_changes_apply:
  assumes "wf_map old" "wf_map new" "ranges_ok ro"
  shows "apply_args (args_changes ro old new) (map_of old) n =
    (if map_of new n = Some [] then map_of old n else map_of new n)"
proof -
  have o: "range_ok (ro ROldArgs)" "range_ok (ro RNewArgs)" using assms(3) by (simp_all add: ranges_okD)
  have so: "set (ro ROldArgs (keys old)) = dom (map_of old)" using o(1) by (simp add: range_ok_set)
  have sn: "set (ro RNewArgs (keys new)) = dom (map_of new)" using o(2) by (simp add: range_ok_set)
  have dn: "distinct (ro RNewArgs (keys new))" using o(2) assms(2) by (simp add: range_ok_distinct)
  have del: "(n, None) \<in> set (args_changes ro old new) \<longleftrightarrow> map_of old n \<noteq> None \<and> map_of new n = None"
    by (auto simp: args_changes_def args_deleted_mem so)
  have vals: "values_of n (args_changes ro old new) =
      (if map_of new n \<noteq> None \<and> map_of old n \<noteq> map_of new n then the (map_of new n) else [])"
    by (auto simp: args_changes_def args_set_values [OF dn] sn split: option.splits)
  show ?thesis
    by (cases "map_of old n"; cases "map_of new n") (auto simp: apply_args_def del vals)
qed

subsection \<open>Var and Body\<close>

definition request_vars :: "Request \<Rightarrow> string \<Rightarrow> bytes option option" where
  "request_vars r = (case reqVars r of None \<Rightarrow> Map.empty | Some m \<Rightarrow> map_of m)"

lemma Request_ask_vars:
  "Request_askExtraInfo cd bd info r s = (res, bd', r', s') \<Longrightarrow> \<exists>h. r' = r\<lparr>extraInfoHeader := h\<rparr>"
  by (auto simp: Request_askExtraInfo_def split: prod.splits)

interpretation request_var: var_source request_vars "Request_Var cd" for cd
proof
  fix r name v s
  assume "request_vars r name = Some v"
  then show "Request_Var cd name r s = (Val (Inr v), r, s)"
    by (auto simp: request_vars_def Request_Var_def split: option.splits)
next
  fix name r s v r' s'
  assume "Request_Var cd name r s = (Val (Inr v), r', s')"
  then show "request_vars r' = (request_vars r)(name := Some v)"
    by (auto simp: request_vars_def Request_Var_def Let_def fun_eq_iff
        split: option.splits prod.splits rt.splits sum.splits)
next
  fix name r s e r' s'
  assume "Request_Var cd name r s = (Val (Inl e), r', s')"
  then show "e = ErrConnClosed \<and> request_vars r' = request_vars r"
    by (auto simp: request_vars_def Request_Var_def Request_askExtraInfo_def Let_def fun_eq_iff
        dest: askExtraInfo_error split: option.splits prod.splits rt.splits sum.splits)
qed

subsection \<open>Properties of the request\<close>

text \<open>C29: the query arguments.  A plugin asks for the arguments and leaves any map \<open>new\<close>
  in the place of the one it gets.  Applying the entries the runner then sends to the arguments received
  gives, under every name, the values the plugin left, whatever orders Go iterates in; except for a
  name left with an empty list of values: no entry is sent for it, so the receiver keeps what it had.\<close>

theorem Request_args_roundtrip:
  assumes "Request_Args ro r = Val (old, r')" "reqArgs r = None" "request_ok r" "ranges_ok ro"
    and "wf_map new"
  shows "\<exists>bd' rw es. Request_FetchChanges ro rid (r'\<lparr>reqArgs := Some new\<rparr>) bd = Val (True, bd') \<and>
    bdMsg bd' = Some (MsgHTTPReqResp rid (Some (ActionRewrite rw))) \<and> rwArgs rw = Some es \<and>
    (\<forall>n. apply_args es (map_of old) n = (if map_of new n = Some [] then map_of old n else map_of new n))"
proof -
  from assms(1,2) obtain q where "req_r r = Some q" and q: "old = args_of (hqArgs q) []"
    "r' = r\<lparr>reqArgs := Some old, rawArgs := cloneUrlValues ro old\<rparr>"
    by (auto simp: Request_Args_def with_r_def split: option.splits)
  have wf: "wf_map old" using q(1) by (simp add: args_of_wf)
  let ?raw = "cloneUrlValues ro old"
  have raw: "map_of ?raw = map_of old"
    using cloneUrlValues_map_of [OF wf] assms(4) by (simp add: ranges_okD)
  from args_changes_apply [OF cloneUrlValues_wf assms(5,4), of ro old]
  have app: "apply_args (args_changes ro ?raw new) (map_of old) n =
      (if map_of new n = Some [] then map_of old n else map_of new n)" for n
    by (simp add: raw)
  have "\<exists>es. HeaderBuild (ro RDeleteField) (ro RHdr) h = Val es" if "reqHdr r = Some h" for h
    using assms(3,4) that HeaderBuild_closed [of h "ro RHdr" "ro RDeleteField"]
    by (simp add: request_ok_def ranges_okD)
  with app q(2) show ?thesis
    by (cases "reqHdr r") (auto simp: Request_FetchChanges_def Request_hasChanges_def Let_def Finish_def build_vector_def)
qed

theorem Request_args_roundtrip_witness:
  "\<exists>r' bd' rw es. Request_FetchChanges (\<lambda>_. rev) 5 r' NewBuilder = Val (True, bd') \<and>
    bdMsg bd' = Some (MsgHTTPReqResp 5 (Some (ActionRewrite rw))) \<and> rwArgs rw = Some es \<and>
    apply_args es (map_of [(''a'', [''1'']), (''b'', [''2''])]) ''a'' = Some [''1''] \<and>
    apply_args es (map_of [(''a'', [''1'']), (''b'', [''2''])]) ''b'' = Some [''2'', ''3'']"
proof -
  let ?q = "\<lparr>hqId = 5, hqConfToken = 1, hqSrcIp = [], hqMethod = 0, hqPath = None, hqHeaders = [],
    hqArgs = [Some \<lparr>teName = Some [97], teValue = Some [49]\<rparr>, Some \<lparr>teName = Some [98], teValue = Some [50]\<rparr>]\<rparr>"
  have "args_of (hqArgs ?q) [] = [(''a'', [''1'']), (''b'', [''2''])]"
    by (simp add: go_string_opt_def go_string_def values_Add_def char_of_def bit_0 Let_def)
  then obtain r' where a: "Request_Args (\<lambda>_. rev) (newRequest\<lparr>req_r := Some ?q\<rparr>) =
      Val ([(''a'', [''1'']), (''b'', [''2''])], r')"
    by (simp add: Request_Args_def newRequest_def with_r_def)
  have ok: "request_ok (newRequest\<lparr>req_r := Some ?q\<rparr>)" "reqArgs (newRequest\<lparr>req_r := Some ?q\<rparr>) = None"
    by (simp_all add: newRequest_def request_ok_def)
  have wf: "wf_map [(''a'', []), (''b'', [''2'', ''3''])]" by (simp add: wf_map_def)
  from Request_args_roundtrip [OF a ok(2,1) ranges_ok_rev wf, of 5 NewBuilder] show ?thesis
    by (intro exI [of _ "r'\<lparr>reqArgs := Some [(''a'', []), (''b'', [''2'', ''3''])]\<rparr>"]) auto
qed

text \<open>Variables are asked for once.  A variable a plugin has got is answered from then on with the same
  value, without touching the connection, also after it asked for others, successfully or not.\<close>

lemma Request_Var_cached:
  assumes "Request_Var cd name r s = (Val (Inr v), r1, s1)"
    and "Request_Var cd other r1 s2 = (Val res, r2, s3)"
  shows "Request_Var cd name r2 t = (Val (Inr v), r2, t) \<and>
    (\<forall>e. res = Inl e \<longrightarrow> e = ErrConnClosed \<and> request_vars r2 = request_vars r1)"
proof -
  from request_var.var_ok [OF assms(1)] have "request_vars r1 name = Some v" by simp
  from request_var.var_keeps [OF this assms(2)] request_var.var_err assms(2) show ?thesis by blast
qed

lemma Request_Var_cached_sample:
  "\<forall>cd t. Request_Var cd ''x'' (newRequest\<lparr>reqVars := Some [(''x'', Some [1]), (''y'', None)]\<rparr>) t =
    (Val (Inr (Some [1])), newRequest\<lparr>reqVars := Some [(''x'', Some [1]), (''y'', None)]\<rparr>, t)"
proof -
  let ?r = "newRequest\<lparr>reqVars := Some [(''x'', Some [1]), (''y'', None)]\<rparr>"
  have "Request_Var cd ''x'' ?r t = (Val (Inr (Some [1])), ?r, t)" "Request_Var cd ''y'' ?r t = (Val (Inr None), ?r, t)" for cd t
    by (simp_all add: Request_Var_def newRequest_def)
  from Request_Var_cached [OF this] show ?thesis by blast
qed

end
