(* ===== verification/Response.thy ===== *)
theory Response
  imports Req_Response Extra_Info
begin

section \<open>The response of the response phase (internal/http/response.go)\<close>

text \<open>
  \<open>Response\<close> is what response filters see of the upstream's response, readable and rewritable.
  It interprets the contracts of a status writer, a source of changes, a source of variables
  and a pooled object.
\<close>

record Response =
  resp_r :: "hresp option"
  respConn :: bool
  respInfoHeader :: bytes
  respHeader :: "Header option"
  statusCode :: int
  respBody :: "bytes option"
  respVars :: "(string, bytes option) gomap option"
  originBody :: "bytes option"

definition newResponse :: Response where
  "newResponse = \<lparr>resp_r = None, respConn = False, respInfoHeader = [], respHeader = None,
     statusCode = 0, respBody = None, respVars = None, originBody = None\<rparr>"

definition Response_askExtraInfo ::
  "codec \<Rightarrow> builder \<Rightarrow> info \<Rightarrow> Response \<Rightarrow> io \<Rightarrow> (go_error + bytes option) rt \<times> builder \<times> Response \<times> io" where
  "Response_askExtraInfo cd bd info r s =
     (let (res, header, bd', s') = askExtraInfo cd (respConn r) (respInfoHeader r) bd info s
      in (res, bd', r\<lparr>respInfoHeader := header\<rparr>, s'))"

definition with_resp :: "(hresp \<Rightarrow> 'a) \<Rightarrow> Response \<Rightarrow> 'a rt" where
  "with_resp f r = (case resp_r r of None \<Rightarrow> Panic | Some q \<Rightarrow> Val (f q))"

definition Response_ID :: "Response \<Rightarrow> u32 rt" where
  "Response_ID r = with_resp hpId r"

definition Response_StatusCode :: "Response \<Rightarrow> int rt" where
  "Response_StatusCode r =
     (if statusCode r = 0 then with_resp (\<lambda>q. uint (hpStatus q)) r else Val (statusCode r))"

definition Response_Header :: "Response \<Rightarrow> (Header \<times> Response) rt" where
  "Response_Header r =
     (case respHeader r of
        Some h \<Rightarrow> Val (h, r)
      | None \<Rightarrow>
          (case with_resp (\<lambda>q. newHeader (hpHeaders q)) r of
             Panic \<Rightarrow> Panic
           | Val h \<Rightarrow> Val (h, r\<lparr>respHeader := Some h\<rparr>)))"

definition Response_Write :: "bytes \<Rightarrow> Response \<Rightarrow> nat \<times> Response" where
  "Response_Write b r = (length b, r\<lparr>respBody := Some (buffer_Write b (respBody r))\<rparr>)"

definition Response_Var ::
  "codec \<Rightarrow> string \<Rightarrow> Response \<Rightarrow> io \<Rightarrow> (go_error + bytes option) rt \<times> Response \<times> io" where
  "Response_Var cd name r s =
     (let m = (case respVars r of None \<Rightarrow> [] | Some m \<Rightarrow> m);
          r0 = r\<lparr>respVars := Some m\<rparr>
      in case map_of m name of
           Some v \<Rightarrow> (Val (Inr v), r0, s)
         | None \<Rightarrow>
             (let (bd, s1) = GetBuilder s;
                  (res, bd', r1, s2) = Response_askExtraInfo cd bd (InfoVar name) r0 s1
              in case res of
                   Panic \<Rightarrow> (Panic, r1, s2)
                 | Val (Inl e) \<Rightarrow> (Val (Inl e), r1, PutBuilder bd' s2)
                 | Val (Inr v) \<Rightarrow>
                     (Val (Inr v), r1\<lparr>respVars := Some (AList.update name v m)\<rparr>, PutBuilder bd' s2)))"

definition Response_ReadBody ::
  "codec \<Rightarrow> Response \<Rightarrow> io \<Rightarrow> (go_error + bytes option) rt \<times> Response \<times> io" where
  "Response_ReadBody cd r s =
     (case originBody r of
        Some (b # bs) \<Rightarrow> (Val (Inr (Some (b # bs))), r, s)
      | _ \<Rightarrow>
          (let (bd, s1) = GetBuilder s;
               (res, bd', r1, s2) = Response_askExtraInfo cd bd InfoRespBody r s1
           in case res of
                Panic \<Rightarrow> (Panic, r1, s2)
              | Val (Inl e) \<Rightarrow> (Val (Inl e), r1, PutBuilder bd' s2)
              | Val (Inr v) \<Rightarrow> (Val (Inr v), r1\<lparr>originBody := v\<rparr>, PutBuilder bd' s2)))"

definition Response_WriteHeader :: "int \<Rightarrow> Response \<Rightarrow> Response" where
  "Response_WriteHeader n r = (if statusCode r \<noteq> 0 then r else r\<lparr>statusCode := n\<rparr>)"

definition Response_ConfToken :: "Response \<Rightarrow> u32 rt" where
  "Response_ConfToken r = with_resp hpConfToken r"

definition Response_HasChange :: "Response \<Rightarrow> bool" where
  "Response_HasChange r \<longleftrightarrow> \<not> (respBody r = None \<and> respHeader r = None \<and> statusCode r = 0)"

definition Response_FetchChanges ::
  "range_orders \<Rightarrow> Response \<Rightarrow> builder \<Rightarrow> (bool \<times> builder) rt" where
  "Response_FetchChanges ro r bd =
     (if \<not> Response_HasChange r then Val (False, bd)
      else
        (case (case respHeader r of
                 None \<Rightarrow> Val None
               | Some h \<Rightarrow>
                   (case HeaderBuild (ro RDeleteField) (ro RHdr) h of
                      Panic \<Rightarrow> Panic
                    | Val hdrs \<Rightarrow> Val (Some (build_vector hdrs)))) of
           Panic \<Rightarrow> Panic
         | Val hdrVec \<Rightarrow>
             (let bodyVec = (case respBody r of
                    Some b \<Rightarrow> (if 0 < length b then Some b else None)
                  | None \<Rightarrow> None);
                  status = (if statusCode r \<noteq> 0 then Some (word_of_int (statusCode r)) else None)
              in case with_resp hpId r of
                   Panic \<Rightarrow> Panic
                 | Val rid \<Rightarrow> Val (True, Finish (MsgHTTPRespResp rid status hdrVec bodyVec) bd))))"

definition Response_BindConn :: "bool \<Rightarrow> Response \<Rightarrow> Response" where
  "Response_BindConn c r = r\<lparr>respConn := c\<rparr>"

definition Response_Reset :: "Response \<Rightarrow> Response" where
  "Response_Reset r = r\<lparr>respBody := None, statusCode := 0, respHeader := None, respConn := False,
     respVars := None, originBody := None\<rparr>"

definition CreateResponse ::
  "codec \<Rightarrow> bytes \<Rightarrow> Response list \<Rightarrow> io \<Rightarrow> Response rt \<times> Response list \<times> io" where
  "CreateResponse cd buf pool s =
     (let (resp, pool', picks) = Pool_Get newResponse pool (ioPicks s);
          s1 = s\<lparr>ioPicks := picks\<rparr>
      in case GetRootAsHTTPRespCall cd buf of
           Panic \<Rightarrow> (Panic, pool', s1)
         | Val q \<Rightarrow> (Val (resp\<lparr>resp_r := Some q\<rparr>), pool', s1))"

definition ReuseResponse :: "Response \<Rightarrow> Response list \<Rightarrow> Response list" where
  "ReuseResponse r pool = Pool_Put (Response_Reset r) pool"

lemmas Response_defs [api_defs] = with_resp_def Response_ID_def Response_StatusCode_def
  Response_Header_def Response_Write_def Response_WriteHeader_def Response_ConfToken_def
  Response_BindConn_def

subsection \<open>The contracts\<close>

definition response_clean :: "Response \<Rightarrow> bool" where
  "response_clean r \<longleftrightarrow> respBody r = None \<and> statusCode r = 0 \<and> respHeader r = None \<and>
     \<not> respConn r \<and> respVars r = None \<and> originBody r = None"

interpretation response_pool: reset_pool newResponse Response_Reset response_clean
  by unfold_locales (simp_all add: response_clean_def Response_Reset_def newResponse_def)

interpretation response_writer: status_writer Response_WriteHeader
  "\<lambda>b w. snd (Response_Write b w)" statusCode respBody
  by unfold_locales (simp_all add: Response_WriteHeader_def Response_Write_def)

definition response_ok :: "Response \<Rightarrow> bool" where
  "response_ok r \<longleftrightarrow> (\<forall>h. respHeader r = Some h \<longrightarrow> header_ok h) \<and>
     (\<forall>m. respVars r = Some m \<longrightarrow> wf_map m)"

lemma response_clean_ok: "response_clean r \<Longrightarrow> response_ok r"
  by (simp add: response_clean_def response_ok_def)

interpretation response_changes: change_source
  "\<lambda>r. response_ok r \<and> resp_r r \<noteq> None \<and> ranges_ok ro" Response_HasChange "Response_FetchChanges ro" for ro
proof
  fix r b
  assume "\<not> Response_HasChange r"
  then show "Response_FetchChanges ro r b = Val (False, b)"
    by (simp add: Response_FetchChanges_def)
next
  fix r b
  assume ok: "response_ok r \<and> resp_r r \<noteq> None \<and> ranges_ok ro" and "Response_HasChange r"
  moreover have "\<exists>es. HeaderBuild (ro RDeleteField) (ro RHdr) h = Val es" if "respHeader r = Some h" for h
    using ok that HeaderBuild_closed [of h "ro RHdr" "ro RDeleteField"]
    by (simp add: response_ok_def ranges_okD)
  ultimately show "\<exists>m. Response_FetchChanges ro r b = Val (True, Finish m b)"
    by (fastforce simp: Response_FetchChanges_def Let_def with_resp_def split: option.splits)
qed

definition response_vars :: "Response \<Rightarrow> string \<Rightarrow> bytes option option" where
  "response_vars r = (case respVars r of None \<Rightarrow> Map.empty | Some m \<Rightarrow> map_of m)"

interpretation response_var: var_source response_vars "Response_Var cd" for cd
proof
  fix r name v s
  assume "response_vars r name = Some v"
  then show "Response_Var cd name r s = (Val (Inr v), r, s)"
    by (auto simp: response_vars_def Response_Var_def split: option.splits)
next
  fix name r s v r' s'
  assume "Response_Var cd name r s = (Val (Inr v), r', s')"
  then show "response_vars r' = (response_vars r)(name := Some v)"
    by (auto simp: response_vars_def Response_Var_def Let_def fun_eq_iff
        split: option.splits prod.splits rt.splits sum.splits)
next
  fix name r s e r' s'
  assume "Response_Var cd name r s = (Val (Inl e), r', s')"
  then show "e = ErrConnClosed \<and> response_vars r' = response_vars r"
    by (auto simp: response_vars_def Response_Var_def Response_askExtraInfo_def Let_def fun_eq_iff
        dest: askExtraInfo_error split: option.splits prod.splits rt.splits sum.splits)
qed

end
