(* ===== verification/Plugin_Api.thy ===== *)
theory Plugin_Api
  imports Request Response
begin

section \<open>The interfaces plugins program against (pkg/http/http.go)\<close>

text \<open>
  A filter is foreign code.  It reaches the runner's state only through the methods of
  \<open>http.ResponseWriter\<close>, \<open>pkgHTTP.Request\<close>, \<open>pkgHTTP.Response\<close> and \<open>pkgHTTP.Header\<close>, so a
  filter is modelled as a program over these methods: each step calls a method and continues
  with its result, and a program may also crash (panic).  Theorems that hold for every program hold for every
  filter that returns.

  \<open>exec_req\<close> and \<open>exec_resp\<close> run one method on the state of a request or response filter; a
  method of the \<open>Header\<close> or of the maps that \<open>Args()\<close>, \<open>RespHeader()\<close> and \<open>Header()\<close> return is
  one call together with the accessor that yields the object.  \<open>CallArgsPut\<close> is an assignment
  \<open>args[k] = vs\<close> to the returned map.
\<close>

datatype api_ret =
    RUnit
  | RLen nat
  | RU32 u32
  | RInt int
  | RStr string
  | RBytes "bytes option"
  | RResult "go_error + bytes option"
  | RValues "(string, string list) gomap"
  | RCtx go_ctx

datatype 'call prog = Done | Crash | Call 'call "api_ret \<Rightarrow> 'call prog"

primrec run_prog :: "('call \<Rightarrow> 'st \<Rightarrow> api_ret rt \<times> 'st) \<Rightarrow> 'call prog \<Rightarrow> 'st \<Rightarrow> unit rt \<times> 'st" where
  "run_prog exec Done = (\<lambda>st. (Val (), st))"
| "run_prog exec Crash = (\<lambda>st. (Panic, st))"
| "run_prog exec (Call c k) = (\<lambda>st.
     case exec c st of
       (Panic, st') \<Rightarrow> (Panic, st')
     | (Val v, st') \<Rightarrow> run_prog exec (k v) st')"

text \<open>A program that makes only certain calls.\<close>

primrec calls_only :: "('call \<Rightarrow> bool) \<Rightarrow> 'call prog \<Rightarrow> bool" where
  "calls_only P Done \<longleftrightarrow> True"
| "calls_only P Crash \<longleftrightarrow> True"
| "calls_only P (Call c k) \<longleftrightarrow> P c \<and> (\<forall>v. calls_only P (k v))"

lemma run_only_inv:
  assumes step: "\<And>c st v st'. P c \<Longrightarrow> I st \<Longrightarrow> exec c st = (v, st') \<Longrightarrow> I st'"
  shows "calls_only P p \<Longrightarrow> I st \<Longrightarrow> run_prog exec p st = (res, st') \<Longrightarrow> I st'"
proof (induction p arbitrary: st)
  case (Call c k)
  obtain v st1 where e: "exec c st = (v, st1)" by (cases "exec c st") auto
  have "I st1" using step [OF _ Call.prems(2) e] Call.prems(1) by simp
  with Call e show ?case by (cases v) auto
qed auto

subsection \<open>What a program keeps\<close>

locale api_invariant =
  fixes exec :: "'call \<Rightarrow> 'st \<Rightarrow> api_ret rt \<times> 'st" and inv :: "'st \<Rightarrow> bool"
  assumes exec_inv: "inv st \<Longrightarrow> exec c st = (res, st') \<Longrightarrow> inv st'"
begin

lemma run_inv: "inv st \<Longrightarrow> run_prog exec p st = (res, st') \<Longrightarrow> inv st'"
proof (induction p arbitrary: st)
  case (Call c k)
  obtain v st1 where e: "exec c st = (v, st1)" by (cases "exec c st") auto
  with Call.prems(1) have "inv st1" by (auto intro: exec_inv)
  with Call e show ?case by (cases v) auto
qed auto

end

text \<open>Two states a program cannot tell apart.\<close>

locale api_relation =
  fixes exec :: "'call \<Rightarrow> 'st \<Rightarrow> api_ret rt \<times> 'st" and rel :: "'st \<Rightarrow> 'st \<Rightarrow> bool"
  assumes exec_rel: "rel s t \<Longrightarrow> exec c s = (res, s') \<Longrightarrow> \<exists>t'. exec c t = (res, t') \<and> rel s' t'"
begin

lemma run_rel:
  "rel s t \<Longrightarrow> run_prog exec p s = (res, s') \<Longrightarrow> \<exists>t'. run_prog exec p t = (res, t') \<and> rel s' t'"
proof (induction p arbitrary: s t)
  case (Call c k)
  obtain v s1 where e: "exec c s = (v, s1)" by (cases "exec c s") auto
  from exec_rel [OF Call.prems(1) e] obtain t1 where t1: "exec c t = (v, t1)" "rel s1 t1" by blast
  show ?case
  proof (cases v)
    case (Val x)
    have "run_prog exec (k x) s1 = (res, s')" using Call.prems(2) e Val by simp
    from Call.IH [OF rangeI t1(2) this] show ?thesis using t1(1) Val by simp
  next
    case Panic
    with Call.prems(2) e t1 show ?thesis by auto
  qed
qed auto

end

subsection \<open>Request filters\<close>

datatype req_call =
    CallID | CallSrcIP | CallMethod
  | CallPath | CallSetPath "bytes option"
  | CallHeaderSet string string | CallHeaderDel string | CallHeaderGet string | CallHeaderView
  | CallArgs | CallArgsAdd string string | CallArgsSet string string | CallArgsDel string
  | CallArgsPut string "string list"
  | CallVar string | CallBody | CallSetBody "bytes option" | CallContext
  | CallRespHeader | CallRespHeaderAdd string string | CallRespHeaderSet string string
  | CallRespHeaderDel string
  | CallWHeader | CallWHeaderAdd string string | CallWHeaderSet string string | CallWHeaderDel string
  | CallWrite bytes | CallWriteHeader int

type_synonym req_state = "ReqResponse \<times> Request \<times> io"

definition upd_header :: "(Header \<Rightarrow> Header) \<Rightarrow> Request \<Rightarrow> api_ret rt \<times> Request" where
  "upd_header f r = (case Request_Header r of
     Panic \<Rightarrow> (Panic, r) | Val (h, r') \<Rightarrow> (Val RUnit, r'\<lparr>reqHdr := Some (f h)\<rparr>))"

definition get_header_of :: "(Header \<Rightarrow> api_ret) \<Rightarrow> Request \<Rightarrow> api_ret rt \<times> Request" where
  "get_header_of f r = (case Request_Header r of
     Panic \<Rightarrow> (Panic, r) | Val (h, r') \<Rightarrow> (Val (f h), r'))"

definition upd_args :: "range_orders \<Rightarrow> (url_values \<Rightarrow> url_values) \<Rightarrow> Request \<Rightarrow> api_ret rt \<times> Request" where
  "upd_args ro f r = (case Request_Args ro r of
     Panic \<Rightarrow> (Panic, r) | Val (a, r') \<Rightarrow> (Val (RValues (f a)), r'\<lparr>reqArgs := Some (f a)\<rparr>))"

definition upd_respHeader :: "(http_header \<Rightarrow> http_header) \<Rightarrow> Request \<Rightarrow> api_ret rt \<times> Request" where
  "upd_respHeader f r =
     (let (h, r') = Request_RespHeader r in (Val (RValues (f h)), r'\<lparr>respHdr := Some (f h)\<rparr>))"

definition upd_wHeader :: "(http_header \<Rightarrow> http_header) \<Rightarrow> ReqResponse \<Rightarrow> api_ret rt \<times> ReqResponse" where
  "upd_wHeader f w =
     (let (h, w') = ReqResponse_Header w in (Val (RValues (f h)), w'\<lparr>rrHdr := Some (f h)\<rparr>))"

text \<open>Lifting a method of the request, of the writer, or one with I/O, to the filter's state.\<close>

definition on_r :: "(Request \<Rightarrow> api_ret rt \<times> Request) \<Rightarrow> req_state \<Rightarrow> api_ret rt \<times> req_state" where
  "on_r f st = (case st of (w, r, s) \<Rightarrow> (case f r of (v, r') \<Rightarrow> (v, w, r', s)))"

definition on_w :: "(ReqResponse \<Rightarrow> api_ret rt \<times> ReqResponse) \<Rightarrow> req_state \<Rightarrow> api_ret rt \<times> req_state" where
  "on_w f st = (case st of (w, r, s) \<Rightarrow> (case f w of (v, w') \<Rightarrow> (v, w', r, s)))"

definition on_io :: "(Request \<Rightarrow> io \<Rightarrow> (go_error + bytes option) rt \<times> Request \<times> io) \<Rightarrow>
    req_state \<Rightarrow> api_ret rt \<times> req_state" where
  "on_io f st = (case st of (w, r, s) \<Rightarrow> (case f r s of (v, r', s') \<Rightarrow> (map_rt RResult v, w, r', s')))"

fun exec_req :: "codec \<Rightarrow> range_orders \<Rightarrow> req_call \<Rightarrow> req_state \<Rightarrow> api_ret rt \<times> req_state" where
  "exec_req cd ro CallID = on_r (\<lambda>r. (map_rt RU32 (Request_ID r), r))"
| "exec_req cd ro CallSrcIP = on_r (\<lambda>r. (map_rt (\<lambda>b. RBytes (Some b)) (Request_SrcIP r), r))"
| "exec_req cd ro CallMethod = on_r (\<lambda>r. (map_rt RStr (Request_Method cd r), r))"
| "exec_req cd ro CallPath = on_r (\<lambda>r. (map_rt RBytes (Request_Path r), r))"
| "exec_req cd ro (CallSetPath p) = on_r (\<lambda>r. (Val RUnit, Request_SetPath p r))"
| "exec_req cd ro (CallHeaderSet k v) = on_r (upd_header (Header_Set k v))"
| "exec_req cd ro (CallHeaderDel k) = on_r (upd_header (Header_Del k))"
| "exec_req cd ro (CallHeaderGet k) = on_r (get_header_of (\<lambda>h. RStr (Header_Get k h)))"
| "exec_req cd ro CallHeaderView = on_r (get_header_of (\<lambda>h. RValues (Header_View h)))"
| "exec_req cd ro CallArgs = on_r (upd_args ro (\<lambda>a. a))"
| "exec_req cd ro (CallArgsAdd k v) = on_r (upd_args ro (values_Add k v))"
| "exec_req cd ro (CallArgsSet k v) = on_r (upd_args ro (values_Set k v))"
| "exec_req cd ro (CallArgsDel k) = on_r (upd_args ro (values_Del k))"
| "exec_req cd ro (CallArgsPut k vs) = on_r (upd_args ro (AList.update k vs))"
| "exec_req cd ro (CallVar name) = on_io (Request_Var cd name)"
| "exec_req cd ro CallBody = on_io (Request_Body cd)"
| "exec_req cd ro (CallSetBody b) = on_r (\<lambda>r. (Val RUnit, Request_SetBody b r))"
| "exec_req cd ro CallContext = on_r (\<lambda>r. (Val (RCtx (Request_Context r)), r))"
| "exec_req cd ro CallRespHeader = on_r (upd_respHeader (\<lambda>h. h))"
| "exec_req cd ro (CallRespHeaderAdd k v) = on_r (upd_respHeader (http_Add k v))"
| "exec_req cd ro (CallRespHeaderSet k v) = on_r (upd_respHeader (http_Set k v))"
| "exec_req cd ro (CallRespHeaderDel k) = on_r (upd_respHeader (http_Del k))"
| "exec_req cd ro CallWHeader = on_w (upd_wHeader (\<lambda>h. h))"
| "exec_req cd ro (CallWHeaderAdd k v) = on_w (upd_wHeader (http_Add k v))"
| "exec_req cd ro (CallWHeaderSet k v) = on_w (upd_wHeader (http_Set k v))"
| "exec_req cd ro (CallWHeaderDel k) = on_w (upd_wHeader (http_Del k))"
| "exec_req cd ro (CallWrite b) = on_w (\<lambda>w. case ReqResponse_Write b w of (n, w') \<Rightarrow> (Val (RLen n), w'))"
| "exec_req cd ro (CallWriteHeader n) = on_w (\<lambda>w. (Val RUnit, ReqResponse_WriteHeader n w))"

definition run_req :: "codec \<Rightarrow> range_orders \<Rightarrow> req_call prog \<Rightarrow> req_state \<Rightarrow> unit rt \<times> req_state" where
  "run_req cd ro = run_prog (exec_req cd ro)"

subsection \<open>Response filters\<close>

datatype resp_call =
    RCallID | RCallStatusCode
  | RCallHeaderSet string string | RCallHeaderDel string | RCallHeaderGet string | RCallHeaderView
  | RCallVar string | RCallReadBody
  | RCallWrite bytes | RCallWriteHeader int

type_synonym resp_state = "Response \<times> io"

definition resp_upd_header :: "(Header \<Rightarrow> Header) \<Rightarrow> Response \<Rightarrow> api_ret rt \<times> Response" where
  "resp_upd_header f r = (case Response_Header r of
     Panic \<Rightarrow> (Panic, r) | Val (h, r') \<Rightarrow> (Val RUnit, r'\<lparr>respHeader := Some (f h)\<rparr>))"

definition resp_get_header :: "(Header \<Rightarrow> api_ret) \<Rightarrow> Response \<Rightarrow> api_ret rt \<times> Response" where
  "resp_get_header f r = (case Response_Header r of
     Panic \<Rightarrow> (Panic, r) | Val (h, r') \<Rightarrow> (Val (f h), r'))"

definition on_resp :: "(Response \<Rightarrow> api_ret rt \<times> Response) \<Rightarrow> resp_state \<Rightarrow> api_ret rt \<times> resp_state" where
  "on_resp f st = (case st of (r, s) \<Rightarrow> (case f r of (v, r') \<Rightarrow> (v, r', s)))"

definition on_resp_io :: "(Response \<Rightarrow> io \<Rightarrow> (go_error + bytes option) rt \<times> Response \<times> io) \<Rightarrow>
    resp_state \<Rightarrow> api_ret rt \<times> resp_state" where
  "on_resp_io f st = (case st of (r, s) \<Rightarrow> (case f r s of (v, r', s') \<Rightarrow> (map_rt RResult v, r', s')))"

fun exec_resp :: "codec \<Rightarrow> resp_call \<Rightarrow> resp_state \<Rightarrow> api_ret rt \<times> resp_state" where
  "exec_resp cd RCallID = on_resp (\<lambda>r. (map_rt RU32 (Response_ID r), r))"
| "exec_resp cd RCallStatusCode = on_resp (\<lambda>r. (map_rt RInt (Response_StatusCode r), r))"
| "exec_resp cd (RCallHeaderSet k v) = on_resp (resp_upd_header (Header_Set k v))"
| "exec_resp cd (RCallHeaderDel k) = on_resp (resp_upd_header (Header_Del k))"
| "exec_resp cd (RCallHeaderGet k) = on_resp (resp_get_header (\<lambda>h. RStr (Header_Get k h)))"
| "exec_resp cd RCallHeaderView = on_resp (resp_get_header (\<lambda>h. RValues (Header_View h)))"
| "exec_resp cd (RCallVar name) = on_resp_io (Response_Var cd name)"
| "exec_resp cd RCallReadBody = on_resp_io (Response_ReadBody cd)"
| "exec_resp cd (RCallWrite b) = on_resp (\<lambda>w. case Response_Write b w of (n, w') \<Rightarrow> (Val (RLen n), w'))"
| "exec_resp cd (RCallWriteHeader n) = on_resp (\<lambda>w. (Val RUnit, Response_WriteHeader n w))"

definition run_resp :: "codec \<Rightarrow> resp_call prog \<Rightarrow> resp_state \<Rightarrow> unit rt \<times> resp_state" where
  "run_resp cd = run_prog (exec_resp cd)"

subsection \<open>Invariants of filters\<close>

text \<open>No method changes the message, the connection binding or the context of a request.\<close>

definition req_kept :: "Request \<Rightarrow> Request \<Rightarrow> bool" where
  "req_kept r r' \<longleftrightarrow> req_r r' = req_r r \<and> reqConn r' = reqConn r \<and> reqCtx r' = reqCtx r \<and>
     reqCancel r' = reqCancel r"

lemma req_kept_trans: "req_kept r r' \<Longrightarrow> req_kept r' r'' \<Longrightarrow> req_kept r r''"
  by (simp add: req_kept_def)

definition req_inv :: "Request \<Rightarrow> io \<Rightarrow> req_state \<Rightarrow> bool" where
  "req_inv r0 s0 st \<longleftrightarrow> (case st of (w, r, s) \<Rightarrow>
     request_ok r \<and> (\<forall>h. rrHdr w = Some h \<longrightarrow> wf_map h) \<and> req_kept r0 r \<and> io_frame s0 s)"

lemma Request_Header_ok:
  "request_ok r \<Longrightarrow> Request_Header r = Val (h, r') \<Longrightarrow> header_ok h \<and> request_ok r' \<and> req_kept r r'"
  by (auto simp: Request_Header_def with_r_def request_ok_def req_kept_def split: option.splits rt.splits)

lemma upd_header_ok:
  assumes "request_ok r" "\<And>h. header_ok h \<Longrightarrow> header_ok (f h)" "upd_header f r = (v, r')"
  shows "request_ok r' \<and> req_kept r r'"
  using assms Request_Header_ok [OF assms(1)]
  by (auto simp: upd_header_def request_ok_def req_kept_def split: rt.splits)

lemma get_header_of_ok:
  assumes "request_ok r" "get_header_of f r = (v, r')"
  shows "request_ok r' \<and> req_kept r r'"
  using assms Request_Header_ok [OF assms(1)]
  by (auto simp: get_header_of_def req_kept_def split: rt.splits)

lemma upd_args_ok:
  assumes "request_ok r" "\<And>a. wf_map a \<Longrightarrow> wf_map (f a)" "upd_args ro f r = (v, r')"
  shows "request_ok r' \<and> req_kept r r'"
  using assms by (auto simp: upd_args_def Request_Args_def with_r_def request_ok_def req_kept_def
      args_of_wf wf_intros split: option.splits rt.splits)

lemma upd_respHeader_ok:
  assumes "request_ok r" "\<And>a. wf_map a \<Longrightarrow> wf_map (f a)" "upd_respHeader f r = (v, r')"
  shows "request_ok r' \<and> req_kept r r'"
  using assms by (auto simp: upd_respHeader_def Request_RespHeader_def request_ok_def req_kept_def
      split: option.splits)

lemma upd_wHeader_ok:
  assumes "\<forall>h. rrHdr w = Some h \<longrightarrow> wf_map h" "\<And>a. wf_map a \<Longrightarrow> wf_map (f a)"
    "upd_wHeader f w = (v, w')"
  shows "\<forall>h. rrHdr w' = Some h \<longrightarrow> wf_map h"
  using assms by (auto simp: upd_wHeader_def ReqResponse_Header_def split: option.splits)

lemma Request_ask_frame:
  "Request_askExtraInfo cd bd info r s = (res, bd', r', s') \<Longrightarrow>
    io_frame s s' \<and> (\<exists>h. r' = r\<lparr>extraInfoHeader := h\<rparr>)"
  by (auto simp: Request_askExtraInfo_def dest: askExtraInfo_frame split: prod.splits)

lemma Request_Var_ok:
  assumes "request_ok r" "Request_Var cd name r s = (v, r', s')"
  shows "request_ok r' \<and> req_kept r r' \<and> io_frame s s'"
proof (cases "request_vars r name")
  case (Some x)
  from request_var.var_hit [OF this, of cd s] assms show ?thesis by (simp add: req_kept_def)
next
  case None
  obtain bd s1 where g: "GetBuilder s = (bd, s1)" by (cases "GetBuilder s") auto
  let ?m = "case reqVars r of None \<Rightarrow> [] | Some m \<Rightarrow> m"
  obtain res bd' r1 s2 where
    ask: "Request_askExtraInfo cd bd (InfoVar name) (r\<lparr>reqVars := Some ?m\<rparr>) s1 = (res, bd', r1, s2)"
    by (cases "Request_askExtraInfo cd bd (InfoVar name) (r\<lparr>reqVars := Some ?m\<rparr>) s1") auto
  have m: "map_of ?m name = None" "wf_map ?m"
    using None assms(1) by (auto simp: request_vars_def request_ok_def split: option.splits)
  from Request_ask_frame [OF ask] obtain h where
    r1: "r1 = r\<lparr>reqVars := Some ?m, extraInfoHeader := h\<rparr>" and fr: "io_frame s1 s2" by auto
  from io_frame_trans [OF io_frame_GetBuilder [OF g] fr] have f: "io_frame s s2" .
  have f': "io_frame s (PutBuilder b s2)" for b by (rule io_frame_trans [OF f io_frame_PutBuilder])
  have ok: "request_ok r1" "req_kept r r1" "wf_map (AList.update name x ?m)" for x
    using assms(1) m by (auto simp: r1 request_ok_def req_kept_def wf_intros)
  show ?thesis
    using assms(2) m(1) ok f f' unfolding Request_Var_def Let_def g ask prod.case
    by (auto simp: request_ok_def req_kept_def split: rt.splits sum.splits)
qed

lemma Request_Body_ok:
  assumes "request_ok r" "Request_Body cd r s = (v, r', s')"
  shows "request_ok r' \<and> req_kept r r' \<and> io_frame s s'"
proof -
  obtain bd s1 where g: "GetBuilder s = (bd, s1)" by (cases "GetBuilder s") auto
  obtain res bd' r1 s2 where ask: "Request_askExtraInfo cd bd InfoReqBody r s1 = (res, bd', r1, s2)"
    by (cases "Request_askExtraInfo cd bd InfoReqBody r s1") auto
  from Request_ask_frame [OF ask] obtain h where
    r1: "r1 = r\<lparr>extraInfoHeader := h\<rparr>" and fr: "io_frame s1 s2" by auto
  from io_frame_trans [OF io_frame_GetBuilder [OF g] fr] have f: "io_frame s s2" .
  have ok: "request_ok r1" "req_kept r r1" "req_kept r r"
    using assms(1) by (auto simp: r1 request_ok_def req_kept_def)
  show ?thesis
    using assms ok f unfolding Request_Body_def Let_def g ask prod.case
    by (auto simp: request_ok_def req_kept_def split: rt.splits sum.splits option.splits list.splits)
qed

definition keeps_r :: "(Request \<Rightarrow> api_ret rt \<times> Request) \<Rightarrow> bool" where
  "keeps_r f \<longleftrightarrow> (\<forall>r v r'. request_ok r \<longrightarrow> f r = (v, r') \<longrightarrow> request_ok r' \<and> req_kept r r')"

definition keeps_w :: "(ReqResponse \<Rightarrow> api_ret rt \<times> ReqResponse) \<Rightarrow> bool" where
  "keeps_w f \<longleftrightarrow> (\<forall>w v w'. (\<forall>h. rrHdr w = Some h \<longrightarrow> wf_map h) \<longrightarrow> f w = (v, w') \<longrightarrow>
     (\<forall>h. rrHdr w' = Some h \<longrightarrow> wf_map h))"

definition keeps_io :: "(Request \<Rightarrow> io \<Rightarrow> (go_error + bytes option) rt \<times> Request \<times> io) \<Rightarrow> bool" where
  "keeps_io f \<longleftrightarrow> (\<forall>r s v r' s'. request_ok r \<longrightarrow> f r s = (v, r', s') \<longrightarrow>
     request_ok r' \<and> req_kept r r' \<and> io_frame s s')"

lemma keeps_r_getter [simp]: "keeps_r (\<lambda>r. (g r, r))"
  by (simp add: keeps_r_def req_kept_def)

lemma keeps_r_setters [simp]:
  "keeps_r (\<lambda>r. (Val RUnit, Request_SetPath p r))" "keeps_r (\<lambda>r. (Val RUnit, Request_SetBody b r))"
  by (simp_all add: keeps_r_def req_kept_def request_ok_def Request_SetPath_def Request_SetBody_def)

lemma keeps_r_upd_header: "(\<And>h. header_ok h \<Longrightarrow> header_ok (f h)) \<Longrightarrow> keeps_r (upd_header f)"
  unfolding keeps_r_def by (intro allI impI) (rule upd_header_ok)

lemma keeps_r_get_header [simp]: "keeps_r (get_header_of g)"
  unfolding keeps_r_def by (intro allI impI) (rule get_header_of_ok)

lemma keeps_r_args: "(\<And>a. wf_map a \<Longrightarrow> wf_map (f a)) \<Longrightarrow> keeps_r (upd_args ro f)"
  unfolding keeps_r_def by (intro allI impI) (rule upd_args_ok)

lemma keeps_r_respHeader: "(\<And>a. wf_map a \<Longrightarrow> wf_map (f a)) \<Longrightarrow> keeps_r (upd_respHeader f)"
  unfolding keeps_r_def by (intro allI impI) (rule upd_respHeader_ok)

lemma keeps_w_header: "(\<And>a. wf_map a \<Longrightarrow> wf_map (f a)) \<Longrightarrow> keeps_w (upd_wHeader f)"
  unfolding keeps_w_def by (intro allI impI) (rule upd_wHeader_ok [THEN spec, THEN mp])

lemma keeps_w_write [simp]:
  "keeps_w (\<lambda>w. case ReqResponse_Write b w of (n, w') \<Rightarrow> (Val (RLen n), w'))"
  "keeps_w (\<lambda>w. (Val RUnit, ReqResponse_WriteHeader n w))"
  by (simp_all add: keeps_w_def ReqResponse_Write_def ReqResponse_WriteHeader_def)

lemma keeps_io_calls [simp]: "keeps_io (Request_Var cd name)" "keeps_io (Request_Body cd)"
  unfolding keeps_io_def
  by (intro allI impI, rule Request_Var_ok, assumption+) (intro allI impI, rule Request_Body_ok, assumption+)

text \<open>Every method is of one of three kinds.\<close>

lemmas keeps_rules = keeps_r_upd_header Header_Set_ok Header_Del_ok keeps_r_args keeps_r_respHeader keeps_w_header wf_intros

lemma exec_req_kinds:
  "(\<exists>f. exec_req cd ro c = on_r f \<and> keeps_r f) \<or> (\<exists>f. exec_req cd ro c = on_w f \<and> keeps_w f) \<or>
   (\<exists>f. exec_req cd ro c = on_io f \<and> keeps_io f)"
  by (cases c; simp only: exec_req.simps;
      (rule disjI1, rule exI, rule conjI, rule refl, simp add: keeps_rules; fail
       | rule disjI2, rule disjI1, rule exI, rule conjI, rule refl, simp add: keeps_rules; fail
       | rule disjI2, rule disjI2, rule exI, rule conjI, rule refl, simp; fail))

lemma exec_req_inv:
  assumes "req_inv r0 s0 st" "exec_req cd ro c st = (v, st')"
  shows "req_inv r0 s0 st'"
  using exec_req_kinds [of cd ro c]
proof (elim disjE exE conjE)
  fix f assume "exec_req cd ro c = on_r f" "keeps_r f"
  with assms show ?thesis
    by (auto simp: req_inv_def on_r_def keeps_r_def split: prod.splits intro: req_kept_trans)
next
  fix f assume "exec_req cd ro c = on_w f" "keeps_w f"
  with assms show ?thesis
    by (fastforce simp: req_inv_def on_w_def keeps_w_def split: prod.splits)
next
  fix f assume "exec_req cd ro c = on_io f" "keeps_io f"
  with assms show ?thesis
    by (fastforce simp: req_inv_def on_io_def keeps_io_def split: prod.splits
        intro: req_kept_trans io_frame_trans)
qed

interpretation request_api: api_invariant "exec_req cd ro" "req_inv r0 s0" for cd ro r0 s0
  by unfold_locales (rule exec_req_inv)

subsection \<open>What a request filter cannot observe\<close>

text \<open>
  Two requests that differ in the contents of the header buffer, and in \<open>rawArgs\<close> while
  \<open>args\<close> is nil: the fields a reused object carries over from an earlier request.
\<close>

definition req_equiv :: "Request \<Rightarrow> Request \<Rightarrow> bool" where
  "req_equiv r r' \<longleftrightarrow> req_r r' = req_r r \<and> reqConn r' = reqConn r \<and> reqPath r' = reqPath r \<and>
     reqHdr r' = reqHdr r \<and> reqArgs r' = reqArgs r \<and> reqVars r' = reqVars r \<and> reqBody r' = reqBody r \<and>
     reqCtx r' = reqCtx r \<and> reqCancel r' = reqCancel r \<and> respHdr r' = respHdr r \<and>
     (reqArgs r \<noteq> None \<longrightarrow> rawArgs r' = rawArgs r)"

definition blind_r :: "(Request \<Rightarrow> api_ret rt \<times> Request) \<Rightarrow> bool" where
  "blind_r f \<longleftrightarrow> (\<forall>r r' v r1. req_equiv r r' \<longrightarrow> f r = (v, r1) \<longrightarrow> (\<exists>r1'. f r' = (v, r1') \<and> req_equiv r1 r1'))"

definition blind_io :: "(Request \<Rightarrow> io \<Rightarrow> (go_error + bytes option) rt \<times> Request \<times> io) \<Rightarrow> bool" where
  "blind_io f \<longleftrightarrow> (\<forall>r r' s v r1 s1. req_equiv r r' \<longrightarrow> f r s = (v, r1, s1) \<longrightarrow>
     (\<exists>r1'. f r' s = (v, r1', s1) \<and> req_equiv r1 r1'))"

lemma blind_r_getters [simp]:
  "blind_r (\<lambda>r. (map_rt f1 (Request_ID r), r))" "blind_r (\<lambda>r. (map_rt f2 (Request_SrcIP r), r))"
  "blind_r (\<lambda>r. (map_rt f3 (Request_Method cd r), r))" "blind_r (\<lambda>r. (map_rt f4 (Request_Path r), r))"
  "blind_r (\<lambda>r. (Val (RCtx (Request_Context r)), r))"
  by (auto simp: blind_r_def api_defs req_equiv_def split: option.splits)

lemma blind_r_setters [simp]:
  "blind_r (\<lambda>r. (Val RUnit, Request_SetPath p r))" "blind_r (\<lambda>r. (Val RUnit, Request_SetBody b r))"
  by (simp_all add: blind_r_def Request_SetPath_def Request_SetBody_def req_equiv_def)

lemma blind_r_header [simp]: "blind_r (upd_header f)" "blind_r (get_header_of g)"
  by (auto simp: blind_r_def upd_header_def get_header_of_def Request_Header_def with_r_def
      req_equiv_def split: option.splits rt.splits)

lemma blind_r_args [simp]: "blind_r (upd_args ro f)"
  by (auto simp: blind_r_def upd_args_def Request_Args_def with_r_def req_equiv_def
      split: option.splits rt.splits)

lemma blind_r_respHeader [simp]: "blind_r (upd_respHeader f)"
  by (auto simp: blind_r_def upd_respHeader_def Request_RespHeader_def req_equiv_def
      split: option.splits)

lemma Request_ask_blind:
  assumes "req_equiv r r'" "Request_askExtraInfo cd bd info r s = (res, bd', r1, s1)"
  shows "\<exists>r1'. Request_askExtraInfo cd bd info r' s = (res, bd', r1', s1) \<and> req_equiv r1 r1'"
proof -
  have "askExtraInfo cd (reqConn r') (extraInfoHeader r') bd info s =
      askExtraInfo cd (reqConn r) (extraInfoHeader r) bd info s"
    using assms(1) by (simp add: req_equiv_def askExtraInfo_buffer [of _ _ "extraInfoHeader r'" _ _ _ "extraInfoHeader r"])
  with assms show ?thesis
    by (auto simp: Request_askExtraInfo_def req_equiv_def split: prod.splits)
qed

lemma blind_io_Body [simp]: "blind_io (Request_Body cd)"
proof -
  have "\<exists>r1'. Request_Body cd r' s = (v, r1', s1) \<and> req_equiv r1 r1'"
    if eq: "req_equiv r r'" and u: "Request_Body cd r s = (v, r1, s1)" for r r' s v r1 s1
  proof -
    obtain bd t1 where g: "GetBuilder s = (bd, t1)" by (cases "GetBuilder s") auto
    obtain res bd' r2 t2 where ask: "Request_askExtraInfo cd bd InfoReqBody r t1 = (res, bd', r2, t2)"
      by (cases "Request_askExtraInfo cd bd InfoReqBody r t1") auto
    from Request_ask_blind [OF eq ask] obtain r2' where
      r2': "Request_askExtraInfo cd bd InfoReqBody r' t1 = (res, bd', r2', t2)" "req_equiv r2 r2'" by blast
    have b: "reqBody r' = reqBody r" using eq by (simp add: req_equiv_def)
    have s: "req_equiv (r2\<lparr>reqBody := x\<rparr>) (r2'\<lparr>reqBody := x\<rparr>)" for x
      using r2'(2) by (simp add: req_equiv_def)
    from u r2' s eq show ?thesis
      unfolding Request_Body_def b g Let_def prod.case ask
      by (auto split: option.splits list.splits rt.splits sum.splits)
  qed
  then show ?thesis unfolding blind_io_def by blast
qed

lemma blind_io_Var [simp]: "blind_io (Request_Var cd name)"
proof -
  have "\<exists>r1'. Request_Var cd name r' s = (v, r1', s1) \<and> req_equiv r1 r1'"
    if eq: "req_equiv r r'" and u: "Request_Var cd name r s = (v, r1, s1)" for r r' s v r1 s1
  proof -
    obtain bd t1 where g: "GetBuilder s = (bd, t1)" by (cases "GetBuilder s") auto
    have b: "reqVars r' = reqVars r" using eq by (simp add: req_equiv_def)
    let ?m = "case reqVars r of None \<Rightarrow> [] | Some m \<Rightarrow> m"
    have eq0: "req_equiv (r\<lparr>reqVars := Some ?m\<rparr>) (r'\<lparr>reqVars := Some ?m\<rparr>)"
      using eq by (simp add: req_equiv_def)
    obtain res bd' r2 t2 where
      ask: "Request_askExtraInfo cd bd (InfoVar name) (r\<lparr>reqVars := Some ?m\<rparr>) t1 = (res, bd', r2, t2)"
      by (cases "Request_askExtraInfo cd bd (InfoVar name) (r\<lparr>reqVars := Some ?m\<rparr>) t1") auto
    from Request_ask_blind [OF eq0 ask] obtain r2' where
      r2': "Request_askExtraInfo cd bd (InfoVar name) (r'\<lparr>reqVars := Some ?m\<rparr>) t1 = (res, bd', r2', t2)"
        "req_equiv r2 r2'" by blast
    have s: "req_equiv (r2\<lparr>reqVars := x\<rparr>) (r2'\<lparr>reqVars := x\<rparr>)" for x
      using r2'(2) by (simp add: req_equiv_def)
    from u r2' s eq0 show ?thesis
      unfolding Request_Var_def b g Let_def prod.case ask
      by (auto split: option.splits rt.splits sum.splits)
  qed
  then show ?thesis unfolding blind_io_def by blast
qed

definition req_rel :: "req_state \<Rightarrow> req_state \<Rightarrow> bool" where
  "req_rel st st' \<longleftrightarrow> fst st = fst st' \<and> req_equiv (fst (snd st)) (fst (snd st')) \<and> snd (snd st) = snd (snd st')"

lemma exec_req_blind:
  "(\<exists>f. exec_req cd ro c = on_r f \<and> blind_r f) \<or> (\<exists>f. exec_req cd ro c = on_w f) \<or>
   (\<exists>f. exec_req cd ro c = on_io f \<and> blind_io f)"
  by (cases c; simp only: exec_req.simps;
      (rule disjI1, rule exI, rule conjI, rule refl, simp; fail
       | rule disjI2, rule disjI1, rule exI, rule refl
       | rule disjI2, rule disjI2, rule exI, rule conjI, rule refl, simp; fail))

interpretation request_blind: api_relation "exec_req cd ro" req_rel for cd ro
proof
  fix st st' :: req_state and c res st1
  assume rel: "req_rel st st'" and e: "exec_req cd ro c st = (res, st1)"
  obtain w r s where st: "st = (w, r, s)" by (cases st) auto
  obtain w' r' s' where st': "st' = (w', r', s')" by (cases st') auto
  from rel have eq: "w' = w" "req_equiv r r'" "s' = s" by (auto simp: req_rel_def st st')
  show "\<exists>t'. exec_req cd ro c st' = (res, t') \<and> req_rel st1 t'"
    using exec_req_blind [of cd ro c]
  proof (elim disjE exE conjE)
    fix f assume f: "exec_req cd ro c = on_r f" "blind_r f"
    obtain v r1 where r1: "f r = (v, r1)" by (cases "f r") auto
    with f(2) eq(2) obtain r1' where "f r' = (v, r1')" "req_equiv r1 r1'" unfolding blind_r_def by blast
    with f(1) r1 e eq show ?thesis by (auto simp: on_r_def st st' req_rel_def)
  next
    fix f assume "exec_req cd ro c = on_w f"
    with e eq show ?thesis by (auto simp: on_w_def st st' req_rel_def split: prod.splits)
  next
    fix f assume f: "exec_req cd ro c = on_io f" "blind_io f"
    obtain v r1 s1 where r1: "f r s = (v, r1, s1)" by (cases "f r s") auto
    with f(2) eq(2) obtain r1' where "f r' s = (v, r1', s1)" "req_equiv r1 r1'" unfolding blind_io_def by blast
    with f(1) r1 e eq show ?thesis by (auto simp: on_io_def st st' req_rel_def)
  qed
qed

subsection \<open>Invariants of response filters\<close>

definition resp_kept :: "Response \<Rightarrow> Response \<Rightarrow> bool" where
  "resp_kept r r' \<longleftrightarrow> resp_r r' = resp_r r \<and> respConn r' = respConn r"

definition resp_inv :: "Response \<Rightarrow> io \<Rightarrow> resp_state \<Rightarrow> bool" where
  "resp_inv r0 s0 st \<longleftrightarrow> (case st of (r, s) \<Rightarrow> response_ok r \<and> resp_kept r0 r \<and> io_frame s0 s)"

lemma Response_Header_ok:
  "response_ok r \<Longrightarrow> Response_Header r = Val (h, r') \<Longrightarrow> header_ok h \<and> response_ok r' \<and> resp_kept r r'"
  by (auto simp: Response_Header_def with_resp_def response_ok_def resp_kept_def split: option.splits rt.splits)

lemma resp_upd_header_ok:
  assumes "response_ok r" "\<And>h. header_ok h \<Longrightarrow> header_ok (f h)" "resp_upd_header f r = (v, r')"
  shows "response_ok r' \<and> resp_kept r r'"
  using assms Response_Header_ok [OF assms(1)]
  by (auto simp: resp_upd_header_def response_ok_def resp_kept_def split: rt.splits)

lemma resp_get_header_ok:
  assumes "response_ok r" "resp_get_header f r = (v, r')"
  shows "response_ok r' \<and> resp_kept r r'"
  using assms Response_Header_ok [OF assms(1)]
  by (auto simp: resp_get_header_def resp_kept_def split: rt.splits)

lemma Response_ask_frame:
  "Response_askExtraInfo cd bd info r s = (res, bd', r', s') \<Longrightarrow>
    io_frame s s' \<and> (\<exists>h. r' = r\<lparr>respInfoHeader := h\<rparr>)"
  by (auto simp: Response_askExtraInfo_def dest: askExtraInfo_frame split: prod.splits)

lemma Response_Var_ok:
  assumes "response_ok r" "Response_Var cd name r s = (v, r', s')"
  shows "response_ok r' \<and> resp_kept r r' \<and> io_frame s s'"
proof (cases "response_vars r name")
  case (Some x)
  from response_var.var_hit [OF this, of cd s] assms show ?thesis by (simp add: resp_kept_def)
next
  case None
  obtain bd s1 where g: "GetBuilder s = (bd, s1)" by (cases "GetBuilder s") auto
  let ?m = "case respVars r of None \<Rightarrow> [] | Some m \<Rightarrow> m"
  obtain res bd' r1 s2 where
    ask: "Response_askExtraInfo cd bd (InfoVar name) (r\<lparr>respVars := Some ?m\<rparr>) s1 = (res, bd', r1, s2)"
    by (cases "Response_askExtraInfo cd bd (InfoVar name) (r\<lparr>respVars := Some ?m\<rparr>) s1") auto
  have m: "map_of ?m name = None" "wf_map ?m"
    using None assms(1) by (auto simp: response_vars_def response_ok_def split: option.splits)
  from Response_ask_frame [OF ask] obtain h where
    r1: "r1 = r\<lparr>respVars := Some ?m, respInfoHeader := h\<rparr>" and fr: "io_frame s1 s2" by auto
  from io_frame_trans [OF io_frame_GetBuilder [OF g] fr] have f: "io_frame s s2" .
  have f': "io_frame s (PutBuilder b s2)" for b by (rule io_frame_trans [OF f io_frame_PutBuilder])
  have ok: "response_ok r1" "resp_kept r r1" "wf_map (AList.update name x ?m)" for x
    using assms(1) m by (auto simp: r1 response_ok_def resp_kept_def wf_intros)
  show ?thesis
    using assms(2) m(1) ok f f' unfolding Response_Var_def Let_def g ask prod.case
    by (auto simp: response_ok_def resp_kept_def split: rt.splits sum.splits)
qed

lemma Response_ReadBody_ok:
  assumes "response_ok r" "Response_ReadBody cd r s = (v, r', s')"
  shows "response_ok r' \<and> resp_kept r r' \<and> io_frame s s'"
proof -
  obtain bd s1 where g: "GetBuilder s = (bd, s1)" by (cases "GetBuilder s") auto
  obtain res bd' r1 s2 where ask: "Response_askExtraInfo cd bd InfoRespBody r s1 = (res, bd', r1, s2)"
    by (cases "Response_askExtraInfo cd bd InfoRespBody r s1") auto
  from Response_ask_frame [OF ask] obtain h where
    r1: "r1 = r\<lparr>respInfoHeader := h\<rparr>" and fr: "io_frame s1 s2" by auto
  from io_frame_trans [OF io_frame_GetBuilder [OF g] fr] have f: "io_frame s s2" .
  have f': "io_frame s (PutBuilder b s2)" for b by (rule io_frame_trans [OF f io_frame_PutBuilder])
  have ok: "response_ok r1" "resp_kept r r1" "resp_kept r r"
    using assms(1) by (auto simp: r1 response_ok_def resp_kept_def)
  show ?thesis
    using assms ok f f' unfolding Response_ReadBody_def Let_def g ask prod.case
    by (auto simp: response_ok_def resp_kept_def split: rt.splits sum.splits option.splits list.splits)
qed

lemma exec_resp_inv:
  assumes "resp_inv r0 s0 st" "exec_resp cd c st = (v, st')"
  shows "resp_inv r0 s0 st'"
proof -
  obtain r s where st: "st = (r, s)" by (cases st) auto
  obtain r' s' where st': "st' = (r', s')" by (cases st') auto
  from assms(1) have ok: "response_ok r" "resp_kept r0 r" "io_frame s0 s" by (simp_all add: resp_inv_def st)
  have "response_ok r' \<and> resp_kept r r' \<and> io_frame s s'"
  proof (cases c)
    case (RCallHeaderSet k x)
    with assms(2) resp_upd_header_ok [OF ok(1) Header_Set_ok] show ?thesis
      by (auto simp: st st' on_resp_def split: prod.splits)
  next
    case (RCallHeaderDel k)
    with assms(2) resp_upd_header_ok [OF ok(1) Header_Del_ok] show ?thesis
      by (auto simp: st st' on_resp_def split: prod.splits)
  next
    case (RCallHeaderGet k)
    with assms(2) resp_get_header_ok [OF ok(1)] show ?thesis
      by (auto simp: st st' on_resp_def split: prod.splits)
  next
    case RCallHeaderView
    with assms(2) resp_get_header_ok [OF ok(1)] show ?thesis
      by (auto simp: st st' on_resp_def split: prod.splits)
  next
    case (RCallVar name)
    with assms(2) Response_Var_ok [OF ok(1)] show ?thesis
      by (auto simp: st st' on_resp_io_def split: prod.splits)
  next
    case RCallReadBody
    with assms(2) Response_ReadBody_ok [OF ok(1)] show ?thesis
      by (auto simp: st st' on_resp_io_def split: prod.splits)
  qed (use assms(2) ok(1) in \<open>auto simp: st st' on_resp_def resp_kept_def response_ok_def
      Response_Write_def Response_WriteHeader_def split: if_splits\<close>)
  with ok show ?thesis by (auto simp: resp_inv_def st' resp_kept_def intro: io_frame_trans)
qed

interpretation response_api: api_invariant "exec_resp cd" "resp_inv r0 s0" for cd r0 s0
  by unfold_locales (rule exec_resp_inv)

subsection \<open>What a response filter cannot observe\<close>

text \<open>A reused response carries over the contents of its header buffer only.\<close>

definition resp_equiv :: "Response \<Rightarrow> Response \<Rightarrow> bool" where
  "resp_equiv r r' \<longleftrightarrow> (\<exists>h. r' = r\<lparr>respInfoHeader := h\<rparr>)"

definition resp_rel :: "resp_state \<Rightarrow> resp_state \<Rightarrow> bool" where
  "resp_rel st st' \<longleftrightarrow> resp_equiv (fst st) (fst st') \<and> snd st = snd st'"

definition blind_resp :: "(Response \<Rightarrow> api_ret rt \<times> Response) \<Rightarrow> bool" where
  "blind_resp f \<longleftrightarrow> (\<forall>r h. f (r\<lparr>respInfoHeader := h\<rparr>) = (fst (f r), (snd (f r))\<lparr>respInfoHeader := h\<rparr>))"

definition blind_resp_io :: "(Response \<Rightarrow> io \<Rightarrow> (go_error + bytes option) rt \<times> Response \<times> io) \<Rightarrow> bool" where
  "blind_resp_io f \<longleftrightarrow> (\<forall>r r' s v r1 s1. resp_equiv r r' \<longrightarrow> f r s = (v, r1, s1) \<longrightarrow>
     (\<exists>r1'. f r' s = (v, r1', s1) \<and> resp_equiv r1 r1'))"

lemma blind_resp_calls [simp]:
  "blind_resp (\<lambda>r. (map_rt f1 (Response_ID r), r))" "blind_resp (\<lambda>r. (map_rt f2 (Response_StatusCode r), r))"
  "blind_resp (resp_upd_header f3)" "blind_resp (resp_get_header f4)"
  "blind_resp (\<lambda>w. case Response_Write b w of (n, w') \<Rightarrow> (Val (RLen n), w'))"
  "blind_resp (\<lambda>w. (Val RUnit, Response_WriteHeader m w))"
  by (auto simp: blind_resp_def api_defs resp_upd_header_def resp_get_header_def
      split: option.splits rt.splits)

lemma Response_ask_blind:
  assumes "resp_equiv r r'" "Response_askExtraInfo cd bd info r s = (res, bd', r1, s1)"
  shows "\<exists>r1'. Response_askExtraInfo cd bd info r' s = (res, bd', r1', s1) \<and> resp_equiv r1 r1'"
proof -
  have "askExtraInfo cd (respConn r') (respInfoHeader r') bd info s =
      askExtraInfo cd (respConn r) (respInfoHeader r) bd info s"
    using assms(1) by (auto simp: resp_equiv_def intro: askExtraInfo_buffer)
  with assms show ?thesis
    by (auto simp: Response_askExtraInfo_def resp_equiv_def split: prod.splits)
qed

lemma resp_equiv_upd:
  assumes "resp_equiv r r'"
  shows "resp_equiv (r\<lparr>respVars := m\<rparr>) (r'\<lparr>respVars := m\<rparr>)"
    "resp_equiv (r\<lparr>originBody := b\<rparr>) (r'\<lparr>originBody := b\<rparr>)"
proof -
  from assms obtain h where "r' = r\<lparr>respInfoHeader := h\<rparr>" by (auto simp: resp_equiv_def)
  then have "r'\<lparr>respVars := m\<rparr> = (r\<lparr>respVars := m\<rparr>)\<lparr>respInfoHeader := h\<rparr>"
    "r'\<lparr>originBody := b\<rparr> = (r\<lparr>originBody := b\<rparr>)\<lparr>respInfoHeader := h\<rparr>" by simp_all
  then show "resp_equiv (r\<lparr>respVars := m\<rparr>) (r'\<lparr>respVars := m\<rparr>)"
    "resp_equiv (r\<lparr>originBody := b\<rparr>) (r'\<lparr>originBody := b\<rparr>)" unfolding resp_equiv_def by blast+
qed

lemma blind_resp_io_Var [simp]: "blind_resp_io (Response_Var cd name)"
proof -
  have "\<exists>r1'. Response_Var cd name r' s = (v, r1', s1) \<and> resp_equiv r1 r1'"
    if eq: "resp_equiv r r'" and u: "Response_Var cd name r s = (v, r1, s1)" for r r' s v r1 s1
  proof -
    obtain bd t1 where g: "GetBuilder s = (bd, t1)" by (cases "GetBuilder s") auto
    have b: "respVars r' = respVars r" using eq by (auto simp: resp_equiv_def)
    let ?m = "case respVars r of None \<Rightarrow> [] | Some m \<Rightarrow> m"
    note eq0 = resp_equiv_upd(1) [OF eq, of "Some ?m"]
    obtain res bd' r2 t2 where
      ask: "Response_askExtraInfo cd bd (InfoVar name) (r\<lparr>respVars := Some ?m\<rparr>) t1 = (res, bd', r2, t2)"
      by (cases "Response_askExtraInfo cd bd (InfoVar name) (r\<lparr>respVars := Some ?m\<rparr>) t1") auto
    from Response_ask_blind [OF eq0 ask] obtain r2' where
      r2': "Response_askExtraInfo cd bd (InfoVar name) (r'\<lparr>respVars := Some ?m\<rparr>) t1 = (res, bd', r2', t2)"
        "resp_equiv r2 r2'" by blast
    from u r2' resp_equiv_upd(1) [OF r2'(2)] eq0 show ?thesis
      unfolding Response_Var_def b g Let_def prod.case ask
      by (auto split: option.splits rt.splits sum.splits)
  qed
  then show ?thesis unfolding blind_resp_io_def by blast
qed

lemma blind_resp_io_ReadBody [simp]: "blind_resp_io (Response_ReadBody cd)"
proof -
  have "\<exists>r1'. Response_ReadBody cd r' s = (v, r1', s1) \<and> resp_equiv r1 r1'"
    if eq: "resp_equiv r r'" and u: "Response_ReadBody cd r s = (v, r1, s1)" for r r' s v r1 s1
  proof -
    obtain bd t1 where g: "GetBuilder s = (bd, t1)" by (cases "GetBuilder s") auto
    obtain res bd' r2 t2 where ask: "Response_askExtraInfo cd bd InfoRespBody r t1 = (res, bd', r2, t2)"
      by (cases "Response_askExtraInfo cd bd InfoRespBody r t1") auto
    from Response_ask_blind [OF eq ask] obtain r2' where
      r2': "Response_askExtraInfo cd bd InfoRespBody r' t1 = (res, bd', r2', t2)" "resp_equiv r2 r2'" by blast
    have b: "originBody r' = originBody r" using eq by (auto simp: resp_equiv_def)
    from u r2' resp_equiv_upd(2) [OF r2'(2)] eq show ?thesis
      unfolding Response_ReadBody_def b g Let_def prod.case ask
      by (auto split: option.splits list.splits rt.splits sum.splits)
  qed
  then show ?thesis unfolding blind_resp_io_def by blast
qed

lemma exec_resp_blind:
  "(\<exists>f. exec_resp cd c = on_resp f \<and> blind_resp f) \<or> (\<exists>f. exec_resp cd c = on_resp_io f \<and> blind_resp_io f)"
  by (cases c; simp only: exec_resp.simps;
      (rule disjI1, rule exI, rule conjI, rule refl, simp; fail
       | rule disjI2, rule exI, rule conjI, rule refl, simp; fail))

interpretation response_blind: api_relation "exec_resp cd" resp_rel for cd
proof
  fix st st' :: resp_state and c res st1
  assume rel: "resp_rel st st'" and e: "exec_resp cd c st = (res, st1)"
  obtain r s where st: "st = (r, s)" by (cases st)
  with rel obtain h where st': "st' = (r\<lparr>respInfoHeader := h\<rparr>, s)"
    by (cases st') (auto simp: resp_rel_def resp_equiv_def)
  show "\<exists>t'. exec_resp cd c st' = (res, t') \<and> resp_rel st1 t'"
    using exec_resp_blind [of cd c]
  proof (elim disjE exE conjE)
    fix f assume f: "exec_resp cd c = on_resp f" "blind_resp f"
    then have "f (r\<lparr>respInfoHeader := h\<rparr>) = (fst (f r), (snd (f r))\<lparr>respInfoHeader := h\<rparr>)"
      by (simp add: blind_resp_def)
    with f(1) e show ?thesis
      by (auto simp: on_resp_def st st' resp_rel_def resp_equiv_def split: prod.splits)
  next
    fix f assume f: "exec_resp cd c = on_resp_io f" "blind_resp_io f"
    obtain v r1 s1 where r1: "f r s = (v, r1, s1)" by (cases "f r s") auto
    have "resp_equiv r (r\<lparr>respInfoHeader := h\<rparr>)" by (auto simp: resp_equiv_def)
    with f(2) r1 obtain r1' where "f (r\<lparr>respInfoHeader := h\<rparr>) s = (v, r1', s1)" "resp_equiv r1 r1'"
      unfolding blind_resp_io_def by blast
    with f(1) r1 e show ?thesis by (auto simp: on_resp_io_def st st' resp_rel_def)
  qed
qed

subsection \<open>What filters do to the connection\<close>

text \<open>Without any assumption on the objects, a filter only consumes input.\<close>

lemma Request_Var_frame: "Request_Var cd name r s = (v, r', s') \<Longrightarrow> io_frame s s'"
proof -
  assume v: "Request_Var cd name r s = (v, r', s')"
  obtain bd s1 where g: "GetBuilder s = (bd, s1)" by (cases "GetBuilder s") auto
  have "io_frame s s2" if "Request_askExtraInfo cd bd i q s1 = (x, b, q', s2)" for i q x b q' s2
    using io_frame_trans [OF io_frame_GetBuilder [OF g]] Request_ask_frame [OF that] by blast
  with v show ?thesis unfolding Request_Var_def Let_def g prod.case
    by (auto split: option.splits prod.splits rt.splits sum.splits intro: io_frame_trans [OF _ io_frame_PutBuilder])
qed

lemma Request_Body_frame: "Request_Body cd r s = (v, r', s') \<Longrightarrow> io_frame s s'"
proof -
  assume v: "Request_Body cd r s = (v, r', s')"
  obtain bd s1 where g: "GetBuilder s = (bd, s1)" by (cases "GetBuilder s") auto
  have "io_frame s s2" if "Request_askExtraInfo cd bd i q s1 = (x, b, q', s2)" for i q x b q' s2
    using io_frame_trans [OF io_frame_GetBuilder [OF g]] Request_ask_frame [OF that] by blast
  with v show ?thesis unfolding Request_Body_def Let_def g prod.case
    by (auto split: option.splits list.splits prod.splits rt.splits sum.splits)
qed

lemma Response_Var_frame: "Response_Var cd name r s = (v, r', s') \<Longrightarrow> io_frame s s'"
proof -
  assume v: "Response_Var cd name r s = (v, r', s')"
  obtain bd s1 where g: "GetBuilder s = (bd, s1)" by (cases "GetBuilder s") auto
  have "io_frame s s2" if "Response_askExtraInfo cd bd i q s1 = (x, b, q', s2)" for i q x b q' s2
    using io_frame_trans [OF io_frame_GetBuilder [OF g]] Response_ask_frame [OF that] by blast
  with v show ?thesis unfolding Response_Var_def Let_def g prod.case
    by (auto split: option.splits prod.splits rt.splits sum.splits intro: io_frame_trans [OF _ io_frame_PutBuilder])
qed

lemma Response_ReadBody_frame: "Response_ReadBody cd r s = (v, r', s') \<Longrightarrow> io_frame s s'"
proof -
  assume v: "Response_ReadBody cd r s = (v, r', s')"
  obtain bd s1 where g: "GetBuilder s = (bd, s1)" by (cases "GetBuilder s") auto
  have "io_frame s s2" if "Response_askExtraInfo cd bd i q s1 = (x, b, q', s2)" for i q x b q' s2
    using io_frame_trans [OF io_frame_GetBuilder [OF g]] Response_ask_frame [OF that] by blast
  with v show ?thesis unfolding Response_ReadBody_def Let_def g prod.case
    by (auto split: option.splits list.splits prod.splits rt.splits sum.splits intro: io_frame_trans [OF _ io_frame_PutBuilder])
qed

definition req_framed :: "io \<Rightarrow> req_state \<Rightarrow> bool" where
  "req_framed s0 st \<longleftrightarrow> io_frame s0 (snd (snd st))"

definition resp_framed :: "io \<Rightarrow> resp_state \<Rightarrow> bool" where
  "resp_framed s0 st \<longleftrightarrow> io_frame s0 (snd st)"

interpretation request_frame: api_invariant "exec_req cd ro" "req_framed s0" for cd ro s0
proof
  fix st c res st'
  assume f: "req_framed s0 st" and e: "exec_req cd ro c st = (res, st')"
  have r: "req_framed s0 st'" if "exec_req cd ro c = on_r g" for g
    using that f e by (auto simp: on_r_def req_framed_def split: prod.splits)
  have w: "req_framed s0 st'" if "exec_req cd ro c = on_w g" for g
    using that f e by (auto simp: on_w_def req_framed_def split: prod.splits)
  show "req_framed s0 st'"
  proof (cases c)
    case (CallVar name)
    with f e show ?thesis
      by (auto simp: on_io_def req_framed_def split: prod.splits dest!: Request_Var_frame intro: io_frame_trans)
  next
    case CallBody
    with f e show ?thesis
      by (auto simp: on_io_def req_framed_def split: prod.splits dest!: Request_Body_frame intro: io_frame_trans)
  qed (auto intro: r w)
qed

interpretation response_frame: api_invariant "exec_resp cd" "resp_framed s0" for cd s0
proof
  fix st :: resp_state and c res and st' :: resp_state
  assume f: "resp_framed s0 st" and e: "exec_resp cd c st = (res, st')"
  have r: "resp_framed s0 st'" if "exec_resp cd c = on_resp g" for g
    using that f e by (auto simp: on_resp_def resp_framed_def split: prod.splits)
  obtain r1 s1 where st': "st' = (r1, s1)" by (cases st')
  show "resp_framed s0 st'"
  proof (cases c)
    case (RCallVar name)
    with f e show ?thesis
      by (auto simp: on_resp_io_def resp_framed_def st' split: prod.splits dest!: Response_Var_frame intro: io_frame_trans)
  next
    case RCallReadBody
    with f e show ?thesis
      by (auto simp: on_resp_io_def resp_framed_def st' split: prod.splits dest!: Response_ReadBody_frame intro: io_frame_trans)
  qed (auto intro: r)
qed

end
