(* ===== verification/Plugin_Registry.thy ===== *)
theory Plugin_Registry
  imports Plugin_Api
begin

section \<open>The plugin registry (internal/plugin/plugin.go)\<close>

text \<open>
  Plugins register under a name, once, before the runner serves requests.  The type \<open>'c\<close>
  stands for \<open>interface{}\<close>, the parsed configuration that only the plugin looks into.  The
  registry's mutex makes each registration one step; a nil function is \<open>None\<close>.
\<close>

record 'c pluginOpts =
  ParseConf :: "bytes option \<Rightarrow> (go_error + 'c) rt"
  RequestFilter :: "'c \<Rightarrow> req_call prog"
  ResponseFilter :: "'c \<Rightarrow> resp_call prog"

type_synonym 'c registry = "(string, 'c pluginOpts) gomap"

definition RegisterPlugin ::
  "string \<Rightarrow> (bytes option \<Rightarrow> (go_error + 'c) rt) option \<Rightarrow> ('c \<Rightarrow> req_call prog) option \<Rightarrow>
   ('c \<Rightarrow> resp_call prog) option \<Rightarrow> 'c registry \<Rightarrow> go_error option \<times> 'c registry" where
  "RegisterPlugin name pc sv rsv reg =
     (if name = [] then (Some ErrMissingName, reg)
      else case pc of None \<Rightarrow> (Some ErrMissingParseConfMethod, reg)
      | Some pc' \<Rightarrow> (case sv of None \<Rightarrow> (Some ErrMissingRequestFilterMethod, reg)
      | Some sv' \<Rightarrow> (case rsv of None \<Rightarrow> (Some ErrMissingResponseFilterMethod, reg)
      | Some rsv' \<Rightarrow>
          (let opt = \<lparr>ParseConf = pc', RequestFilter = sv', ResponseFilter = rsv'\<rparr>
           in if map_of reg name \<noteq> None then (Some (ErrPluginRegistered name), reg)
              else (None, AList.update name opt reg)))))"

text \<open>The text of an \<open>ErrPluginRegistered\<close>.\<close>

definition ErrPluginRegistered_Error :: "string \<Rightarrow> string" where
  "ErrPluginRegistered_Error name = ''plugin '' @ name @ '' registered''"

definition findPlugin :: "'c registry \<Rightarrow> string \<Rightarrow> 'c pluginOpts option" where
  "findPlugin reg name = map_of reg name"

text \<open>The registrations of a program, one after the other.\<close>

record 'c registration =
  regName :: string
  regParse :: "(bytes option \<Rightarrow> (go_error + 'c) rt) option"
  regReq :: "('c \<Rightarrow> req_call prog) option"
  regResp :: "('c \<Rightarrow> resp_call prog) option"

fun register_all :: "'c registration list \<Rightarrow> 'c registry \<Rightarrow> 'c registry" where
  "register_all [] reg = reg"
| "register_all (x # xs) reg =
     register_all xs (snd (RegisterPlugin (regName x) (regParse x) (regReq x) (regResp x) reg))"

subsection \<open>What the registry holds\<close>

definition opts_of :: "'c registration \<Rightarrow> 'c pluginOpts option" where
  "opts_of x = (case (regParse x, regReq x, regResp x) of
     (Some p, Some q, Some r) \<Rightarrow>
       (if regName x = [] then None
        else Some \<lparr>ParseConf = p, RequestFilter = q, ResponseFilter = r\<rparr>)
   | _ \<Rightarrow> None)"

fun first_opts :: "string \<Rightarrow> 'c registration list \<Rightarrow> 'c pluginOpts option" where
  "first_opts name [] = None"
| "first_opts name (x # xs) =
     (if regName x = name \<and> opts_of x \<noteq> None then opts_of x else first_opts name xs)"

lemma RegisterPlugin_map_of:
  "map_of (snd (RegisterPlugin (regName x) (regParse x) (regReq x) (regResp x) reg)) name =
    (if map_of reg name = None \<and> regName x = name \<and> opts_of x \<noteq> None then opts_of x
     else map_of reg name)"
  by (auto simp: RegisterPlugin_def opts_of_def Let_def split: option.splits)

lemma register_all_find:
  "findPlugin (register_all xs reg) name =
    (case map_of reg name of Some p \<Rightarrow> Some p | None \<Rightarrow> first_opts name xs)"
proof (induction xs arbitrary: reg)
  case (Cons x xs)
  show ?case
    by (simp only: register_all.simps Cons.IH RegisterPlugin_map_of)
      (auto split: option.splits)
qed (simp add: findPlugin_def split: option.splits)

text \<open>Registration is at most once per name.  A registration fails exactly when the name is
  empty, a function is missing or the name is taken, it then leaves the registry as it was,
  and after any sequence of registrations a lookup finds the first complete registration
  under the name, which no later one replaces.\<close>

lemma RegisterPlugin_first_wins:
  "(fst (RegisterPlugin (regName x) (regParse x) (regReq x) (regResp x) reg) = None \<longleftrightarrow>
      opts_of x \<noteq> None \<and> findPlugin reg (regName x) = None) \<and>
   (fst (RegisterPlugin (regName x) (regParse x) (regReq x) (regResp x) reg) = None \<or>
      snd (RegisterPlugin (regName x) (regParse x) (regReq x) (regResp x) reg) = reg) \<and>
   findPlugin (register_all xs []) name = first_opts name xs"
  by (auto simp: RegisterPlugin_def opts_of_def findPlugin_def Let_def register_all_find
      [unfolded findPlugin_def] split: option.splits)

end
