(* ===== verification/Conf.thy ===== *)
theory Conf
  imports Plugin_Registry
begin

section \<open>The configuration cache (internal/plugin/conf.go)\<close>

text \<open>
  APISIX prepares the plugin configurations of a route once (\<open>PrepareConf\<close>) and refers to
  them by a token in every later call.  Two caches hold the state: token to parsed
  configurations, and idempotence key to token.

  The TTL cache (\<open>github.com/ReneKroon/ttlcache\<close>) is not part of the repository: its
  operations are the record \<open>ttl_ops\<close> and its state the type \<open>'k\<close>.  What the code relies on
  is \<open>ttl_spec\<close>: \<open>Get\<close> returns the live value under the key or \<open>ErrNotFound\<close> and \<open>Set\<close> makes
  the value live, where \<open>live\<close> is the map of the entries that have not expired.  Expiry is a
  change of the cache state between two calls.  The mutex of \<open>Set\<close> makes each call one step.
\<close>

datatype 'c cache_val = CToken u32 | CConf "(string \<times> 'c) list"

record ('k, 'c) ttl_ops =
  ttlNewCache :: 'k
  ttlSetTTL :: "int \<Rightarrow> 'k \<Rightarrow> go_error option \<times> 'k"
  ttlSkipTTLExtensionOnHit :: "bool \<Rightarrow> 'k \<Rightarrow> 'k"
  ttlGet :: "string \<Rightarrow> 'k \<Rightarrow> (go_error + 'c cache_val) \<times> 'k"
  ttlSet :: "string \<Rightarrow> 'c cache_val \<Rightarrow> 'k \<Rightarrow> go_error option \<times> 'k"

definition ttl_spec :: "('k, 'c) ttl_ops \<Rightarrow> ('k \<Rightarrow> string \<Rightarrow> 'c cache_val option) \<Rightarrow> bool" where
  "ttl_spec T live \<longleftrightarrow>
     (\<forall>k s. \<exists>s'. ttlGet T k s = (case live s k of Some v \<Rightarrow> Inr v | None \<Rightarrow> Inl ErrNotFound, s') \<and>
        live s' = live s) \<and>
     (\<forall>k v s. \<exists>s'. ttlSet T k v s = (None, s') \<and> live s' = (live s)(k \<mapsto> v)) \<and>
     (\<forall>k. live (ttlNewCache T) k = None) \<and>
     (\<forall>n s. live (snd (ttlSetTTL T n s)) = live s) \<and>
     (\<forall>b s. live (ttlSkipTTLExtensionOnHit T b s) = live s)"

subsection \<open>strconv.FormatInt in base 10\<close>

fun FormatInt :: "nat \<Rightarrow> string" where
  "FormatInt n = (if n < 10 then [char_of (48 + n)] else FormatInt (n div 10) @ [char_of (48 + n mod 10)])"

declare FormatInt.simps [simp del]

definition decimal_value :: "string \<Rightarrow> nat" where
  "decimal_value s = foldl (\<lambda>acc c. 10 * acc + (of_char c - 48)) 0 s"

lemma decimal_value_FormatInt [simp]: "decimal_value (FormatInt n) = n"
proof (induction n rule: FormatInt.induct)
  case (1 n)
  show ?case
  proof (cases "n < 10")
    case True
    then show ?thesis by (simp add: FormatInt.simps decimal_value_def)
  next
    case False
    with 1 show ?thesis
      by (subst FormatInt.simps) (simp add: decimal_value_def)
  qed
qed

lemma FormatInt_inject [simp]: "FormatInt m = FormatInt n \<longleftrightarrow> m = n"
  by (metis decimal_value_FormatInt)

definition token_key :: "u32 \<Rightarrow> string" where
  "token_key t = FormatInt (unat t)"

lemma token_key_inject [simp]: "token_key t = token_key u \<longleftrightarrow> t = u"
  by (simp add: token_key_def word_unat_eq_iff)

subsection \<open>The cache\<close>

record 'k ConfCache =
  tokenCache :: 'k
  keyCache :: 'k
  tokenCounter :: u32

text \<open>\<open>log.Fatalf\<close> ends the process: \<open>None\<close>.\<close>

definition newTTLCache :: "('k, 'c) ttl_ops \<Rightarrow> int \<Rightarrow> 'k option" where
  "newTTLCache T ttl =
     (case ttlSetTTL T ttl (ttlNewCache T) of
        (Some e, c) \<Rightarrow> None
      | (None, c) \<Rightarrow> Some (ttlSkipTTLExtensionOnHit T False c))"

definition newConfCache :: "('k, 'c) ttl_ops \<Rightarrow> int \<Rightarrow> 'k ConfCache option" where
  "newConfCache T ttl =
     (case newTTLCache T ttl of None \<Rightarrow> None
      | Some c1 \<Rightarrow> (case newTTLCache T ttl of None \<Rightarrow> None
      | Some c2 \<Rightarrow> Some \<lparr>tokenCache = c1, keyCache = c2, tokenCounter = 0\<rparr>))"

text \<open>The loop over the configurations of the request: a plugin that is not registered or does
  not accept its configuration is skipped.\<close>

fun parse_confs :: "'c registry \<Rightarrow> text_entry option list \<Rightarrow> (string \<times> 'c) list rt" where
  "parse_confs reg [] = Val []"
| "parse_confs reg (None # es) = parse_confs reg es"
| "parse_confs reg (Some te # es) =
     (let name = go_string_opt (teName te)
      in case findPlugin reg name of
           None \<Rightarrow> parse_confs reg es
         | Some plugin \<Rightarrow>
             (case ParseConf plugin (teValue te) of
                Panic \<Rightarrow> Panic
              | Val (Inl err) \<Rightarrow> parse_confs reg es
              | Val (Inr conf) \<Rightarrow>
                  (case parse_confs reg es of Panic \<Rightarrow> Panic | Val cs \<Rightarrow> Val ((name, conf) # cs))))"

definition store_conf ::
  "('k, 'c) ttl_ops \<Rightarrow> string \<Rightarrow> (string \<times> 'c) list \<Rightarrow> 'k ConfCache \<Rightarrow> (go_error + u32) \<times> 'k ConfCache" where
  "store_conf T key entries cc =
     (let token = tokenCounter cc + 1;
          cc1 = cc\<lparr>tokenCounter := token\<rparr>
      in case ttlSet T (token_key token) (CConf entries) (tokenCache cc1) of
           (Some err, tc) \<Rightarrow> (Inl err, cc1\<lparr>tokenCache := tc\<rparr>)
         | (None, tc) \<Rightarrow>
             (case ttlSet T key (CToken token) (keyCache cc1) of
                (Some err, kc) \<Rightarrow> (Inl err, cc1\<lparr>tokenCache := tc, keyCache := kc\<rparr>)
              | (None, kc) \<Rightarrow> (Inr token, cc1\<lparr>tokenCache := tc, keyCache := kc\<rparr>)))"

definition ConfCache_Set ::
  "('k, 'c) ttl_ops \<Rightarrow> 'c registry \<Rightarrow> preq \<Rightarrow> 'k ConfCache \<Rightarrow> (go_error + u32) rt \<times> 'k ConfCache" where
  "ConfCache_Set T reg req cc =
     (let key = go_string_opt (pqKey req);
          miss = (\<lambda>cc. case parse_confs reg (pqConf req) of
             Panic \<Rightarrow> (Panic, cc)
           | Val entries \<Rightarrow> (case store_conf T key entries cc of (res, cc') \<Rightarrow> (Val res, cc')))
      in if key \<noteq> [] then
           (case ttlGet T key (keyCache cc) of
              (Inr (CToken t), kc) \<Rightarrow> (Val (Inr t), cc\<lparr>keyCache := kc\<rparr>)
            | (Inr (CConf c), kc) \<Rightarrow> (Panic, cc\<lparr>keyCache := kc\<rparr>)
            | (Inl err, kc) \<Rightarrow> miss (cc\<lparr>keyCache := kc\<rparr>))
         else miss cc)"

definition ConfCache_SetInTest ::
  "('k, 'c) ttl_ops \<Rightarrow> u32 \<Rightarrow> (string \<times> 'c) list \<Rightarrow> 'k ConfCache \<Rightarrow> go_error option \<times> 'k ConfCache" where
  "ConfCache_SetInTest T token entries cc =
     (case ttlSet T (token_key token) (CConf entries) (tokenCache cc) of
        (err, tc) \<Rightarrow> (err, cc\<lparr>tokenCache := tc\<rparr>))"

definition ConfCache_Get ::
  "('k, 'c) ttl_ops \<Rightarrow> u32 \<Rightarrow> 'k ConfCache \<Rightarrow> (go_error + (string \<times> 'c) list) rt \<times> 'k ConfCache" where
  "ConfCache_Get T token cc =
     (case ttlGet T (token_key token) (tokenCache cc) of
        (Inl err, tc) \<Rightarrow> (Val (Inl err), cc\<lparr>tokenCache := tc\<rparr>)
      | (Inr (CConf c), tc) \<Rightarrow> (Val (Inr c), cc\<lparr>tokenCache := tc\<rparr>)
      | (Inr (CToken t), tc) \<Rightarrow> (Panic, cc\<lparr>tokenCache := tc\<rparr>))"

text \<open>\<open>PrepareConf\<close> answers with the token.\<close>

definition PrepareConf ::
  "codec \<Rightarrow> ('k, 'c) ttl_ops \<Rightarrow> 'c registry \<Rightarrow> bytes \<Rightarrow> 'k ConfCache \<Rightarrow> io \<Rightarrow>
   (go_error + builder) rt \<times> 'k ConfCache \<times> io" where
  "PrepareConf cd T reg buf cc s =
     (case GetRootAsPrepareConf cd buf of
        Panic \<Rightarrow> (Panic, cc, s)
      | Val req \<Rightarrow>
          (case ConfCache_Set T reg req cc of
             (Panic, cc') \<Rightarrow> (Panic, cc', s)
           | (Val (Inl err), cc') \<Rightarrow> (Val (Inl err), cc', s)
           | (Val (Inr token), cc') \<Rightarrow>
               (let (bd, s') = GetBuilder s
                in (Val (Inr (Finish (MsgPrepareConfResp token) bd)), cc', s'))))"

definition GetRuleConf ::
  "('k, 'c) ttl_ops \<Rightarrow> u32 \<Rightarrow> 'k ConfCache \<Rightarrow> (go_error + (string \<times> 'c) list) rt \<times> 'k ConfCache" where
  "GetRuleConf T token cc = ConfCache_Get T token cc"

text \<open>\<open>InitConfCache\<close> replaces the cache of the process; \<open>None\<close> is \<open>log.Fatalf\<close>.\<close>

definition InitConfCache :: "('k, 'c) ttl_ops \<Rightarrow> int \<Rightarrow> 'k ConfCache option" where
  "InitConfCache T ttl = newConfCache T ttl"

definition SetRuleConfInTest ::
  "('k, 'c) ttl_ops \<Rightarrow> u32 \<Rightarrow> (string \<times> 'c) list \<Rightarrow> 'k ConfCache \<Rightarrow> go_error option \<times> 'k ConfCache" where
  "SetRuleConfInTest T token conf cc = ConfCache_SetInTest T token conf cc"

subsection \<open>Laws of the two caches\<close>

lemma ttl_Get:
  "ttl_spec T live \<Longrightarrow> \<exists>s'. ttlGet T k s = (case live s k of Some v \<Rightarrow> Inr v | None \<Rightarrow> Inl ErrNotFound, s') \<and>
    live s' = live s"
  unfolding ttl_spec_def by blast

lemma ttl_Set: "ttl_spec T live \<Longrightarrow> \<exists>s'. ttlSet T k v s = (None, s') \<and> live s' = (live s)(k \<mapsto> v)"
  unfolding ttl_spec_def by blast

lemma ttl_new:
  "ttl_spec T live \<Longrightarrow> newTTLCache T n = Some c \<Longrightarrow> live c = Map.empty"
proof -
  assume spec: "ttl_spec T live" and c: "newTTLCache T n = Some c"
  have "live (snd (ttlSetTTL T n (ttlNewCache T))) = live (ttlNewCache T)"
    using spec unfolding ttl_spec_def by blast
  moreover have "live (ttlNewCache T) = Map.empty" using spec by (auto simp: ttl_spec_def)
  moreover have "live (ttlSkipTTLExtensionOnHit T b s) = live s" for b s
    using spec unfolding ttl_spec_def by blast
  ultimately show "live c = Map.empty"
    using c by (auto simp: newTTLCache_def split: prod.splits option.splits)
qed

lemma store_conf_ok:
  assumes "ttl_spec T live"
  shows "\<exists>cc'. store_conf T key entries cc = (Inr (tokenCounter cc + 1), cc') \<and>
    tokenCounter cc' = tokenCounter cc + 1 \<and>
    live (tokenCache cc') = (live (tokenCache cc))(token_key (tokenCounter cc + 1) \<mapsto> CConf entries) \<and>
    live (keyCache cc') = (live (keyCache cc))(key \<mapsto> CToken (tokenCounter cc + 1))"
proof -
  obtain tc where "ttlSet T (token_key (tokenCounter cc + 1)) (CConf entries) (tokenCache cc) = (None, tc)"
    "live tc = (live (tokenCache cc))(token_key (tokenCounter cc + 1) \<mapsto> CConf entries)"
    using ttl_Set [OF assms] by blast
  moreover obtain kc where "ttlSet T key (CToken (tokenCounter cc + 1)) (keyCache cc) = (None, kc)"
    "live kc = (live (keyCache cc))(key \<mapsto> CToken (tokenCounter cc + 1))"
    using ttl_Set [OF assms] by blast
  ultimately show ?thesis by (simp add: store_conf_def Let_def)
qed

text \<open>A live token for the key: the call answers with it and changes nothing that is live.\<close>

lemma ConfCache_Set_hit:
  assumes "ttl_spec T live" "go_string_opt (pqKey req) = key" "key \<noteq> []"
    and "live (keyCache cc) key = Some (CToken t)"
  shows "\<exists>kc. ConfCache_Set T reg req cc = (Val (Inr t), cc\<lparr>keyCache := kc\<rparr>) \<and> live kc = live (keyCache cc)"
proof -
  obtain kc where "ttlGet T key (keyCache cc) = (Inr (CToken t), kc)" "live kc = live (keyCache cc)"
    using ttl_Get [OF assms(1), of key "keyCache cc"] assms(4) by auto
  with assms(2,3) show ?thesis by (auto simp: ConfCache_Set_def Let_def)
qed

text \<open>No live entry for the key, or no key: the next token is issued.\<close>

lemma ConfCache_Set_miss:
  assumes spec: "ttl_spec T live" and key: "go_string_opt (pqKey req) = key"
    and miss: "key = [] \<or> live (keyCache cc) key = None"
    and parse: "parse_confs reg (pqConf req) = Val entries"
  shows "\<exists>cc'. ConfCache_Set T reg req cc = (Val (Inr (tokenCounter cc + 1)), cc') \<and>
    tokenCounter cc' = tokenCounter cc + 1 \<and>
    live (tokenCache cc') = (live (tokenCache cc))(token_key (tokenCounter cc + 1) \<mapsto> CConf entries) \<and>
    live (keyCache cc') = (live (keyCache cc))(key \<mapsto> CToken (tokenCounter cc + 1))"
proof (cases "key = []")
  case True
  with store_conf_ok [OF spec, of "[]" entries cc] key parse show ?thesis
    by (auto simp: ConfCache_Set_def Let_def)
next
  case False
  with miss have "live (keyCache cc) key = None" by simp
  then obtain kc where "ttlGet T key (keyCache cc) = (Inl ErrNotFound, kc)" "live kc = live (keyCache cc)"
    using ttl_Get [OF spec, of key "keyCache cc"] by auto
  with False store_conf_ok [OF spec, of key entries "cc\<lparr>keyCache := kc\<rparr>"] key parse show ?thesis
    by (auto simp: ConfCache_Set_def Let_def)
qed

lemma ConfCache_Set_panic:
  assumes spec: "ttl_spec T live" and key: "go_string_opt (pqKey req) = key"
    and miss: "key = [] \<or> live (keyCache cc) key = None"
    and parse: "parse_confs reg (pqConf req) = Panic"
  shows "\<exists>cc'. ConfCache_Set T reg req cc = (Panic, cc') \<and> tokenCounter cc' = tokenCounter cc \<and>
    live (tokenCache cc') = live (tokenCache cc) \<and> live (keyCache cc') = live (keyCache cc)"
proof (cases "key = []")
  case True
  with key parse show ?thesis by (auto simp: ConfCache_Set_def Let_def)
next
  case False
  with miss have "live (keyCache cc) key = None" by simp
  then obtain kc where "ttlGet T key (keyCache cc) = (Inl ErrNotFound, kc)" "live kc = live (keyCache cc)"
    using ttl_Get [OF spec, of key "keyCache cc"] by auto
  with False key parse show ?thesis by (auto simp: ConfCache_Set_def Let_def)
qed

lemma ConfCache_Get_live:
  assumes "ttl_spec T live"
  shows "\<exists>tc. ConfCache_Get T t cc =
      (case live (tokenCache cc) (token_key t) of
         None \<Rightarrow> Val (Inl ErrNotFound) | Some (CConf c) \<Rightarrow> Val (Inr c) | Some (CToken _) \<Rightarrow> Panic,
       cc\<lparr>tokenCache := tc\<rparr>) \<and> live tc = live (tokenCache cc)"
proof -
  obtain tc where "ttlGet T (token_key t) (tokenCache cc) =
      (case live (tokenCache cc) (token_key t) of Some v \<Rightarrow> Inr v | None \<Rightarrow> Inl ErrNotFound, tc)"
    "live tc = live (tokenCache cc)"
    using ttl_Get [OF assms] by blast
  then show ?thesis by (auto simp: ConfCache_Get_def split: option.splits cache_val.splits)
qed

subsection \<open>Histories of the cache\<close>

text \<open>
  What happens to a cache after its creation: calls of \<open>Set\<close> and \<open>Get\<close> in any order, with
  entries expiring in between (\<open>\<subseteq>\<^sub>m\<close>).  The list is the history, with the results.
\<close>

datatype 'c conf_event = OSet preq "(go_error + u32) rt" | OGet u32 "(go_error + (string \<times> 'c) list) rt" | OExpire

inductive conf_run ::
  "('k, 'c) ttl_ops \<Rightarrow> ('k \<Rightarrow> string \<Rightarrow> 'c cache_val option) \<Rightarrow> 'c registry \<Rightarrow>
   'c conf_event list \<Rightarrow> 'k ConfCache \<Rightarrow> bool"
  for T live reg where
  run_new: "newConfCache T ttl = Some cc \<Longrightarrow> conf_run T live reg [] cc"
| run_Set: "conf_run T live reg tr cc \<Longrightarrow> ConfCache_Set T reg req cc = (res, cc') \<Longrightarrow>
    conf_run T live reg (tr @ [OSet req res]) cc'"
| run_Get: "conf_run T live reg tr cc \<Longrightarrow> ConfCache_Get T t cc = (res, cc') \<Longrightarrow>
    conf_run T live reg (tr @ [OGet t res]) cc'"
| run_Expire: "conf_run T live reg tr cc \<Longrightarrow> tokenCounter cc' = tokenCounter cc \<Longrightarrow>
    live (tokenCache cc') \<subseteq>\<^sub>m live (tokenCache cc) \<Longrightarrow> live (keyCache cc') \<subseteq>\<^sub>m live (keyCache cc) \<Longrightarrow>
    conf_run T live reg (tr @ [OExpire]) cc'"

definition issued :: "'c conf_event list \<Rightarrow> preq \<Rightarrow> u32 \<Rightarrow> bool" where
  "issued tr req t \<longleftrightarrow> OSet req (Val (Inr t)) \<in> set tr"

text \<open>What every history keeps: live values have the type the code asserts, a live
  configuration is that of a request which got the token, tokens are not above the counter
  and a token belongs to one key.\<close>

definition hist_ok :: "'c registry \<Rightarrow> 'c conf_event list \<Rightarrow> (string \<Rightarrow> 'c cache_val option) \<Rightarrow>
    (string \<Rightarrow> 'c cache_val option) \<Rightarrow> u32 \<Rightarrow> bool" where
  "hist_ok reg tr tok key n \<longleftrightarrow>
     (\<forall>t v. tok (token_key t) = Some v \<longrightarrow>
        (\<exists>c req. v = CConf c \<and> issued tr req t \<and> parse_confs reg (pqConf req) = Val c)) \<and>
     (\<forall>k v. key k = Some v \<longrightarrow>
        (\<exists>t req. v = CToken t \<and> issued tr req t \<and> go_string_opt (pqKey req) = k)) \<and>
     (\<forall>req t. issued tr req t \<longrightarrow> unat t \<le> unat n) \<and>
     (\<forall>req req' t. issued tr req t \<longrightarrow> issued tr req' t \<longrightarrow>
        go_string_opt (pqKey req) = go_string_opt (pqKey req')) \<and>
     unat n \<le> length tr"

lemma hist_okD:
  assumes "hist_ok reg tr tok key n"
  shows "tok (token_key t) = Some v \<Longrightarrow>
      \<exists>c req. v = CConf c \<and> issued tr req t \<and> parse_confs reg (pqConf req) = Val c"
    and "key k = Some w \<Longrightarrow> \<exists>t req. w = CToken t \<and> issued tr req t \<and> go_string_opt (pqKey req) = k"
    and "issued tr req t \<Longrightarrow> unat t \<le> unat n"
    and "issued tr req t \<Longrightarrow> issued tr req' t \<Longrightarrow> go_string_opt (pqKey req) = go_string_opt (pqKey req')"
    and "unat n \<le> length tr"
  using assms unfolding hist_ok_def by blast+

lemma hist_okI:
  assumes "\<And>t v. tok (token_key t) = Some v \<Longrightarrow>
      \<exists>c req. v = CConf c \<and> issued tr req t \<and> parse_confs reg (pqConf req) = Val c"
    and "\<And>k w. key k = Some w \<Longrightarrow> \<exists>t req. w = CToken t \<and> issued tr req t \<and> go_string_opt (pqKey req) = k"
    and "\<And>req t. issued tr req t \<Longrightarrow> unat t \<le> unat n"
    and "\<And>req req' t. issued tr req t \<Longrightarrow> issued tr req' t \<Longrightarrow>
      go_string_opt (pqKey req) = go_string_opt (pqKey req')"
    and "unat n \<le> length tr"
  shows "hist_ok reg tr tok key n"
  unfolding hist_ok_def using assms by blast

lemma issued_snoc:
  "issued (tr @ [e]) req t \<longleftrightarrow> issued tr req t \<or> e = OSet req (Val (Inr t))"
  by (auto simp: issued_def)

lemma hist_ok_less:
  assumes "hist_ok reg tr tok key n" "tok' \<subseteq>\<^sub>m tok" "key' \<subseteq>\<^sub>m key"
    "\<And>req t. e \<noteq> OSet req (Val (Inr t))"
  shows "hist_ok reg (tr @ [e]) tok' key' n"
proof -
  have t: "tok k = Some v" if "tok' k = Some v" for k v using assms(2) that by (auto simp: map_le_def dom_def)
  have k: "key k = Some v" if "key' k = Some v" for k v using assms(3) that by (auto simp: map_le_def dom_def)
  have i: "issued (tr @ [e]) req u \<longleftrightarrow> issued tr req u" for req u using assms(4) by (simp add: issued_snoc)
  show ?thesis
  proof (rule hist_okI, unfold i)
    show "unat n \<le> length (tr @ [e])" using hist_okD(5) [OF assms(1)] by simp
  qed (fact hist_okD(1) [OF assms(1) t] hist_okD(2) [OF assms(1) k] hist_okD(3,4) [OF assms(1)])+
qed

lemma hist_ok_hit:
  assumes h: "hist_ok reg tr tok key n" and "key k = Some (CToken t)" "go_string_opt (pqKey req) = k"
  shows "hist_ok reg (tr @ [OSet req (Val (Inr t))]) tok key n"
proof -
  obtain r0 where r0: "issued tr r0 t" "go_string_opt (pqKey r0) = k"
    using hist_okD(2) [OF h assms(2)] by blast
  have o: "go_string_opt (pqKey r) = k" if "issued tr r t" for r
    using hist_okD(4) [OF h that r0(1)] r0(2) by simp
  have le: "unat t \<le> unat n" using hist_okD(3) [OF h r0(1)] .
  have four: "go_string_opt (pqKey r) = go_string_opt (pqKey r')"
    if "issued (tr @ [OSet req (Val (Inr t))]) r u" "issued (tr @ [OSet req (Val (Inr t))]) r' u" for r r' u
  proof (cases "u = t")
    case True
    have "go_string_opt (pqKey x) = k" if "issued (tr @ [OSet req (Val (Inr t))]) x t" for x
      using that o [of x] assms(3) by (simp only: issued_snoc) auto
    from this [of r] this [of r'] that True show ?thesis by simp
  next
    case False
    then have old: "issued (tr @ [OSet req (Val (Inr t))]) x u \<Longrightarrow> issued tr x u" for x
      by (simp add: issued_snoc)
    show ?thesis by (rule hist_okD(4) [OF h old [OF that(1)] old [OF that(2)]])
  qed
  have mono: "issued tr r u \<Longrightarrow> issued (tr @ [OSet req (Val (Inr t))]) r u" for r u
    by (simp add: issued_snoc)
  show ?thesis
  proof (rule hist_okI)
    fix u v assume "tok (token_key u) = Some v"
    from hist_okD(1) [OF h this] mono
    show "\<exists>c r. v = CConf c \<and> issued (tr @ [OSet req (Val (Inr t))]) r u \<and> parse_confs reg (pqConf r) = Val c"
      by blast
  next
    fix k' w assume "key k' = Some w"
    from hist_okD(2) [OF h this] mono
    show "\<exists>u r. w = CToken u \<and> issued (tr @ [OSet req (Val (Inr t))]) r u \<and> go_string_opt (pqKey r) = k'"
      by blast
  next
    fix r u assume "issued (tr @ [OSet req (Val (Inr t))]) r u"
    then show "unat u \<le> unat n" using hist_okD(3) [OF h, of r u] le by (auto simp: issued_snoc)
  next
    show "unat n \<le> length (tr @ [OSet req (Val (Inr t))])" using hist_okD(5) [OF h] by simp
  qed (rule four)
qed

lemma hist_ok_miss:
  assumes h: "hist_ok reg tr tok key n" and wrap: "length tr < 2 ^ 32 - 1"
    and parse: "parse_confs reg (pqConf req) = Val entries" and k: "go_string_opt (pqKey req) = k"
  shows "hist_ok reg (tr @ [OSet req (Val (Inr (n + 1)))])
    (tok(token_key (n + 1) \<mapsto> CConf entries)) (key(k \<mapsto> CToken (n + 1))) (n + 1)"
proof -
  have u: "unat (n + 1) = Suc (unat n)"
    using hist_okD(5) [OF h] wrap by (simp add: unat_word_ariths)
  have fresh: "\<not> issued tr r (n + 1)" for r using hist_okD(3) [OF h, of r "n + 1"] u by auto
  let ?tr = "tr @ [OSet req (Val (Inr (n + 1)))]"
  have new: "issued ?tr req (n + 1)" by (simp add: issued_snoc)
  have old: "issued tr r t \<Longrightarrow> issued ?tr r t" for r t by (simp add: issued_snoc)
  show ?thesis
  proof (rule hist_okI)
    fix t v assume "(tok(token_key (n + 1) \<mapsto> CConf entries)) (token_key t) = Some v"
    then show "\<exists>c req. v = CConf c \<and> issued ?tr req t \<and> parse_confs reg (pqConf req) = Val c"
      using new parse hist_okD(1) [OF h, of t v] old by (cases "t = n + 1") auto
  next
    fix k' v assume "(key(k \<mapsto> CToken (n + 1))) k' = Some v"
    then show "\<exists>t req. v = CToken t \<and> issued ?tr req t \<and> go_string_opt (pqKey req) = k'"
      using new k hist_okD(2) [OF h, of k' v] old by (cases "k' = k") auto
  next
    fix r t assume "issued ?tr r t"
    then show "unat t \<le> unat (n + 1)"
      using hist_okD(3) [OF h, of r t] u by (auto simp: issued_snoc)
  next
    fix r r' t assume "issued ?tr r t" "issued ?tr r' t"
    then show "go_string_opt (pqKey r) = go_string_opt (pqKey r')"
      using hist_okD(4) [OF h, of r t r'] fresh by (auto simp: issued_snoc)
  next
    show "unat (n + 1) \<le> length ?tr" using hist_okD(5) [OF h] u by simp
  qed
qed

text \<open>The live key of a request and the branch \<open>Set\<close> takes.\<close>

lemma hist_ok_Set:
  assumes spec: "ttl_spec T live" and h: "hist_ok reg tr (live (tokenCache cc)) (live (keyCache cc)) (tokenCounter cc)"
    and wrap: "length tr < 2 ^ 32 - 1" and set: "ConfCache_Set T reg req cc = (res, cc')"
  shows "hist_ok reg (tr @ [OSet req res]) (live (tokenCache cc')) (live (keyCache cc')) (tokenCounter cc') \<and>
    (res = Panic \<longrightarrow> parse_confs reg (pqConf req) = Panic) \<and> (\<forall>e. res \<noteq> Val (Inl e))"
proof -
  let ?k = "go_string_opt (pqKey req)"
  show ?thesis
  proof (cases "?k \<noteq> [] \<and> live (keyCache cc) ?k \<noteq> None")
    case True
    then obtain t where t: "live (keyCache cc) ?k = Some (CToken t)" using hist_okD(2) [OF h, of ?k] by fastforce
    from ConfCache_Set_hit [OF spec refl conjunct1 [OF True] t, of reg] set
    obtain kc where "res = Val (Inr t)" "cc' = cc\<lparr>keyCache := kc\<rparr>" "live kc = live (keyCache cc)" by auto
    then show ?thesis using hist_ok_hit [OF h t refl] by simp
  next
    case False
    then have m: "?k = [] \<or> live (keyCache cc) ?k = None" by auto
    show ?thesis
    proof (cases "parse_confs reg (pqConf req)")
      case (Val entries)
      from ConfCache_Set_miss [OF spec refl m Val] set show ?thesis
        using hist_ok_miss [OF h wrap Val refl] by auto
    next
      case Panic
      from ConfCache_Set_panic [OF spec refl m Panic] set show ?thesis
        using hist_ok_less [OF h map_le_refl map_le_refl] Panic by auto
    qed
  qed
qed

lemma conf_run_hist_ok:
  assumes "conf_run T live reg tr cc" "ttl_spec T live" "length tr < 2 ^ 32"
  shows "hist_ok reg tr (live (tokenCache cc)) (live (keyCache cc)) (tokenCounter cc)"
  using assms
proof (induction rule: conf_run.induct)
  case (run_new ttl cc)
  then show ?case
    by (auto simp: newConfCache_def hist_ok_def issued_def ttl_new split: option.splits)
next
  case (run_Set tr cc req res cc')
  then show ?case using hist_ok_Set [of T live reg tr cc req res cc'] by simp
next
  case (run_Get tr cc t res cc')
  then obtain tc where "cc' = cc\<lparr>tokenCache := tc\<rparr>" "live tc = live (tokenCache cc)"
    using ConfCache_Get_live [of T live t cc] by auto
  with run_Get show ?case by (auto intro: hist_ok_less)
next
  case (run_Expire tr cc cc')
  then show ?case by (auto intro: hist_ok_less)
qed

subsection \<open>A plain map as cache\<close>

text \<open>An instance of the laws, a cache in which nothing expires by itself.\<close>

definition map_ttl :: "(string \<Rightarrow> 'c cache_val option, 'c) ttl_ops" where
  "map_ttl = \<lparr>ttlNewCache = Map.empty, ttlSetTTL = (\<lambda>n s. (None, s)),
     ttlSkipTTLExtensionOnHit = (\<lambda>b s. s),
     ttlGet = (\<lambda>k s. (case s k of Some v \<Rightarrow> Inr v | None \<Rightarrow> Inl ErrNotFound, s)),
     ttlSet = (\<lambda>k v s. (None, s(k \<mapsto> v)))\<rparr>"

lemma map_ttl_spec: "ttl_spec map_ttl (\<lambda>s. s)"
  by (simp add: ttl_spec_def map_ttl_def)

subsection \<open>Properties of the configuration cache\<close>

text \<open>What a request's configuration list stands for: the entries of the registered plugins
  whose \<open>ParseConf\<close> accepts them.\<close>

definition conf_of :: "'c registry \<Rightarrow> text_entry option \<Rightarrow> (string \<times> 'c) list" where
  "conf_of reg e = (case e of None \<Rightarrow> []
     | Some te \<Rightarrow> (case findPlugin reg (go_string_opt (teName te)) of None \<Rightarrow> []
        | Some p \<Rightarrow> (case ParseConf p (teValue te) of
             Val (Inr c) \<Rightarrow> [(go_string_opt (teName te), c)] | _ \<Rightarrow> [])))"

definition conf_panics :: "'c registry \<Rightarrow> text_entry option \<Rightarrow> bool" where
  "conf_panics reg e = (case e of None \<Rightarrow> False
     | Some te \<Rightarrow> (case findPlugin reg (go_string_opt (teName te)) of None \<Rightarrow> False
        | Some p \<Rightarrow> ParseConf p (teValue te) = Panic))"

text \<open>Which configurations are kept.  The loop of \<open>Set\<close> keeps, in the order of the
  request, exactly the entries of registered plugins that accept their configuration; an
  unknown plugin or a rejected configuration never affects the others, and only a panicking
  \<open>ParseConf\<close> aborts the call.\<close>

lemma parse_confs_selects:
  "parse_confs reg es =
    (if list_ex (conf_panics reg) es then Panic else Val (concat (map (conf_of reg) es)))"
proof (induction es)
  case (Cons e es)
  show ?case
  proof (cases e)
    case None
    with Cons show ?thesis by (simp add: conf_of_def [of _ None] conf_panics_def [of _ None])
  next
    case (Some te)
    with Cons show ?thesis
      by (simp add: Let_def conf_of_def [of _ "Some te"] conf_panics_def [of _ "Some te"]
          split: option.split rt.split sum.split)
  qed
qed simp

text \<open>C13: prepare, then use.  When the key of a request has no live token (or the request has
  no key), \<open>Set\<close> issues the next token, \<open>Get\<close> returns the parsed configuration for it and
  the answers for all other tokens are unchanged; as long as nothing expires, every further
  request with the same non-empty key is answered with the same token, whatever its
  configurations, and the token keeps its configuration.\<close>

theorem ConfCache_prepare_then_get:
  assumes spec: "ttl_spec T live" and key: "go_string_opt (pqKey req) = key"
    and miss: "key = [] \<or> live (keyCache cc) key = None"
    and parse: "parse_confs reg (pqConf req) = Val entries"
  shows "\<exists>t cc'. t = tokenCounter cc + 1 \<and> ConfCache_Set T reg req cc = (Val (Inr t), cc') \<and>
    fst (ConfCache_Get T t cc') = Val (Inr entries) \<and>
    (\<forall>u. u \<noteq> t \<longrightarrow> fst (ConfCache_Get T u cc') = fst (ConfCache_Get T u cc)) \<and>
    (\<forall>req'. key \<noteq> [] \<and> go_string_opt (pqKey req') = key \<longrightarrow>
       fst (ConfCache_Set T reg req' cc') = Val (Inr t) \<and>
       fst (ConfCache_Get T t (snd (ConfCache_Set T reg req' cc'))) = Val (Inr entries))"
proof -
  let ?t = "tokenCounter cc + 1"
  obtain cc' where cc': "ConfCache_Set T reg req cc = (Val (Inr ?t), cc')"
    "live (tokenCache cc') = (live (tokenCache cc))(token_key ?t \<mapsto> CConf entries)"
    "live (keyCache cc') = (live (keyCache cc))(key \<mapsto> CToken ?t)"
    using ConfCache_Set_miss [OF spec key miss parse] by blast
  have get: "fst (ConfCache_Get T u c) = (case live (tokenCache c) (token_key u) of
      None \<Rightarrow> Val (Inl ErrNotFound) | Some (CConf x) \<Rightarrow> Val (Inr x) | Some (CToken _) \<Rightarrow> Panic)" for u c
    using ConfCache_Get_live [OF spec, of u c] by auto
  have again: "\<exists>kc. ConfCache_Set T reg req' cc' = (Val (Inr ?t), cc'\<lparr>keyCache := kc\<rparr>)"
    if "key \<noteq> []" "go_string_opt (pqKey req') = key" for req'
    using ConfCache_Set_hit [OF spec that(2,1), of cc' ?t] cc'(3) by auto
  have "fst (ConfCache_Set T reg req' cc') = Val (Inr ?t) \<and>
       fst (ConfCache_Get T ?t (snd (ConfCache_Set T reg req' cc'))) = Val (Inr entries)"
    if "key \<noteq> []" "go_string_opt (pqKey req') = key" for req'
    using again [OF that] cc'(2) by (auto simp: get)
  with cc'(1,2) show ?thesis by (auto simp: get)
qed

definition sample_opts :: "bytes pluginOpts" where
  "sample_opts = \<lparr>ParseConf = (\<lambda>b. Val (case b of None \<Rightarrow> Inl (OtherError ''empty'') | Some x \<Rightarrow> Inr x)),
     RequestFilter = (\<lambda>_. Done), ResponseFilter = (\<lambda>_. Done)\<rparr>"

definition sample_preq :: preq where
  "sample_preq = \<lparr>pqKey = Some [49], pqConf =
     [Some \<lparr>teName = Some [120], teValue = Some [1]\<rparr>, Some \<lparr>teName = Some [112], teValue = Some [7]\<rparr>,
      Some \<lparr>teName = Some [112], teValue = None\<rparr>]\<rparr>"

lemma sample_parse: "parse_confs [(''p'', sample_opts)] (pqConf sample_preq) = Val [(''p'', [7])]"
  by (simp add: sample_preq_def sample_opts_def findPlugin_def go_string_opt_def go_string_def char_of_def
      bit_0 Let_def)

theorem ConfCache_prepare_then_get_witness:
  "\<exists>cc'. ConfCache_Set map_ttl [(''p'', sample_opts)] sample_preq
      \<lparr>tokenCache = Map.empty, keyCache = Map.empty, tokenCounter = 4\<rparr> = (Val (Inr 5), cc') \<and>
    fst (ConfCache_Get map_ttl 5 cc') = Val (Inr [(''p'', [7])])"
proof -
  from ConfCache_prepare_then_get [OF map_ttl_spec refl _ sample_parse,
      of "\<lparr>tokenCache = Map.empty, keyCache = Map.empty, tokenCounter = 4\<rparr>"]
  show ?thesis by auto
qed

text \<open>A token stands for what was prepared under it.  In every history of a new cache,
  calls of \<open>Set\<close> and \<open>Get\<close> with entries expiring at any time in between, \<open>Get\<close> answers a
  token with \<open>ErrNotFound\<close> or with the parsed configuration of a request that got this
  token; two requests that got the same token have the same key; and \<open>Set\<close> returns a token
  or panics in some plugin's \<open>ParseConf\<close>, so no type assertion of the code fails.  The
  history is shorter than \<open>2 ^ 32\<close>, the range of the token counter.\<close>

lemma ConfCache_history:
  assumes "ttl_spec T live" "conf_run T live reg tr cc" "length tr < 2 ^ 32 - 1"
  shows "(\<forall>t. fst (ConfCache_Get T t cc) = Val (Inl ErrNotFound) \<or>
      (\<exists>req c. issued tr req t \<and> parse_confs reg (pqConf req) = Val c \<and>
        fst (ConfCache_Get T t cc) = Val (Inr c))) \<and>
    (\<forall>req req' t. issued tr req t \<and> issued tr req' t \<longrightarrow>
      go_string_opt (pqKey req) = go_string_opt (pqKey req')) \<and>
    (\<forall>req. (\<exists>t. fst (ConfCache_Set T reg req cc) = Val (Inr t)) \<or>
      fst (ConfCache_Set T reg req cc) = Panic \<and> parse_confs reg (pqConf req) = Panic)"
proof (intro conjI allI impI)
  have h: "hist_ok reg tr (live (tokenCache cc)) (live (keyCache cc)) (tokenCounter cc)"
    using conf_run_hist_ok [OF assms(2,1)] assms(3) by simp
  fix t
  show "fst (ConfCache_Get T t cc) = Val (Inl ErrNotFound) \<or>
      (\<exists>req c. issued tr req t \<and> parse_confs reg (pqConf req) = Val c \<and>
        fst (ConfCache_Get T t cc) = Val (Inr c))"
    using ConfCache_Get_live [OF assms(1), of t cc] hist_okD(1) [OF h, of t]
    by (cases "live (tokenCache cc) (token_key t)") auto
  fix req req' assume "issued tr req t \<and> issued tr req' t"
  then show "go_string_opt (pqKey req) = go_string_opt (pqKey req')"
    by (elim conjE) (rule hist_okD(4) [OF h])
next
  have h: "hist_ok reg tr (live (tokenCache cc)) (live (keyCache cc)) (tokenCounter cc)"
    using conf_run_hist_ok [OF assms(2,1)] assms(3) by simp
  fix req
  obtain res cc' where r: "ConfCache_Set T reg req cc = (res, cc')" by (cases "ConfCache_Set T reg req cc") auto
  from hist_ok_Set [OF assms(1) h assms(3) r] r
  show "(\<exists>t. fst (ConfCache_Set T reg req cc) = Val (Inr t)) \<or>
      fst (ConfCache_Set T reg req cc) = Panic \<and> parse_confs reg (pqConf req) = Panic"
    by (cases res rule: rt.exhaust) (auto, metis sum.exhaust)
qed

lemma ConfCache_history_sample:
  "\<exists>cc. conf_run map_ttl (\<lambda>s. s) [(''p'', sample_opts)] [OSet sample_preq (Val (Inr 1)), OExpire] cc \<and>
    fst (ConfCache_Get map_ttl 1 cc) = Val (Inr [(''p'', [7])]) \<and>
    (\<forall>req. (\<exists>t. fst (ConfCache_Set map_ttl [(''p'', sample_opts)] req cc) = Val (Inr t)) \<or>
      parse_confs [(''p'', sample_opts)] (pqConf req) = Panic)"
proof -
  let ?c0 = "\<lparr>tokenCache = Map.empty, keyCache = Map.empty, tokenCounter = 0\<rparr> ::
    (string \<Rightarrow> bytes cache_val option) ConfCache"
  let ?cc = "\<lparr>tokenCache = [token_key 1 \<mapsto> CConf [(''p'', [7])]], keyCache = Map.empty, tokenCounter = 1\<rparr> ::
    (string \<Rightarrow> bytes cache_val option) ConfCache"
  have "conf_run map_ttl (\<lambda>s. s) [(''p'', sample_opts)] [] ?c0"
    by (rule run_new [of _ 60]) (simp add: newConfCache_def newTTLCache_def map_ttl_def)
  from run_Set [OF this, of sample_preq "Val (Inr 1)"]
  have "conf_run map_ttl (\<lambda>s. s) [(''p'', sample_opts)] [OSet sample_preq (Val (Inr 1))]
      (?cc\<lparr>keyCache := [''1'' \<mapsto> CToken 1]\<rparr>)"
    using sample_parse by (simp add: ConfCache_Set_def store_conf_def map_ttl_def Let_def sample_preq_def
        go_string_opt_def go_string_def char_of_def bit_0)
  from run_Expire [OF this, of ?cc]
  have r: "conf_run map_ttl (\<lambda>s. s) [(''p'', sample_opts)] [OSet sample_preq (Val (Inr 1)), OExpire] ?cc"
    by simp
  moreover have "fst (ConfCache_Get map_ttl 1 ?cc) = Val (Inr [(''p'', [7])])"
    by (simp add: ConfCache_Get_def map_ttl_def)
  ultimately show ?thesis using ConfCache_history [OF map_ttl_spec r] by (intro exI [of _ ?cc]) auto
qed

text \<open>A client that prepares its configuration and uses the token, again and again.\<close>

fun prepare_rounds :: "('k, 'c) ttl_ops \<Rightarrow> 'c registry \<Rightarrow> preq \<Rightarrow> nat \<Rightarrow> 'k ConfCache \<Rightarrow>
    (go_error + (string \<times> 'c) list) rt list" where
  "prepare_rounds T reg req 0 cc = []"
| "prepare_rounds T reg req (Suc n) cc =
     (case ConfCache_Set T reg req cc of
        (Val (Inr t), cc1) \<Rightarrow>
          (case ConfCache_Get T t cc1 of (res, cc2) \<Rightarrow> res # prepare_rounds T reg req n cc2)
      | (Val (Inl e), cc1) \<Rightarrow> Val (Inl e) # prepare_rounds T reg req n cc1
      | (Panic, cc1) \<Rightarrow> Panic # prepare_rounds T reg req n cc1)"

text \<open>C19: the two caches can disagree.  When the configuration under a token has expired while
  the key of the request still leads to this token, preparing the configuration again returns
  the dead token and its use fails with \<open>ErrNotFound\<close>, round after round, as long as
  the key does not expire in between: \<open>Set\<close> looks only at the key cache.\<close>

theorem ConfCache_stale_key:
  assumes "ttl_spec T live" "go_string_opt (pqKey req) = key" "key \<noteq> []"
    and "live (keyCache cc) key = Some (CToken t)" "live (tokenCache cc) (token_key t) = None"
  shows "prepare_rounds T reg req n cc = replicate n (Val (Inl ErrNotFound))"
  using assms(4,5)
proof (induction n arbitrary: cc)
  case (Suc n)
  obtain kc where kc: "ConfCache_Set T reg req cc = (Val (Inr t), cc\<lparr>keyCache := kc\<rparr>)"
    "live kc = live (keyCache cc)"
    using ConfCache_Set_hit [OF assms(1-3) Suc.prems(1)] by blast
  obtain tc where "ConfCache_Get T t (cc\<lparr>keyCache := kc\<rparr>) =
      (Val (Inl ErrNotFound), cc\<lparr>keyCache := kc, tokenCache := tc\<rparr>)" "live tc = live (tokenCache cc)"
    using ConfCache_Get_live [OF assms(1), of t "cc\<lparr>keyCache := kc\<rparr>"] Suc.prems(2) by auto
  with kc Suc show ?case by simp
qed simp

theorem ConfCache_stale_key_witness:
  "prepare_rounds map_ttl [(''p'', sample_opts)] sample_preq 3
     \<lparr>tokenCache = Map.empty, keyCache = [''1'' \<mapsto> CToken 4], tokenCounter = 4\<rparr> =
   replicate 3 (Val (Inl ErrNotFound))"
  by (rule ConfCache_stale_key [OF map_ttl_spec, where key = "''1''" and t = 4])
    (simp_all add: sample_preq_def go_string_opt_def go_string_def char_of_def bit_0)

text \<open>What a test stores under a token is what the phases look up.\<close>

lemma SetRuleConfInTest_get:
  assumes "ttl_spec T live"
  obtains cc' where "SetRuleConfInTest T t conf cc = (None, cc')" "fst (GetRuleConf T t cc') = Val (Inr conf)"
    "keyCache cc' = keyCache cc" "tokenCounter cc' = tokenCounter cc"
proof -
  obtain tc where tc: "ttlSet T (token_key t) (CConf conf) (tokenCache cc) = (None, tc)"
    "live tc = (live (tokenCache cc))(token_key t \<mapsto> CConf conf)" using ttl_Set [OF assms] by blast
  from ConfCache_Get_live [OF assms, of t "cc\<lparr>tokenCache := tc\<rparr>"] tc(2)
  have "fst (GetRuleConf T t (cc\<lparr>tokenCache := tc\<rparr>)) = Val (Inr conf)" by (auto simp: GetRuleConf_def)
  then show thesis using tc(1) by (intro that [of "cc\<lparr>tokenCache := tc\<rparr>"]) (simp_all add: SetRuleConfInTest_def ConfCache_SetInTest_def)
qed

end
