(* ===== verification/Plugin_Phases.thy ===== *)
theory Plugin_Phases
  imports Conf
begin

section \<open>Running the plugins (internal/plugin/plugin.go)\<close>

text \<open>
  The handlers of the two phases: a request or response object is taken from its pool, the
  configurations of its token are looked up, the filters run one after the other until one
  of them has produced a change of the response, and the changes become the answer.

  The runner's state is a record: the configuration cache, the three object pools and the
  \<open>io\<close> state of the goroutine.  The deferred \<open>Reuse...\<close> calls run on every way out, also when
  a filter panics; they run in the reverse order of the \<open>defer\<close> statements.
\<close>

record 'k runner =
  rnCache :: "'k ConfCache"
  rnReqs :: "Request list"
  rnReqResps :: "ReqResponse list"
  rnResps :: "Response list"
  rnIo :: io

subsection \<open>Request phase\<close>

fun requestPhase_filter ::
  "codec \<Rightarrow> range_orders \<Rightarrow> 'c registry \<Rightarrow> (string \<times> 'c) list \<Rightarrow> req_state \<Rightarrow> go_error option rt \<times> req_state" where
  "requestPhase_filter cd ro reg [] st = (Val None, st)"
| "requestPhase_filter cd ro reg ((name, val) # conf) st =
     (case findPlugin reg name of
        None \<Rightarrow> requestPhase_filter cd ro reg conf st
      | Some plugin \<Rightarrow>
          (case run_req cd ro (RequestFilter plugin val) st of
             (Panic, st') \<Rightarrow> (Panic, st')
           | (Val u, st') \<Rightarrow>
               (if ReqResponse_HasChange (fst st') then (Val None, st')
                else requestPhase_filter cd ro reg conf st')))"

definition requestPhase_builder ::
  "range_orders \<Rightarrow> u32 \<Rightarrow> ReqResponse option \<Rightarrow> Request option \<Rightarrow> io \<Rightarrow> builder rt \<times> io" where
  "requestPhase_builder ro rid resp req s =
     (let (bd, s1) = GetBuilder s;
          (done, bd1) = (case resp of None \<Rightarrow> (False, bd) | Some w \<Rightarrow> ReqResponse_FetchChanges ro rid w bd)
      in if done then (Val bd1, s1)
         else (case (case req of None \<Rightarrow> Val (False, bd1) | Some r \<Rightarrow> Request_FetchChanges ro rid r bd1) of
                 Panic \<Rightarrow> (Panic, s1)
               | Val (True, bd2) \<Rightarrow> (Val bd2, s1)
               | Val (False, bd2) \<Rightarrow> (Val (Finish (MsgHTTPReqResp rid None) bd2), s1)))"

text \<open>The part of \<open>HTTPReqCall\<close> after the two \<open>defer\<close> statements; \<open>reqCall_finish\<close> is what
  follows the call of \<open>filter\<close>.\<close>

definition reqCall_finish ::
  "range_orders \<Rightarrow> go_error option rt \<Rightarrow> req_state \<Rightarrow> (go_error + builder) rt \<times> req_state" where
  "reqCall_finish ro res st =
     (case res of
        Panic \<Rightarrow> (Panic, st)
      | Val (Some err) \<Rightarrow> (Val (Inl err), st)
      | Val None \<Rightarrow>
          (case st of (resp, req, s) \<Rightarrow>
            (case Request_ID req of
               Panic \<Rightarrow> (Panic, st)
             | Val rid \<Rightarrow>
                 (case requestPhase_builder ro rid (Some resp) (Some req) s of
                    (Panic, s') \<Rightarrow> (Panic, resp, req, s')
                  | (Val bd, s') \<Rightarrow> (Val (Inr bd), resp, req, s')))))"

definition reqCall_main ::
  "codec \<Rightarrow> range_orders \<Rightarrow> ('k, 'c) ttl_ops \<Rightarrow> 'c registry \<Rightarrow> req_state \<Rightarrow> 'k ConfCache \<Rightarrow>
   (go_error + builder) rt \<times> req_state \<times> 'k ConfCache" where
  "reqCall_main cd ro T reg st cc =
     (case Request_ConfToken (fst (snd st)) of
        Panic \<Rightarrow> (Panic, st, cc)
      | Val token \<Rightarrow>
          (case GetRuleConf T token cc of
             (Panic, cc') \<Rightarrow> (Panic, st, cc')
           | (Val (Inl err), cc') \<Rightarrow> (Val (Inl err), st, cc')
           | (Val (Inr conf), cc') \<Rightarrow>
               (let (fres, st') = requestPhase_filter cd ro reg conf st;
                    (res, st'') = reqCall_finish ro fres st'
                in (res, st'', cc'))))"

definition HTTPReqCall ::
  "codec \<Rightarrow> range_orders \<Rightarrow> ('k, 'c) ttl_ops \<Rightarrow> 'c registry \<Rightarrow> bytes \<Rightarrow> 'k runner \<Rightarrow>
   (go_error + builder) rt \<times> 'k runner" where
  "HTTPReqCall cd ro T reg buf rn =
     (case CreateRequest cd buf (rnReqs rn) (rnIo rn) of
        (Panic, reqs, s) \<Rightarrow> (Panic, rn\<lparr>rnReqs := reqs, rnIo := s\<rparr>)
      | (Val req0, reqs, s) \<Rightarrow>
          (let req = Request_BindConn True req0;
               (resp, resps, picks) = CreateReqResponse (rnReqResps rn) (ioPicks s);
               (res, (resp', req', s'), cc) =
                 reqCall_main cd ro T reg (resp, req, s\<lparr>ioPicks := picks\<rparr>) (rnCache rn);
               resps' = ReuseReqResponse resp' resps;
               (reuse, reqs', s'') = ReuseRequest req' reqs s'
           in (case reuse of Panic \<Rightarrow> Panic | Val u \<Rightarrow> res,
               rn\<lparr>rnCache := cc, rnReqs := reqs', rnReqResps := resps', rnIo := s''\<rparr>)))"

subsection \<open>Response phase\<close>

fun responsePhase_filter ::
  "codec \<Rightarrow> 'c registry \<Rightarrow> (string \<times> 'c) list \<Rightarrow> resp_state \<Rightarrow> go_error option rt \<times> resp_state" where
  "responsePhase_filter cd reg [] st = (Val None, st)"
| "responsePhase_filter cd reg ((name, val) # conf) st =
     (case findPlugin reg name of
        None \<Rightarrow> responsePhase_filter cd reg conf st
      | Some plugin \<Rightarrow>
          (case run_resp cd (ResponseFilter plugin val) st of
             (Panic, st') \<Rightarrow> (Panic, st')
           | (Val u, st') \<Rightarrow>
               (if Response_HasChange (fst st') then (Val None, st')
                else responsePhase_filter cd reg conf st')))"

definition responsePhase_builder ::
  "range_orders \<Rightarrow> u32 \<Rightarrow> Response option \<Rightarrow> io \<Rightarrow> builder rt \<times> io" where
  "responsePhase_builder ro rid resp s =
     (let (bd, s1) = GetBuilder s
      in case (case resp of None \<Rightarrow> Val (False, bd) | Some r \<Rightarrow> Response_FetchChanges ro r bd) of
           Panic \<Rightarrow> (Panic, s1)
         | Val (True, bd1) \<Rightarrow> (Val bd1, s1)
         | Val (False, bd1) \<Rightarrow> (Val (Finish (MsgHTTPRespResp rid None None None) bd1), s1))"

definition respCall_finish ::
  "range_orders \<Rightarrow> go_error option rt \<Rightarrow> resp_state \<Rightarrow> (go_error + builder) rt \<times> resp_state" where
  "respCall_finish ro res st =
     (case res of
        Panic \<Rightarrow> (Panic, st)
      | Val (Some err) \<Rightarrow> (Val (Inl err), st)
      | Val None \<Rightarrow>
          (case st of (resp, s) \<Rightarrow>
            (case Response_ID resp of
               Panic \<Rightarrow> (Panic, st)
             | Val rid \<Rightarrow>
                 (case responsePhase_builder ro rid (Some resp) s of
                    (Panic, s') \<Rightarrow> (Panic, resp, s')
                  | (Val bd, s') \<Rightarrow> (Val (Inr bd), resp, s')))))"

definition respCall_main ::
  "codec \<Rightarrow> range_orders \<Rightarrow> ('k, 'c) ttl_ops \<Rightarrow> 'c registry \<Rightarrow> resp_state \<Rightarrow> 'k ConfCache \<Rightarrow>
   (go_error + builder) rt \<times> resp_state \<times> 'k ConfCache" where
  "respCall_main cd ro T reg st cc =
     (case Response_ConfToken (fst st) of
        Panic \<Rightarrow> (Panic, st, cc)
      | Val token \<Rightarrow>
          (case GetRuleConf T token cc of
             (Panic, cc') \<Rightarrow> (Panic, st, cc')
           | (Val (Inl err), cc') \<Rightarrow> (Val (Inl err), st, cc')
           | (Val (Inr conf), cc') \<Rightarrow>
               (let (fres, st') = responsePhase_filter cd reg conf st;
                    (res, st'') = respCall_finish ro fres st'
                in (res, st'', cc'))))"

definition HTTPRespCall ::
  "codec \<Rightarrow> range_orders \<Rightarrow> ('k, 'c) ttl_ops \<Rightarrow> 'c registry \<Rightarrow> bytes \<Rightarrow> 'k runner \<Rightarrow>
   (go_error + builder) rt \<times> 'k runner" where
  "HTTPRespCall cd ro T reg buf rn =
     (case CreateResponse cd buf (rnResps rn) (rnIo rn) of
        (Panic, resps, s) \<Rightarrow> (Panic, rn\<lparr>rnResps := resps, rnIo := s\<rparr>)
      | (Val resp0, resps, s) \<Rightarrow>
          (let resp = Response_BindConn True resp0;
               (res, (resp', s'), cc) = respCall_main cd ro T reg (resp, s) (rnCache rn)
           in (res, rn\<lparr>rnCache := cc, rnResps := ReuseResponse resp' resps, rnIo := s'\<rparr>)))"

subsection \<open>The contract of a chain of filters\<close>

text \<open>
  \<open>apply_filter\<close> runs the filter of one plugin and \<open>changed\<close> says that a response exists.  The chain
  is fixed by its equations, which the loops of both phases satisfy.
\<close>

locale filter_chain =
  fixes find :: "string \<Rightarrow> 'p option" and apply_filter :: "'p \<Rightarrow> 'c \<Rightarrow> 'st \<Rightarrow> unit rt \<times> 'st"
    and changed :: "'st \<Rightarrow> bool"
    and chain :: "(string \<times> 'c) list \<Rightarrow> 'st \<Rightarrow> go_error option rt \<times> 'st"
  assumes chain_Nil: "chain [] st = (Val None, st)"
    and chain_Cons: "chain ((name, v) # conf) st =
      (case find name of None \<Rightarrow> chain conf st
       | Some p \<Rightarrow> (case apply_filter p v st of (Panic, st') \<Rightarrow> (Panic, st')
          | (Val u, st') \<Rightarrow> if changed st' then (Val None, st') else chain conf st'))"
begin

text \<open>A plugin that is not registered is as if it were not configured.\<close>

lemma chain_known: "chain conf st = chain (filter (\<lambda>(name, v). find name \<noteq> None) conf) st"
proof (induction conf arbitrary: st)
  case (Cons c conf)
  obtain name v where c: "c = (name, v)" by (cases c)
  show ?case
  proof (cases "find name")
    case None
    with Cons [of st] c show ?thesis by (simp add: chain_Cons)
  next
    case (Some p)
    have "filter (\<lambda>(name, v). find name \<noteq> None) (c # conf) =
        (name, v) # filter (\<lambda>(name, v). find name \<noteq> None) conf" using c Some by simp
    with Cons c Some show ?thesis
      by (simp add: chain_Cons split: prod.split rt.split)
  qed
qed simp

text \<open>What follows runs exactly when nothing before it panicked or produced a response.\<close>

lemma chain_append:
  "\<not> changed st \<Longrightarrow> chain (pre @ post) st =
    (case chain pre st of (Panic, st') \<Rightarrow> (Panic, st')
     | (Val e, st') \<Rightarrow> if changed st' then (Val e, st') else chain post st')"
proof (induction pre arbitrary: st)
  case Nil
  then show ?case by (simp add: chain_Nil)
next
  case (Cons c pre)
  obtain name v where c: "c = (name, v)" by (cases c)
  show ?case
  proof (cases "find name")
    case None
    with Cons c show ?thesis by (simp add: chain_Cons)
  next
    case (Some p)
    obtain res st1 where r: "apply_filter p v st = (res, st1)" by (cases "apply_filter p v st") auto
    with Some c Cons.IH [of st1] show ?thesis
      by (cases res; cases "changed st1") (simp_all add: chain_Cons)
  qed
qed

lemma chain_no_error: "chain conf st = (Val e, st') \<Longrightarrow> e = None"
proof (induction conf arbitrary: st)
  case (Cons c conf)
  obtain name v where c: "c = (name, v)" by (cases c)
  from Cons.prems show ?case
    by (auto simp: c chain_Cons split: option.splits prod.splits rt.splits if_splits dest: Cons.IH)
qed (simp add: chain_Nil)

lemma chain_inv:
  fixes I :: "'st \<Rightarrow> bool"
  assumes step: "\<And>p v st res st'. I st \<Longrightarrow> apply_filter p v st = (res, st') \<Longrightarrow> I st'"
  shows "I st \<Longrightarrow> chain conf st = (res, st') \<Longrightarrow> I st'"
proof (induction conf arbitrary: st)
  case (Cons c conf)
  obtain name v where c: "c = (name, v)" by (cases c)
  show ?case
  proof (cases "find name")
    case None
    with Cons c show ?thesis by (simp add: chain_Cons)
  next
    case (Some p)
    obtain r st1 where r: "apply_filter p v st = (r, st1)" by (cases "apply_filter p v st") auto
    from step [OF Cons.prems(1) r] have "I st1" .
    with Some c r Cons show ?thesis by (cases r; cases "changed st1") (auto simp: chain_Cons)
  qed
qed (simp add: chain_Nil)

text \<open>Related states run through the chain alike.\<close>

lemma chain_rel:
  fixes R :: "'st \<Rightarrow> 'st \<Rightarrow> bool"
  assumes step: "\<And>p v s t res s'. R s t \<Longrightarrow> apply_filter p v s = (res, s') \<Longrightarrow>
      \<exists>t'. apply_filter p v t = (res, t') \<and> R s' t'"
    and ch: "\<And>s t. R s t \<Longrightarrow> changed t = changed s"
  shows "R s t \<Longrightarrow> chain conf s = (res, s') \<Longrightarrow> \<exists>t'. chain conf t = (res, t') \<and> R s' t'"
proof (induction conf arbitrary: s t)
  case (Cons c conf)
  obtain name v where c: "c = (name, v)" by (cases c)
  show ?case
  proof (cases "find name")
    case None
    with Cons c show ?thesis by (simp add: chain_Cons)
  next
    case (Some p)
    obtain r s1 where r: "apply_filter p v s = (r, s1)" by (cases "apply_filter p v s") auto
    from step [OF Cons.prems(1) r] obtain t1 where t1: "apply_filter p v t = (r, t1)" "R s1 t1" by blast
    from Some c r t1 ch [OF t1(2)] Cons.prems(2) Cons.IH [OF t1(2)] show ?thesis
      by (cases r; cases "changed s1") (auto simp: chain_Cons)
  qed
qed (simp add: chain_Nil)

end

interpretation request_chain: filter_chain "findPlugin reg"
  "\<lambda>p v st. run_req cd ro (RequestFilter p v) st" "\<lambda>st. ReqResponse_HasChange (fst st)"
  "requestPhase_filter cd ro reg" for cd ro reg
  by unfold_locales simp_all

interpretation response_chain: filter_chain "findPlugin reg"
  "\<lambda>p v st. run_resp cd (ResponseFilter p v) st" "\<lambda>st. Response_HasChange (fst st)"
  "responsePhase_filter cd reg" for cd reg
  by unfold_locales simp_all

subsection \<open>Lemmas of the request phase\<close>

lemma Pool_Get_picks: "Pool_Get new p picks = (x, p', picks') \<Longrightarrow> picks' = tl picks"
  by (auto simp: Pool_Get_def split: list.splits option.splits if_splits)

definition fresh_request :: "hreq \<Rightarrow> nat \<Rightarrow> Request" where
  "fresh_request q c = newRequest\<lparr>req_r := Some q, reqConn := True,
     reqCtx := Some (WithTimeout c 56), reqCancel := Some c\<rparr>"

lemma CreateRequest_fresh:
  assumes "request_pool.pool_ok pool" "GetRootAsHTTPReqCall cd buf = Val q"
  shows "\<exists>r pool'. CreateRequest cd buf pool s =
      (Val r, pool', s\<lparr>ioPicks := tl (ioPicks s), ioNextCtx := Suc (ioNextCtx s)\<rparr>) \<and>
    req_equiv (fresh_request q (ioNextCtx s)) (Request_BindConn True r) \<and> request_pool.pool_ok pool'"
proof -
  obtain r pool' picks where g: "Pool_Get newRequest pool (ioPicks s) = (r, pool', picks)"
    by (cases "Pool_Get newRequest pool (ioPicks s)") auto
  from request_pool.Get_clean [OF assms(1) g] have "request_clean r" "request_pool.pool_ok pool'" by auto
  with g assms(2) Pool_Get_picks [OF g] show ?thesis
    by (simp add: CreateRequest_def Let_def req_equiv_def fresh_request_def newRequest_def
        Request_BindConn_def request_clean_def)
qed

lemma CreateReqResponse_fresh:
  assumes "reqresp_pool.pool_ok pool"
  shows "\<exists>pool'. CreateReqResponse pool picks = (newReqResponse, pool', tl picks) \<and> reqresp_pool.pool_ok pool'"
proof -
  obtain w pool' ps where g: "CreateReqResponse pool picks = (w, pool', ps)"
    by (cases "CreateReqResponse pool picks") auto
  then show ?thesis
    using reqresp_pool.Get_clean [OF assms, of picks w pool' ps] Pool_Get_picks [of newReqResponse pool picks w pool' ps]
    by (simp add: CreateReqResponse_def)
qed

lemma Request_FetchChanges_equiv:
  assumes "req_equiv r r'"
  shows "Request_FetchChanges ro rid r' bd = Request_FetchChanges ro rid r bd"
proof -
  have eq: "reqPath r' = reqPath r" "reqHdr r' = reqHdr r" "reqArgs r' = reqArgs r" "reqBody r' = reqBody r"
    "respHdr r' = respHdr r"
    using assms by (simp_all add: req_equiv_def)
  have args: "(case reqArgs r of None \<Rightarrow> None | Some a \<Rightarrow> Some (build_vector (args_changes ro (rawArgs r') a))) =
    (case reqArgs r of None \<Rightarrow> None | Some a \<Rightarrow> Some (build_vector (args_changes ro (rawArgs r) a)))"
    using assms by (auto simp: req_equiv_def split: option.split)
  show ?thesis unfolding Request_FetchChanges_def Request_hasChanges_def Let_def eq args ..
qed

lemma run_req_rel:
  assumes "req_rel st st'" "run_req cd ro p st = (res, st1)"
  shows "\<exists>st1'. run_req cd ro p st' = (res, st1') \<and> req_rel st1 st1'"
  using request_blind.run_rel [OF assms(1), of cd ro p res st1] assms(2) unfolding run_req_def .

lemma req_rel_changed: "req_rel st st' \<Longrightarrow> ReqResponse_HasChange (fst st') = ReqResponse_HasChange (fst st)"
  by (simp add: req_rel_def)

lemma requestPhase_filter_rel:
  assumes "req_rel st st'" "requestPhase_filter cd ro reg conf st = (res, st1)"
  shows "\<exists>st1'. requestPhase_filter cd ro reg conf st' = (res, st1') \<and> req_rel st1 st1'"
  by (rule request_chain.chain_rel [where R = req_rel, OF _ _ assms]) (rule run_req_rel req_rel_changed; assumption)+

lemma reqCall_finish_rel:
  assumes "req_rel st st'" "reqCall_finish ro f st = (res, st1)"
  shows "\<exists>st1'. reqCall_finish ro f st' = (res, st1') \<and> req_rel st1 st1'"
proof -
  obtain w r s where st: "st = (w, r, s)" by (cases st)
  with assms(1) obtain r' where st': "st' = (w, r', s)" "req_equiv r r'"
    by (cases st') (auto simp: req_rel_def)
  have rid: "Request_ID r' = Request_ID r"
    using st'(2) by (simp add: Request_ID_def with_r_def req_equiv_def)
  have b: "requestPhase_builder ro n (Some w) (Some r') s = requestPhase_builder ro n (Some w) (Some r) s" for n
    by (simp only: requestPhase_builder_def option.case Request_FetchChanges_equiv [OF st'(2)])
  from assms(2) st'(2) show ?thesis
    unfolding reqCall_finish_def st st'(1) prod.case rid b
    by (auto simp: req_rel_def split: rt.splits option.splits prod.splits)
qed

lemma reqCall_main_rel:
  assumes rel: "req_rel st st'" and m: "reqCall_main cd ro T reg st cc = (res, st1, cc1)"
  shows "\<exists>st1'. reqCall_main cd ro T reg st' cc = (res, st1', cc1) \<and> req_rel st1 st1'"
proof -
  have tok: "Request_ConfToken (fst (snd st')) = Request_ConfToken (fst (snd st))"
    using rel by (simp add: req_rel_def req_equiv_def Request_ConfToken_def with_r_def)
  have run: "\<exists>u2'. reqCall_finish ro f u' = (x, u2') \<and> requestPhase_filter cd ro reg conf st' = (f, u') \<and>
      req_rel u2 u2'" if "requestPhase_filter cd ro reg conf st = (f, u)" "reqCall_finish ro f u = (x, u2)"
      "requestPhase_filter cd ro reg conf st' = (f', u')" for conf f u f' u' x u2
    using requestPhase_filter_rel [OF rel that(1)] reqCall_finish_rel [OF _ that(2), of u'] that(3) by auto
  show ?thesis
    using m rel unfolding reqCall_main_def tok Let_def
    by (cases st') (auto split: rt.splits sum.splits prod.splits dest: run)
qed

text \<open>What the phase keeps of the request and of the connection.\<close>

lemma requestPhase_filter_inv:
  "req_inv r0 s0 st \<Longrightarrow> requestPhase_filter cd ro reg conf st = (res, st') \<Longrightarrow> req_inv r0 s0 st'"
  by (rule request_chain.chain_inv [where I = "req_inv r0 s0"])
    (auto simp: run_req_def intro: request_api.run_inv)

lemma requestPhase_builder_frame:
  "requestPhase_builder ro rid w r s = (res, s') \<Longrightarrow> io_frame s s'"
  by (auto simp: requestPhase_builder_def Let_def dest: io_frame_GetBuilder
      split: prod.splits if_splits rt.splits bool.splits)

lemma req_inv_io: "req_inv r0 s0 (w, r, s) \<Longrightarrow> io_frame s s' \<Longrightarrow> req_inv r0 s0 (w, r, s')"
  by (auto simp: req_inv_def intro: io_frame_trans)

lemma reqCall_finish_inv:
  assumes "req_inv r0 s0 st" "reqCall_finish ro f st = (res, st')"
  shows "req_inv r0 s0 st'"
proof -
  obtain w r s where st: "st = (w, r, s)" by (cases st)
  have "req_inv r0 s0 (w, r, s1)" if "requestPhase_builder ro rid (Some w) (Some r) s = (x, s1)" for rid x s1
    using req_inv_io [OF assms(1) [unfolded st] requestPhase_builder_frame [OF that]] .
  with assms show ?thesis
    by (auto simp: reqCall_finish_def st split: rt.splits option.splits prod.splits)
qed

lemma reqCall_main_inv:
  assumes "req_inv r0 s0 st" "reqCall_main cd ro T reg st cc = (res, st', cc')"
  shows "req_inv r0 s0 st'"
proof -
  have "req_inv r0 s0 u'" if "requestPhase_filter cd ro reg conf st = (f, u)" "reqCall_finish ro f u = (x, u')"
    for conf f u x u'
    using reqCall_finish_inv [OF requestPhase_filter_inv [OF assms(1) that(1)] that(2)] .
  with assms show ?thesis
    by (auto simp: reqCall_main_def Let_def split: rt.splits sum.splits prod.splits)
qed

text \<open>The state in which the first filter starts.\<close>

definition req_start :: "hreq \<Rightarrow> io \<Rightarrow> req_state" where
  "req_start q s = (newReqResponse, fresh_request q (ioNextCtx s),
     s\<lparr>ioPicks := tl (tl (ioPicks s)), ioNextCtx := Suc (ioNextCtx s)\<rparr>)"

lemma req_start_inv: "req_inv (fst (snd (req_start q s))) (snd (snd (req_start q s))) (req_start q s)"
  by (simp add: req_inv_def req_start_def request_ok_def fresh_request_def newRequest_def newReqResponse_def
      req_kept_def)

definition pools_ok :: "'k runner \<Rightarrow> bool" where
  "pools_ok rn \<longleftrightarrow> request_pool.pool_ok (rnReqs rn) \<and> reqresp_pool.pool_ok (rnReqResps rn) \<and>
     response_pool.pool_ok (rnResps rn) \<and> builder_pool.pool_ok (ioBuilders (rnIo rn))"

text \<open>Every handler call is a run of \<open>reqCall_main\<close> on fresh objects.\<close>

lemma HTTPReqCall_fresh:
  assumes ok: "pools_ok rn" and dec: "GetRootAsHTTPReqCall cd buf = Val q"
    and main: "reqCall_main cd ro T reg (req_start q (rnIo rn)) (rnCache rn) = (res, (w, r, s), cc)"
  shows "\<exists>rn'. HTTPReqCall cd ro T reg buf rn = (res, rn') \<and> rnCache rn' = cc \<and> pools_ok rn' \<and>
    rnIo rn' = s\<lparr>ioCancelled := ioNextCtx (rnIo rn) # ioCancelled s\<rparr>"
proof -
  let ?c = "ioNextCtx (rnIo rn)"
  let ?s1 = "(rnIo rn)\<lparr>ioPicks := tl (ioPicks (rnIo rn)), ioNextCtx := Suc ?c\<rparr>"
  from ok dec CreateRequest_fresh [of "rnReqs rn" cd buf q "rnIo rn"] obtain r0 reqs where
    cr: "CreateRequest cd buf (rnReqs rn) (rnIo rn) = (Val r0, reqs, ?s1)"
    "req_equiv (fresh_request q ?c) (Request_BindConn True r0)" "request_pool.pool_ok reqs"
    by (auto simp: pools_ok_def)
  from ok CreateReqResponse_fresh [of "rnReqResps rn" "ioPicks ?s1"] obtain resps where
    cw: "CreateReqResponse (rnReqResps rn) (ioPicks ?s1) = (newReqResponse, resps, tl (ioPicks ?s1))"
    "reqresp_pool.pool_ok resps" by (auto simp: pools_ok_def)
  let ?st = "(newReqResponse, Request_BindConn True r0, ?s1\<lparr>ioPicks := tl (ioPicks ?s1)\<rparr>)"
  have "req_rel (req_start q (rnIo rn)) ?st" using cr(2) by (simp add: req_rel_def req_start_def)
  from reqCall_main_rel [OF this main] obtain r' where
    m: "reqCall_main cd ro T reg ?st (rnCache rn) = (res, (w, r', s), cc)" "req_equiv r r'"
    by (auto simp: req_rel_def)
  from reqCall_main_inv [OF req_start_inv main] have inv: "io_frame (snd (snd (req_start q (rnIo rn)))) s"
    and "reqCancel r = Some ?c"
    by (auto simp: req_inv_def req_start_def fresh_request_def req_kept_def)
  with m(2) have c: "reqCancel r' = Some ?c" by (simp add: req_equiv_def)
  have b: "builder_pool.pool_ok (ioBuilders s)"
    using inv ok by (simp add: io_frame_def req_start_def pools_ok_def)
  have ru: "ReuseRequest r' reqs s =
      (Val (), Pool_Put (request_clear r') reqs, s\<lparr>ioCancelled := ?c # ioCancelled s\<rparr>)"
    by (simp add: ReuseRequest_def Request_Reset_def c)
  show ?thesis
    using ok b request_pool.Put_ok [OF cr(3)] reqresp_pool.Put_ok [OF cw(2)]
    by (simp add: HTTPReqCall_def cr(1) cw(1) [simplified] m(1) [simplified] Let_def ru
        ReuseReqResponse_def pools_ok_def)
qed

subsection \<open>Lemmas of the response phase\<close>

definition fresh_response :: "hresp \<Rightarrow> Response" where
  "fresh_response q = newResponse\<lparr>resp_r := Some q, respConn := True\<rparr>"

lemma CreateResponse_fresh:
  assumes "response_pool.pool_ok pool" "GetRootAsHTTPRespCall cd buf = Val q"
  shows "\<exists>r pool'. CreateResponse cd buf pool s = (Val r, pool', s\<lparr>ioPicks := tl (ioPicks s)\<rparr>) \<and>
    resp_equiv (fresh_response q) (Response_BindConn True r) \<and> response_pool.pool_ok pool'"
proof -
  obtain r pool' picks where g: "Pool_Get newResponse pool (ioPicks s) = (r, pool', picks)"
    by (cases "Pool_Get newResponse pool (ioPicks s)") auto
  from response_pool.Get_clean [OF assms(1) g] have r: "response_clean r" "response_pool.pool_ok pool'" by auto
  have "resp_equiv (fresh_response q) (Response_BindConn True (r\<lparr>resp_r := Some q\<rparr>))"
    unfolding resp_equiv_def using r(1)
    by (intro exI [of _ "respInfoHeader r"])
      (simp add: fresh_response_def newResponse_def Response_BindConn_def response_clean_def)
  with g assms(2) Pool_Get_picks [OF g] r(2) show ?thesis
    by (simp add: CreateResponse_def Let_def)
qed

lemma run_resp_rel:
  assumes "resp_rel st st'" "run_resp cd p st = (res, st1)"
  shows "\<exists>st1'. run_resp cd p st' = (res, st1') \<and> resp_rel st1 st1'"
  using response_blind.run_rel [OF assms(1), of cd p res st1] assms(2) unfolding run_resp_def .

lemma resp_rel_changed: "resp_rel st st' \<Longrightarrow> Response_HasChange (fst st') = Response_HasChange (fst st)"
  by (auto simp: resp_rel_def resp_equiv_def Response_HasChange_def)

lemma responsePhase_filter_rel:
  assumes "resp_rel st st'" "responsePhase_filter cd reg conf st = (res, st1)"
  shows "\<exists>st1'. responsePhase_filter cd reg conf st' = (res, st1') \<and> resp_rel st1 st1'"
  by (rule response_chain.chain_rel [where R = resp_rel, OF _ _ assms])
    (rule run_resp_rel resp_rel_changed; assumption)+

lemma respCall_finish_rel:
  assumes "resp_rel st st'" "respCall_finish ro f st = (res, st1)"
  shows "\<exists>st1'. respCall_finish ro f st' = (res, st1') \<and> resp_rel st1 st1'"
proof -
  obtain r s where st: "st = (r, s)" by (cases st)
  with assms(1) obtain h where st': "st' = (r\<lparr>respInfoHeader := h\<rparr>, s)"
    by (cases st') (auto simp: resp_rel_def resp_equiv_def)
  have rid: "Response_ID (r\<lparr>respInfoHeader := h\<rparr>) = Response_ID r"
    by (simp add: Response_ID_def with_resp_def)
  have "Response_FetchChanges ro (r\<lparr>respInfoHeader := h\<rparr>) bd = Response_FetchChanges ro r bd" for bd
    by (cases r) (simp only: Response_FetchChanges_def Response_HasChange_def with_resp_def Response.simps)
  then have b: "responsePhase_builder ro n (Some (r\<lparr>respInfoHeader := h\<rparr>)) s =
      responsePhase_builder ro n (Some r) s" for n
    by (simp only: responsePhase_builder_def option.case)
  from assms(2) show ?thesis
    unfolding respCall_finish_def st st' prod.case rid b
    by (auto simp: resp_rel_def resp_equiv_def split: rt.splits option.splits prod.splits)
qed

lemma respCall_main_rel:
  assumes rel: "resp_rel st st'" and m: "respCall_main cd ro T reg st cc = (res, st1, cc1)"
  shows "\<exists>st1'. respCall_main cd ro T reg st' cc = (res, st1', cc1) \<and> resp_rel st1 st1'"
proof -
  have tok: "Response_ConfToken (fst st') = Response_ConfToken (fst st)"
    using rel by (auto simp: resp_rel_def resp_equiv_def Response_ConfToken_def with_resp_def)
  have run: "\<exists>u2'. respCall_finish ro f u' = (x, u2') \<and> responsePhase_filter cd reg conf st' = (f, u') \<and>
      resp_rel u2 u2'" if "responsePhase_filter cd reg conf st = (f, u)" "respCall_finish ro f u = (x, u2)"
      "responsePhase_filter cd reg conf st' = (f', u')" for conf f u f' u' x u2
    using responsePhase_filter_rel [OF rel that(1)] respCall_finish_rel [OF _ that(2), of u'] that(3) by auto
  show ?thesis
    using m rel unfolding respCall_main_def tok Let_def
    by (cases st') (auto split: rt.splits sum.splits prod.splits dest: run)
qed

lemma responsePhase_filter_inv:
  "resp_inv r0 s0 st \<Longrightarrow> responsePhase_filter cd reg conf st = (res, st') \<Longrightarrow> resp_inv r0 s0 st'"
  by (rule response_chain.chain_inv [where I = "resp_inv r0 s0"])
    (auto simp: run_resp_def intro: response_api.run_inv)

lemma responsePhase_builder_frame:
  "responsePhase_builder ro rid r s = (res, s') \<Longrightarrow> io_frame s s'"
  by (auto simp: responsePhase_builder_def Let_def dest: io_frame_GetBuilder
      split: prod.splits if_splits rt.splits bool.splits)

lemma resp_inv_io: "resp_inv r0 s0 (r, s) \<Longrightarrow> io_frame s s' \<Longrightarrow> resp_inv r0 s0 (r, s')"
  by (auto simp: resp_inv_def intro: io_frame_trans)

lemma respCall_finish_inv:
  assumes "resp_inv r0 s0 st" "respCall_finish ro f st = (res, st')"
  shows "resp_inv r0 s0 st'"
proof -
  obtain r s where st: "st = (r, s)" by (cases st)
  have "resp_inv r0 s0 (r, s1)" if "responsePhase_builder ro rid (Some r) s = (x, s1)" for rid x s1
    using resp_inv_io [OF assms(1) [unfolded st] responsePhase_builder_frame [OF that]] .
  with assms show ?thesis
    by (auto simp: respCall_finish_def st split: rt.splits option.splits prod.splits)
qed

lemma respCall_main_inv:
  assumes "resp_inv r0 s0 st" "respCall_main cd ro T reg st cc = (res, st', cc')"
  shows "resp_inv r0 s0 st'"
proof -
  have "resp_inv r0 s0 u'" if "responsePhase_filter cd reg conf st = (f, u)" "respCall_finish ro f u = (x, u')"
    for conf f u x u'
    using respCall_finish_inv [OF responsePhase_filter_inv [OF assms(1) that(1)] that(2)] .
  with assms show ?thesis
    by (auto simp: respCall_main_def Let_def split: rt.splits sum.splits prod.splits)
qed

definition resp_start :: "hresp \<Rightarrow> io \<Rightarrow> resp_state" where
  "resp_start q s = (fresh_response q, s\<lparr>ioPicks := tl (ioPicks s)\<rparr>)"

lemma resp_start_inv: "resp_inv (fst (resp_start q s)) (snd (resp_start q s)) (resp_start q s)"
  by (simp add: resp_inv_def resp_start_def response_ok_def fresh_response_def newResponse_def resp_kept_def)

lemma HTTPRespCall_fresh:
  assumes ok: "pools_ok rn" and dec: "GetRootAsHTTPRespCall cd buf = Val q"
    and main: "respCall_main cd ro T reg (resp_start q (rnIo rn)) (rnCache rn) = (res, (r, s), cc)"
  shows "\<exists>rn'. HTTPRespCall cd ro T reg buf rn = (res, rn') \<and> rnCache rn' = cc \<and> pools_ok rn' \<and> rnIo rn' = s"
proof -
  let ?s1 = "(rnIo rn)\<lparr>ioPicks := tl (ioPicks (rnIo rn))\<rparr>"
  from ok dec CreateResponse_fresh [of "rnResps rn" cd buf q "rnIo rn"] obtain r0 resps where
    cr: "CreateResponse cd buf (rnResps rn) (rnIo rn) = (Val r0, resps, ?s1)"
    "resp_equiv (fresh_response q) (Response_BindConn True r0)" "response_pool.pool_ok resps"
    by (auto simp: pools_ok_def)
  have "resp_rel (resp_start q (rnIo rn)) (Response_BindConn True r0, ?s1)"
    using cr(2) by (simp add: resp_rel_def resp_start_def)
  from respCall_main_rel [OF this main] obtain r' where
    m: "respCall_main cd ro T reg (Response_BindConn True r0, ?s1) (rnCache rn) = (res, (r', s), cc)"
    by (auto simp: resp_rel_def)
  from respCall_main_inv [OF resp_start_inv main] have "io_frame (snd (resp_start q (rnIo rn))) s"
    by (simp add: resp_inv_def)
  then have b: "builder_pool.pool_ok (ioBuilders s)"
    using ok by (simp add: io_frame_def resp_start_def pools_ok_def)
  show ?thesis
    using ok b response_pool.Put_ok [OF cr(3)]
    by (simp add: HTTPRespCall_def cr(1) m [simplified] Let_def ReuseResponse_def pools_ok_def)
qed

subsection \<open>What a handler does to the connection\<close>

text \<open>Without any assumption on the pools: a handler only consumes input.\<close>

lemma reqCall_main_framed:
  assumes "req_framed s0 st" "reqCall_main cd ro T reg st cc = (res, st', cc')"
  shows "req_framed s0 st'"
proof -
  have run: "req_framed s0 u" if "requestPhase_filter cd ro reg conf st = (f, u)" for conf f u
    by (rule request_chain.chain_inv [where I = "req_framed s0", OF _ assms(1) that])
      (auto simp: run_req_def intro: request_frame.run_inv)
  have fin: "req_framed s0 u'" if "req_framed s0 u" "reqCall_finish ro f u = (x, u')" for f u x u'
    using that by (auto simp: reqCall_finish_def req_framed_def dest!: requestPhase_builder_frame
        split: rt.splits option.splits prod.splits intro: io_frame_trans)
  have "req_framed s0 u'" if "requestPhase_filter cd ro reg conf st = (f, u)" "reqCall_finish ro f u = (x, u')"
    for conf f u x u'
    using fin [OF run [OF that(1)] that(2)] .
  with assms show ?thesis
    by (auto simp: reqCall_main_def Let_def split: rt.splits sum.splits prod.splits)
qed

lemma respCall_main_framed:
  assumes "resp_framed s0 st" "respCall_main cd ro T reg st cc = (res, st', cc')"
  shows "resp_framed s0 st'"
proof -
  have run: "resp_framed s0 u" if "responsePhase_filter cd reg conf st = (f, u)" for conf f u
    by (rule response_chain.chain_inv [where I = "resp_framed s0", OF _ assms(1) that])
      (auto simp: run_resp_def intro: response_frame.run_inv)
  have fin: "resp_framed s0 u'" if "resp_framed s0 u" "respCall_finish ro f u = (x, u')" for f u x u'
    using that by (auto simp: respCall_finish_def resp_framed_def dest!: responsePhase_builder_frame
        split: rt.splits option.splits prod.splits intro: io_frame_trans)
  have "resp_framed s0 u'" if "responsePhase_filter cd reg conf st = (f, u)" "respCall_finish ro f u = (x, u')"
    for conf f u x u'
    using fin [OF run [OF that(1)] that(2)] .
  with assms show ?thesis
    by (auto simp: respCall_main_def Let_def split: rt.splits sum.splits prod.splits)
qed

definition input_left :: "'k runner \<Rightarrow> nat" where
  "input_left rn = rd_left (ioConn (rnIo rn))"

lemma HTTPReqCall_input:
  assumes h: "HTTPReqCall cd ro T reg buf rn = (res, rn')"
  shows "input_left rn' \<le> input_left rn"
proof -
  obtain cr reqs s where c: "CreateRequest cd buf (rnReqs rn) (rnIo rn) = (cr, reqs, s)"
    by (cases "CreateRequest cd buf (rnReqs rn) (rnIo rn)") auto
  then have s: "ioConn s = ioConn (rnIo rn)"
    by (auto simp: CreateRequest_def Let_def split: prod.splits rt.splits)
  show ?thesis
  proof (cases cr)
    case (Val r0)
    obtain w ws picks where cw: "CreateReqResponse (rnReqResps rn) (ioPicks s) = (w, ws, picks)"
      by (cases "CreateReqResponse (rnReqResps rn) (ioPicks s)") auto
    let ?st = "(w, Request_BindConn True r0, s\<lparr>ioPicks := picks\<rparr>)"
    obtain m w' r' s' cc where main: "reqCall_main cd ro T reg ?st (rnCache rn) = (m, (w', r', s'), cc)"
      by (cases "reqCall_main cd ro T reg ?st (rnCache rn)") auto
    have "req_framed (s\<lparr>ioPicks := picks\<rparr>) ?st" by (simp add: req_framed_def)
    from reqCall_main_framed [OF this main] s have "rd_left (ioConn s') \<le> input_left rn"
      by (simp add: req_framed_def io_frame_def input_left_def)
    moreover have "ioConn (rnIo rn') = ioConn s'"
      using h by (auto simp: HTTPReqCall_def c Val cw main Let_def ReuseRequest_def Request_Reset_def
          split: prod.splits option.splits)
    ultimately show ?thesis by (simp add: input_left_def)
  next
    case Panic
    with h c s show ?thesis by (auto simp: HTTPReqCall_def input_left_def)
  qed
qed

lemma HTTPRespCall_input:
  assumes h: "HTTPRespCall cd ro T reg buf rn = (res, rn')"
  shows "input_left rn' \<le> input_left rn"
proof -
  obtain cr resps s where c: "CreateResponse cd buf (rnResps rn) (rnIo rn) = (cr, resps, s)"
    by (cases "CreateResponse cd buf (rnResps rn) (rnIo rn)") auto
  then have s: "ioConn s = ioConn (rnIo rn)"
    by (auto simp: CreateResponse_def Let_def split: prod.splits rt.splits)
  show ?thesis
  proof (cases cr)
    case (Val r0)
    let ?st = "(Response_BindConn True r0, s)"
    obtain m r' s' cc where main: "respCall_main cd ro T reg ?st (rnCache rn) = (m, (r', s'), cc)"
      by (cases "respCall_main cd ro T reg ?st (rnCache rn)") auto
    have "resp_framed s ?st" by (simp add: resp_framed_def)
    from respCall_main_framed [OF this main] s have "rd_left (ioConn s') \<le> input_left rn"
      by (simp add: resp_framed_def io_frame_def input_left_def)
    with h c Val main show ?thesis by (auto simp: HTTPRespCall_def Let_def input_left_def)
  next
    case Panic
    with h c s show ?thesis by (auto simp: HTTPRespCall_def input_left_def)
  qed
qed

subsection \<open>The answers\<close>

text \<open>The action of the answer: the stop action of the response, if there is one, else the rewrite
  action of a changed request, else none.\<close>

definition answer_kind :: "range_orders \<Rightarrow> u32 \<Rightarrow> ReqResponse \<Rightarrow> Request \<Rightarrow> action option \<Rightarrow> bool" where
  "answer_kind ro rid w r act \<longleftrightarrow>
     (if ReqResponse_HasChange w then
        (\<exists>stop. act = Some (ActionStop stop)) \<and>
        (\<forall>bd. ReqResponse_FetchChanges ro rid w bd = (True, Finish (MsgHTTPReqResp rid act) bd))
      else if Request_hasChanges r then
        (\<exists>rw. act = Some (ActionRewrite rw)) \<and>
        (\<forall>bd. Request_FetchChanges ro rid r bd = Val (True, Finish (MsgHTTPReqResp rid act) bd))
      else act = None)"

lemma ReqResponse_FetchChanges_kind:
  "ReqResponse_HasChange w \<Longrightarrow>
    \<exists>stop. \<forall>bd. ReqResponse_FetchChanges ro rid w bd = (True, Finish (MsgHTTPReqResp rid (Some (ActionStop stop))) bd)"
  by (simp only: ReqResponse_FetchChanges_def Let_def simp_thms if_False) (rule exI, rule allI, rule refl)

lemma Request_FetchChanges_kind:
  assumes "request_ok r" "ranges_ok ro" "Request_hasChanges r"
  shows "\<exists>rw. \<forall>bd. Request_FetchChanges ro rid r bd =
    Val (True, Finish (MsgHTTPReqResp rid (Some (ActionRewrite rw))) bd)"
proof -
  have "\<exists>es. HeaderBuild (ro RDeleteField) (ro RHdr) h = Val es" if "reqHdr r = Some h" for h
    using assms that HeaderBuild_closed [of h "ro RHdr" "ro RDeleteField"]
    by (simp add: request_ok_def ranges_okD)
  then obtain hv where hv: "(case reqHdr r of None \<Rightarrow> Val None | Some h \<Rightarrow>
      (case HeaderBuild (ro RDeleteField) (ro RHdr) h of Panic \<Rightarrow> Panic
       | Val hdrs \<Rightarrow> Val (Some (build_vector hdrs)))) = Val hv"
    by (cases "reqHdr r") auto
  show ?thesis
    using assms(3) by (simp only: Request_FetchChanges_def hv rt.case Let_def simp_thms if_False)
      (rule exI, rule allI, rule refl)
qed

lemma requestPhase_builder_kind:
  assumes "request_ok r" "ranges_ok ro"
  shows "\<exists>bd s' act. requestPhase_builder ro rid (Some w) (Some r) s = (Val bd, s') \<and>
    bdMsg bd = Some (MsgHTTPReqResp rid act) \<and> answer_kind ro rid w r act"
proof -
  obtain b s1 where g: "GetBuilder s = (b, s1)" by (cases "GetBuilder s") auto
  show ?thesis
  proof (cases "ReqResponse_HasChange w")
    case True
    with ReqResponse_FetchChanges_kind [OF True, of ro rid] obtain stop where
      st: "\<forall>bd. ReqResponse_FetchChanges ro rid w bd = (True, Finish (MsgHTTPReqResp rid (Some (ActionStop stop))) bd)"
      by blast
    then have "answer_kind ro rid w r (Some (ActionStop stop))" using True by (simp add: answer_kind_def)
    with st show ?thesis by (simp add: requestPhase_builder_def g) (auto simp: Finish_def)
  next
    case False
    then have w: "ReqResponse_FetchChanges ro rid w b = (False, b)"
      by (simp add: ReqResponse_FetchChanges_def)
    show ?thesis
    proof (cases "Request_hasChanges r")
      case True
      with Request_FetchChanges_kind [OF assms True, of rid] obtain rw where
        rw: "\<forall>bd. Request_FetchChanges ro rid r bd = Val (True, Finish (MsgHTTPReqResp rid (Some (ActionRewrite rw))) bd)"
        by blast
      then have "answer_kind ro rid w r (Some (ActionRewrite rw))" using True False by (simp add: answer_kind_def)
      with rw w show ?thesis by (simp add: requestPhase_builder_def g) (auto simp: Finish_def)
    next
      case no: False
      then have "Request_FetchChanges ro rid r b = Val (False, b)" by (simp add: Request_FetchChanges_def)
      with False no w show ?thesis
        by (simp add: requestPhase_builder_def g answer_kind_def Finish_def)
    qed
  qed
qed

lemma reqCall_main_answer:
  assumes "ranges_ok ro" "GetRuleConf T (hqConfToken q) cc0 = (Val (Inr conf), cc)"
    and f: "requestPhase_filter cd ro reg conf (req_start q s0) = (Val e, (w, r, s))"
  shows "\<exists>bd s' act. reqCall_main cd ro T reg (req_start q s0) cc0 = (Val (Inr bd), (w, r, s'), cc) \<and>
    bdMsg bd = Some (MsgHTTPReqResp (hqId q) act) \<and> answer_kind ro (hqId q) w r act"
proof -
  from requestPhase_filter_inv [OF req_start_inv f] have ok: "request_ok r" and id: "Request_ID r = Val (hqId q)"
    by (auto simp: req_inv_def req_start_def fresh_request_def req_kept_def Request_ID_def with_r_def)
  have tok: "Request_ConfToken (fst (snd (req_start q s0))) = Val (hqConfToken q)"
    by (simp add: req_start_def fresh_request_def Request_ConfToken_def with_r_def)
  have e: "e = None" using request_chain.chain_no_error [OF f] .
  from requestPhase_builder_kind [OF ok assms(1), of "hqId q" w s] show ?thesis
    using assms(2) f by (auto simp: reqCall_main_def tok e reqCall_finish_def id)
qed

subsection \<open>Sample values\<close>

definition sample_hreq :: hreq where
  "sample_hreq = \<lparr>hqId = 9, hqConfToken = 1, hqSrcIp = [127, 0, 0, 1], hqMethod = 0, hqPath = Some [47],
     hqHeaders = [Some \<lparr>teName = Some [65], teValue = Some [66]\<rparr>], hqArgs = []\<rparr>"

definition sample_hresp :: hresp where
  "sample_hresp = \<lparr>hpId = 9, hpConfToken = 1, hpStatus = 200,
     hpHeaders = [Some \<lparr>teName = Some [65], teValue = Some [66]\<rparr>]\<rparr>"

definition sample_codec :: codec where
  "sample_codec = \<lparr>GetRootAsHTTPReqCall = \<lambda>b. if b = [] then Panic else Val sample_hreq,
     GetRootAsHTTPRespCall = \<lambda>b. if b = [] then Panic else Val sample_hresp,
     GetRootAsPrepareConf = \<lambda>b. if b = [] then Panic else Val sample_preq,
     GetRootAsExtraInfoResp = \<lambda>b. Val (Some b), MethodString = \<lambda>_. ''GET'', encode_msg = \<lambda>_. [1, 2, 3]\<rparr>"

definition stop_opts :: "bytes pluginOpts" where
  "stop_opts = \<lparr>ParseConf = (\<lambda>b. Val (case b of None \<Rightarrow> Inl (OtherError ''empty'') | Some x \<Rightarrow> Inr x)),
     RequestFilter = (\<lambda>c. Call (CallWrite c) (\<lambda>_. Done)),
     ResponseFilter = (\<lambda>c. Call (RCallHeaderGet ''A'') (\<lambda>_. Done))\<rparr>"

definition sample_runner :: "(string \<Rightarrow> bytes cache_val option) runner" where
  "sample_runner = \<lparr>rnCache = \<lparr>tokenCache = [token_key 1 \<mapsto> CConf [(''x'', [1]), (''p'', [7]), (''p'', [8])]],
       keyCache = Map.empty, tokenCounter = 1\<rparr>,
     rnReqs = [newRequest\<lparr>extraInfoHeader := [1, 2, 3, 4], rawArgs := [(''k'', [])]\<rparr>],
     rnReqResps = [], rnResps = [newResponse],
     rnIo = \<lparr>ioConn = \<lparr>rd = [], wr = [], sent = [], closed = False\<rparr>, ioBuilders = [NewBuilder],
       ioPicks = [Some 0, None, Some 0], ioNextCtx = 1, ioCancelled = [0]\<rparr>\<rparr>"

lemma sample_runner_ok: "pools_ok sample_runner"
  by (simp add: pools_ok_def sample_runner_def request_pool.pool_ok_def reqresp_pool.pool_ok_def
      response_pool.pool_ok_def builder_pool.pool_ok_def request_clean_def newRequest_def
      response_clean_def newResponse_def builder_clean_def NewBuilder_def)

lemma sample_codec_req: "GetRootAsHTTPReqCall sample_codec [1] = Val sample_hreq"
  and sample_codec_resp: "GetRootAsHTTPRespCall sample_codec [1] = Val sample_hresp"
  by (simp_all add: sample_codec_def)

lemma sample_GetRuleConf:
  "GetRuleConf map_ttl 1 (rnCache sample_runner) =
    (Val (Inr [(''x'', [1]), (''p'', [7]), (''p'', [8])]), rnCache sample_runner)"
  by (simp add: GetRuleConf_def ConfCache_Get_def map_ttl_def sample_runner_def)

subsection \<open>Properties of the phases\<close>

text \<open>C1: the answer to a request.  When the token is known and the filters return, the handler
  answers, without panicking while it collects the changes, with a message that echoes the
  id of the request and carries the stop action made of the response exactly when some filter
  wrote one, the rewrite action made of the request exactly when there is no response but
  the request was touched, and nothing otherwise.  The filters run on a fresh request and response, whatever the pools handed
  out.\<close>

theorem HTTPReqCall_answer:
  assumes "pools_ok rn" "ranges_ok ro" "GetRootAsHTTPReqCall cd buf = Val q"
    and "GetRuleConf T (hqConfToken q) (rnCache rn) = (Val (Inr conf), cc)"
    and "requestPhase_filter cd ro reg conf (req_start q (rnIo rn)) = (Val e, (w, r, s))"
  shows "\<exists>bd act. fst (HTTPReqCall cd ro T reg buf rn) = Val (Inr bd) \<and>
    bdMsg bd = Some (MsgHTTPReqResp (hqId q) act) \<and>
    (if ReqResponse_HasChange w then
       (\<exists>stop. act = Some (ActionStop stop)) \<and>
       (\<forall>bd. ReqResponse_FetchChanges ro (hqId q) w bd = (True, Finish (MsgHTTPReqResp (hqId q) act) bd))
     else if Request_hasChanges r then
       (\<exists>rw. act = Some (ActionRewrite rw)) \<and>
       (\<forall>bd. Request_FetchChanges ro (hqId q) r bd = Val (True, Finish (MsgHTTPReqResp (hqId q) act) bd))
     else act = None)"
proof -
  from reqCall_main_answer [OF assms(2,4,5)] obtain bd s' act where
    m: "reqCall_main cd ro T reg (req_start q (rnIo rn)) (rnCache rn) = (Val (Inr bd), (w, r, s'), cc)"
    "bdMsg bd = Some (MsgHTTPReqResp (hqId q) act)" "answer_kind ro (hqId q) w r act" by blast
  from HTTPReqCall_fresh [OF assms(1,3) m(1)] m(2) show ?thesis
    using m(3) [unfolded answer_kind_def] by (intro exI [of _ bd] exI [of _ act]) auto
qed

theorem HTTPReqCall_answer_witness:
  "\<exists>bd stop. fst (HTTPReqCall sample_codec (\<lambda>_. rev) map_ttl [(''p'', stop_opts)] [1] sample_runner) =
      Val (Inr bd) \<and> bdMsg bd = Some (MsgHTTPReqResp 9 (Some (ActionStop stop)))"
proof -
  have "hqConfToken sample_hreq = 1" "hqId sample_hreq = 9" by (simp_all add: sample_hreq_def)
  moreover obtain w r s where f: "requestPhase_filter sample_codec (\<lambda>_. rev) [(''p'', stop_opts)]
      [(''x'', [1]), (''p'', [7]), (''p'', [8])] (req_start sample_hreq (rnIo sample_runner)) = (Val None, (w, r, s))"
    "ReqResponse_HasChange w"
    by (simp add: req_start_def findPlugin_def stop_opts_def run_req_def on_w_def ReqResponse_Write_def
        ReqResponse_HasChange_def)
  ultimately show ?thesis
    using HTTPReqCall_answer [OF sample_runner_ok ranges_ok_rev sample_codec_req, of map_ttl
        "[(''x'', [1]), (''p'', [7]), (''p'', [8])]" "rnCache sample_runner" "[(''p'', stop_opts)]" None w r s]
      sample_GetRuleConf by auto
qed

text \<open>C15: the filters run in order until a response exists.  Starting without a response, the
  plugins of a second part of the list run exactly when the first part neither panicked nor
  produced a response, and then on the state the first part left; plugins that are not
  registered do not matter; \<open>filter\<close> reports no error.\<close>

theorem requestPhase_filter_sequence:
  assumes "\<not> ReqResponse_HasChange w"
  shows "requestPhase_filter cd ro reg (pre @ post) (w, r, s) =
      (case requestPhase_filter cd ro reg pre (w, r, s) of
         (Panic, st) \<Rightarrow> (Panic, st)
       | (Val e, st) \<Rightarrow> if ReqResponse_HasChange (fst st) then (Val e, st)
                       else requestPhase_filter cd ro reg post st) \<and>
    requestPhase_filter cd ro reg pre (w, r, s) =
      requestPhase_filter cd ro reg (filter (\<lambda>(name, v). findPlugin reg name \<noteq> None) pre) (w, r, s) \<and>
    fst (requestPhase_filter cd ro reg pre (w, r, s)) \<in> {Panic, Val None}"
proof (intro conjI)
  show "requestPhase_filter cd ro reg (pre @ post) (w, r, s) =
      (case requestPhase_filter cd ro reg pre (w, r, s) of
         (Panic, st) \<Rightarrow> (Panic, st)
       | (Val e, st) \<Rightarrow> if ReqResponse_HasChange (fst st) then (Val e, st)
                       else requestPhase_filter cd ro reg post st)"
    by (rule request_chain.chain_append) (use assms in simp)
  show "requestPhase_filter cd ro reg pre (w, r, s) =
      requestPhase_filter cd ro reg (filter (\<lambda>(name, v). findPlugin reg name \<noteq> None) pre) (w, r, s)"
    by (rule request_chain.chain_known)
  obtain f st where f: "requestPhase_filter cd ro reg pre (w, r, s) = (f, st)"
    by (cases "requestPhase_filter cd ro reg pre (w, r, s)") auto
  then show "fst (requestPhase_filter cd ro reg pre (w, r, s)) \<in> {Panic, Val None}"
    using request_chain.chain_no_error [of cd ro reg pre "(w, r, s)"] by (cases f) auto
qed

theorem requestPhase_filter_sequence_witness:
  "requestPhase_filter sample_codec (\<lambda>_. rev) [(''p'', stop_opts)] ([(''p'', [7])] @ [(''p'', [8])])
     (newReqResponse, newRequest, rnIo sample_runner) =
   requestPhase_filter sample_codec (\<lambda>_. rev) [(''p'', stop_opts)] [(''p'', [7])]
     (newReqResponse, newRequest, rnIo sample_runner)"
  using requestPhase_filter_sequence [of newReqResponse sample_codec "\<lambda>_. rev" "[(''p'', stop_opts)]"
      "[(''p'', [7])]" "[(''p'', [8])]" newRequest "rnIo sample_runner"]
  by (simp add: newReqResponse_def ReqResponse_HasChange_def findPlugin_def stop_opts_def run_req_def on_w_def
      ReqResponse_Write_def)

text \<open>C26: an unknown token.  When the lookup of the token fails, the handler returns that error,
  no filter runs and nothing is read from or written to the connection.\<close>

theorem HTTPReqCall_unknown_token:
  assumes "pools_ok rn" "GetRootAsHTTPReqCall cd buf = Val q"
    and "GetRuleConf T (hqConfToken q) (rnCache rn) = (Val (Inl err), cc)"
  shows "\<exists>rn'. HTTPReqCall cd ro T reg buf rn = (Val (Inl err), rn') \<and> rnCache rn' = cc \<and>
    ioConn (rnIo rn') = ioConn (rnIo rn)"
proof -
  let ?st = "req_start q (rnIo rn)"
  have tok: "Request_ConfToken (fst (snd ?st)) = Val (hqConfToken q)"
    by (simp add: req_start_def fresh_request_def Request_ConfToken_def with_r_def)
  have "reqCall_main cd ro T reg ?st (rnCache rn) = (Val (Inl err), (fst ?st, fst (snd ?st), snd (snd ?st)), cc)"
    using assms(3) by (simp add: reqCall_main_def tok)
  from HTTPReqCall_fresh [OF assms(1,2) this] show ?thesis by (auto simp: req_start_def)
qed

theorem HTTPReqCall_unknown_token_witness:
  "\<exists>rn'. HTTPReqCall sample_codec (\<lambda>_. rev) map_ttl [(''p'', stop_opts)] [1]
     (sample_runner\<lparr>rnCache := \<lparr>tokenCache = Map.empty, keyCache = Map.empty, tokenCounter = 1\<rparr>\<rparr>) =
     (Val (Inl ErrNotFound), rn') \<and> ioConn (rnIo rn') = ioConn (rnIo sample_runner)"
proof -
  let ?rn = "sample_runner\<lparr>rnCache := \<lparr>tokenCache = Map.empty, keyCache = Map.empty, tokenCounter = 1\<rparr>\<rparr>"
  have "pools_ok ?rn" using sample_runner_ok by (simp add: pools_ok_def)
  from HTTPReqCall_unknown_token [OF this sample_codec_req, of map_ttl ErrNotFound "rnCache ?rn"
      "\<lambda>_. rev" "[(''p'', stop_opts)]"]
  show ?thesis by (auto simp: GetRuleConf_def ConfCache_Get_def map_ttl_def)
qed

text \<open>Every context that was created has been cancelled, and only once.\<close>

definition ctx_ok :: "io \<Rightarrow> bool" where
  "ctx_ok s \<longleftrightarrow> mset (ioCancelled s) = mset [0..<ioNextCtx s]"

lemma HTTPReqCall_keeps:
  assumes ok: "pools_ok rn" "ctx_ok (rnIo rn)" and h: "HTTPReqCall cd ro T reg buf rn = (res, rn')"
  shows "pools_ok rn' \<and> ctx_ok (rnIo rn') \<and> closed (ioConn (rnIo rn')) = closed (ioConn (rnIo rn)) \<and>
    rd_left (ioConn (rnIo rn')) \<le> rd_left (ioConn (rnIo rn))"
proof (cases "GetRootAsHTTPReqCall cd buf")
  case (Val q)
  obtain m w r s cc where main: "reqCall_main cd ro T reg (req_start q (rnIo rn)) (rnCache rn) = (m, (w, r, s), cc)"
    by (cases "reqCall_main cd ro T reg (req_start q (rnIo rn)) (rnCache rn)") auto
  from reqCall_main_inv [OF req_start_inv main]
  have "io_frame (snd (snd (req_start q (rnIo rn)))) s" by (simp add: req_inv_def)
  with HTTPReqCall_fresh [OF ok(1) Val main] h ok(2) show ?thesis
    by (auto simp: io_frame_def req_start_def ctx_ok_def)
next
  case Panic
  obtain r pool' picks where g: "Pool_Get newRequest (rnReqs rn) (ioPicks (rnIo rn)) = (r, pool', picks)"
    by (cases "Pool_Get newRequest (rnReqs rn) (ioPicks (rnIo rn))") auto
  with Panic h have "rn' = rn\<lparr>rnReqs := pool', rnIo := (rnIo rn)\<lparr>ioPicks := picks\<rparr>\<rparr>"
    by (simp add: HTTPReqCall_def CreateRequest_def Let_def)
  with ok request_pool.Get_clean [OF _ g] show ?thesis by (simp add: pools_ok_def ctx_ok_def)
qed

text \<open>C12: no request leaks into the next one.  On every way out of the handler, a normal answer, an
  error or a panic of a filter, the objects in the pools are cleared, every context created
  so far is cancelled, exactly once, and the connection is left open.\<close>

theorem HTTPReqCall_cleanup:
  assumes "pools_ok rn" "ctx_ok (rnIo rn)"
  shows "pools_ok (snd (HTTPReqCall cd ro T reg buf rn)) \<and>
    ctx_ok (rnIo (snd (HTTPReqCall cd ro T reg buf rn))) \<and>
    closed (ioConn (rnIo (snd (HTTPReqCall cd ro T reg buf rn)))) = closed (ioConn (rnIo rn))"
  using HTTPReqCall_keeps [OF assms, of cd ro T reg buf] by (cases "HTTPReqCall cd ro T reg buf rn") auto

theorem HTTPReqCall_cleanup_witness:
  "pools_ok (snd (HTTPReqCall sample_codec (\<lambda>_. rev) map_ttl [(''p'', stop_opts)] [1] sample_runner)) \<and>
   ctx_ok (rnIo (snd (HTTPReqCall sample_codec (\<lambda>_. rev) map_ttl [(''p'', stop_opts)] [1] sample_runner)))"
proof -
  have "ctx_ok (rnIo sample_runner)" by (simp add: ctx_ok_def sample_runner_def)
  from HTTPReqCall_cleanup [OF sample_runner_ok this, of sample_codec "\<lambda>_. rev" map_ttl
      "[(''p'', stop_opts)]" "[1]"] show ?thesis by (elim conjE) (intro conjI)
qed

text \<open>The pools cannot be observed.  Two runners that differ in the contents of their (clean)
  request and response pools answer a call alike: the same result, the same bytes on the
  connection, the same cache.\<close>

lemma HTTPReqCall_pool_blind:
  assumes "pools_ok rn" "pools_ok (rn\<lparr>rnReqs := reqs, rnReqResps := resps\<rparr>)"
  shows "let (res, rn1) = HTTPReqCall cd ro T reg buf rn;
             (res', rn1') = HTTPReqCall cd ro T reg buf (rn\<lparr>rnReqs := reqs, rnReqResps := resps\<rparr>)
         in res' = res \<and> rnIo rn1' = rnIo rn1 \<and> rnCache rn1' = rnCache rn1"
proof (cases "GetRootAsHTTPReqCall cd buf")
  case (Val q)
  obtain m w r s cc where main: "reqCall_main cd ro T reg (req_start q (rnIo rn)) (rnCache rn) = (m, (w, r, s), cc)"
    by (cases "reqCall_main cd ro T reg (req_start q (rnIo rn)) (rnCache rn)") auto
  from HTTPReqCall_fresh [OF assms(1) Val main] HTTPReqCall_fresh [OF assms(2) Val, of ro T reg m w r s cc] main
  show ?thesis by auto
next
  case Panic
  then show ?thesis
    by (auto simp: HTTPReqCall_def CreateRequest_def Let_def split: prod.splits dest!: Pool_Get_picks)
qed

lemma HTTPReqCall_pool_blind_sample:
  "fst (HTTPReqCall sample_codec (\<lambda>_. rev) map_ttl [(''p'', stop_opts)] [1] sample_runner) =
   fst (HTTPReqCall sample_codec (\<lambda>_. rev) map_ttl [(''p'', stop_opts)] [1]
     (sample_runner\<lparr>rnReqs := [], rnReqResps := []\<rparr>))"
proof -
  have "pools_ok (sample_runner\<lparr>rnReqs := [], rnReqResps := []\<rparr>)"
    using sample_runner_ok by (simp add: pools_ok_def request_pool.pool_ok_Nil reqresp_pool.pool_ok_Nil)
  from HTTPReqCall_pool_blind [OF sample_runner_ok this, of sample_codec "\<lambda>_. rev" map_ttl
      "[(''p'', stop_opts)]" "[1]"] show ?thesis
    by (auto simp: Let_def split: prod.splits)
qed

lemma responsePhase_builder_answer:
  assumes "response_ok r" "ranges_ok ro" "resp_r r = Some q"
  shows "\<exists>bd s' hdrs. responsePhase_builder ro (hpId q) (Some r) s = (Val bd, s') \<and>
    bdMsg bd = Some (MsgHTTPRespResp (hpId q)
      (if statusCode r \<noteq> 0 then Some (word_of_int (statusCode r)) else None) hdrs
      (case respBody r of None \<Rightarrow> None | Some b \<Rightarrow> if b = [] then None else Some b)) \<and>
    (case respHeader r of None \<Rightarrow> hdrs = None
     | Some h \<Rightarrow> \<exists>es. HeaderBuild (ro RDeleteField) (ro RHdr) h = Val es \<and> hdrs = Some (build_vector es))"
proof -
  obtain b s1 where g: "GetBuilder s = (b, s1)" by (cases "GetBuilder s") auto
  have "\<exists>es. HeaderBuild (ro RDeleteField) (ro RHdr) h = Val es" if "respHeader r = Some h" for h
    using assms that HeaderBuild_closed [of h "ro RHdr" "ro RDeleteField"]
    by (simp add: response_ok_def ranges_okD)
  then show ?thesis
    using assms(3)
    by (cases "respHeader r"; cases "respBody r"; cases "statusCode r = 0")
      (auto simp: responsePhase_builder_def g Response_FetchChanges_def Response_HasChange_def Let_def
        with_resp_def Finish_def)
qed

lemma respCall_main_answer:
  assumes "ranges_ok ro" "GetRuleConf T (hpConfToken q) cc0 = (Val (Inr conf), cc)"
    and f: "responsePhase_filter cd reg conf (resp_start q s0) = (Val e, (r, s))"
  shows "\<exists>bd s' hdrs. respCall_main cd ro T reg (resp_start q s0) cc0 = (Val (Inr bd), (r, s'), cc) \<and>
    bdMsg bd = Some (MsgHTTPRespResp (hpId q)
      (if statusCode r \<noteq> 0 then Some (word_of_int (statusCode r)) else None) hdrs
      (case respBody r of None \<Rightarrow> None | Some b \<Rightarrow> if b = [] then None else Some b)) \<and>
    (case respHeader r of None \<Rightarrow> hdrs = None
     | Some h \<Rightarrow> \<exists>es. HeaderBuild (ro RDeleteField) (ro RHdr) h = Val es \<and> hdrs = Some (build_vector es))"
proof -
  from responsePhase_filter_inv [OF resp_start_inv f] have ok: "response_ok r" and q: "resp_r r = Some q"
    by (auto simp: resp_inv_def resp_start_def fresh_response_def resp_kept_def)
  have id: "Response_ID r = Val (hpId q)" using q by (simp add: Response_ID_def with_resp_def)
  have tok: "Response_ConfToken (fst (resp_start q s0)) = Val (hpConfToken q)"
    by (simp add: resp_start_def fresh_response_def Response_ConfToken_def with_resp_def)
  have e: "e = None" using response_chain.chain_no_error [OF f] .
  from responsePhase_builder_answer [OF ok assms(1) q, of s] obtain bd s' hdrs where
    b: "responsePhase_builder ro (hpId q) (Some r) s = (Val bd, s')"
    "bdMsg bd = Some (MsgHTTPRespResp (hpId q)
      (if statusCode r \<noteq> 0 then Some (word_of_int (statusCode r)) else None) hdrs
      (case respBody r of None \<Rightarrow> None | Some b \<Rightarrow> if b = [] then None else Some b))"
    "case respHeader r of None \<Rightarrow> hdrs = None
     | Some h \<Rightarrow> \<exists>es. HeaderBuild (ro RDeleteField) (ro RHdr) h = Val es \<and> hdrs = Some (build_vector es)" by (elim exE conjE) (rule that)
  then have "respCall_main cd ro T reg (resp_start q s0) cc0 = (Val (Inr bd), (r, s'), cc)"
    using assms(2) f by (simp add: respCall_main_def tok e respCall_finish_def id)
  with b(2,3) show ?thesis by (intro exI conjI)
qed

text \<open>C22: the answer in the response phase.  When the token is known and the filters return, the
  handler answers with a message that echoes the id and carries the status if a filter set
  one, the body if a filter wrote a non-empty one, and the entries \<open>HeaderBuild\<close> makes of the
  header if a filter asked for it; the filters run on a fresh response.\<close>

theorem HTTPRespCall_answer:
  assumes "pools_ok rn" "ranges_ok ro" "GetRootAsHTTPRespCall cd buf = Val q"
    and "GetRuleConf T (hpConfToken q) (rnCache rn) = (Val (Inr conf), cc)"
    and "responsePhase_filter cd reg conf (resp_start q (rnIo rn)) = (Val e, (r, s))"
  shows "\<exists>bd hdrs. fst (HTTPRespCall cd ro T reg buf rn) = Val (Inr bd) \<and>
    bdMsg bd = Some (MsgHTTPRespResp (hpId q)
      (if statusCode r \<noteq> 0 then Some (word_of_int (statusCode r)) else None) hdrs
      (case respBody r of None \<Rightarrow> None | Some b \<Rightarrow> if b = [] then None else Some b)) \<and>
    (case respHeader r of None \<Rightarrow> hdrs = None
     | Some h \<Rightarrow> \<exists>es. HeaderBuild (ro RDeleteField) (ro RHdr) h = Val es \<and> hdrs = Some (build_vector es))"
proof -
  from respCall_main_answer [OF assms(2,4,5)] obtain bd s' hdrs where
    m: "respCall_main cd ro T reg (resp_start q (rnIo rn)) (rnCache rn) = (Val (Inr bd), (r, s'), cc)"
    "bdMsg bd = Some (MsgHTTPRespResp (hpId q)
      (if statusCode r \<noteq> 0 then Some (word_of_int (statusCode r)) else None) hdrs
      (case respBody r of None \<Rightarrow> None | Some b \<Rightarrow> if b = [] then None else Some b))"
    "case respHeader r of None \<Rightarrow> hdrs = None
     | Some h \<Rightarrow> \<exists>es. HeaderBuild (ro RDeleteField) (ro RHdr) h = Val es \<and> hdrs = Some (build_vector es)" by (elim exE conjE) (rule that)
  from HTTPRespCall_fresh [OF assms(1,3) m(1)] m(2,3) show ?thesis by auto
qed

theorem HTTPRespCall_answer_witness:
  "\<exists>bd hdrs. fst (HTTPRespCall sample_codec (\<lambda>_. rev) map_ttl [(''p'', stop_opts)] [1] sample_runner) =
      Val (Inr bd) \<and> bdMsg bd = Some (MsgHTTPRespResp 9 None (Some hdrs) None)"
proof -
  have q: "hpConfToken sample_hresp = 1" "hpId sample_hresp = 9" by (simp_all add: sample_hresp_def)
  obtain r s where f: "responsePhase_filter sample_codec [(''p'', stop_opts)]
      [(''x'', [1]), (''p'', [7]), (''p'', [8])] (resp_start sample_hresp (rnIo sample_runner)) = (Val None, (r, s))"
    "statusCode r = 0" "respBody r = None" "respHeader r \<noteq> None"
    by (simp add: resp_start_def findPlugin_def stop_opts_def run_resp_def on_resp_def resp_get_header_def
        Response_Header_def with_resp_def fresh_response_def newResponse_def Response_HasChange_def)
  from HTTPRespCall_answer [OF sample_runner_ok ranges_ok_rev sample_codec_resp, of map_ttl
      "[(''x'', [1]), (''p'', [7]), (''p'', [8])]" "rnCache sample_runner" "[(''p'', stop_opts)]" None r s]
    q f sample_GetRuleConf show ?thesis by auto
qed

lemma HTTPRespCall_keeps:
  assumes ok: "pools_ok rn" "ctx_ok (rnIo rn)" and h: "HTTPRespCall cd ro T reg buf rn = (res, rn')"
  shows "pools_ok rn' \<and> ctx_ok (rnIo rn') \<and> closed (ioConn (rnIo rn')) = closed (ioConn (rnIo rn)) \<and>
    rd_left (ioConn (rnIo rn')) \<le> rd_left (ioConn (rnIo rn))"
proof (cases "GetRootAsHTTPRespCall cd buf")
  case (Val q)
  obtain m r s cc where main: "respCall_main cd ro T reg (resp_start q (rnIo rn)) (rnCache rn) = (m, (r, s), cc)"
    by (cases "respCall_main cd ro T reg (resp_start q (rnIo rn)) (rnCache rn)") auto
  from respCall_main_inv [OF resp_start_inv main]
  have "io_frame (snd (resp_start q (rnIo rn))) s" by (simp add: resp_inv_def)
  with HTTPRespCall_fresh [OF ok(1) Val main] h ok(2) show ?thesis
    by (auto simp: io_frame_def resp_start_def ctx_ok_def)
next
  case Panic
  obtain r pool' picks where g: "Pool_Get newResponse (rnResps rn) (ioPicks (rnIo rn)) = (r, pool', picks)"
    by (cases "Pool_Get newResponse (rnResps rn) (ioPicks (rnIo rn))") auto
  with Panic h have "rn' = rn\<lparr>rnResps := pool', rnIo := (rnIo rn)\<lparr>ioPicks := picks\<rparr>\<rparr>"
    by (simp add: HTTPRespCall_def CreateResponse_def Let_def)
  with ok response_pool.Get_clean [OF _ g] show ?thesis by (simp add: pools_ok_def ctx_ok_def)
qed

text \<open>The response phase does not leak either, and its pool cannot be observed: on every way
  out the pools stay clean and the contexts untouched, and a runner with another (clean) pool
  of responses answers alike.\<close>

lemma HTTPRespCall_pool_blind:
  assumes "pools_ok rn" "ctx_ok (rnIo rn)" "response_pool.pool_ok resps"
  shows "let (res, rn1) = HTTPRespCall cd ro T reg buf rn;
             (res', rn1') = HTTPRespCall cd ro T reg buf (rn\<lparr>rnResps := resps\<rparr>)
         in pools_ok rn1 \<and> ctx_ok (rnIo rn1) \<and> pools_ok rn1' \<and>
            res' = res \<and> rnIo rn1' = rnIo rn1 \<and> rnCache rn1' = rnCache rn1"
proof -
  let ?rn = "rn\<lparr>rnResps := resps\<rparr>"
  have ok: "pools_ok ?rn" "ctx_ok (rnIo ?rn)" using assms by (simp_all add: pools_ok_def)
  obtain res rn1 where h: "HTTPRespCall cd ro T reg buf rn = (res, rn1)"
    by (cases "HTTPRespCall cd ro T reg buf rn") auto
  obtain res' rn1' where h': "HTTPRespCall cd ro T reg buf ?rn = (res', rn1')"
    by (cases "HTTPRespCall cd ro T reg buf ?rn") auto
  have "res' = res \<and> rnIo rn1' = rnIo rn1 \<and> rnCache rn1' = rnCache rn1"
  proof (cases "GetRootAsHTTPRespCall cd buf")
    case (Val q)
    obtain m r s cc where main: "respCall_main cd ro T reg (resp_start q (rnIo rn)) (rnCache rn) = (m, (r, s), cc)"
      by (cases "respCall_main cd ro T reg (resp_start q (rnIo rn)) (rnCache rn)") auto
    from HTTPRespCall_fresh [OF assms(1) Val main] HTTPRespCall_fresh [OF ok(1) Val, of ro T reg m r s cc] main h h'
    show ?thesis by auto
  next
    case Panic
    with h h' show ?thesis
      by (auto simp: HTTPRespCall_def CreateResponse_def Let_def split: prod.splits dest!: Pool_Get_picks)
  qed
  with HTTPRespCall_keeps [OF assms(1,2) h] HTTPRespCall_keeps [OF ok h'] show ?thesis
    by (simp add: h h')
qed

lemma HTTPRespCall_pool_blind_sample:
  "fst (HTTPRespCall sample_codec (\<lambda>_. rev) map_ttl [(''p'', stop_opts)] [1] sample_runner) =
   fst (HTTPRespCall sample_codec (\<lambda>_. rev) map_ttl [(''p'', stop_opts)] [1] (sample_runner\<lparr>rnResps := []\<rparr>))"
proof -
  have "ctx_ok (rnIo sample_runner)" by (simp add: ctx_ok_def sample_runner_def)
  from HTTPRespCall_pool_blind [OF sample_runner_ok this response_pool.pool_ok_Nil, of sample_codec "\<lambda>_. rev" map_ttl
      "[(''p'', stop_opts)]" "[1]"] show ?thesis
    by (auto simp: Let_def split: prod.splits)
qed

text \<open>C27: reading a header ends the response phase.  A response filter that only looks at one
  header, and changes nothing, makes the runner skip all the plugins after it, because
  \<open>Header()\<close> creates the header object and \<open>HasChange\<close> takes its presence for a change.\<close>

theorem responsePhase_header_read_stops:
  assumes "findPlugin reg name = Some p" "ResponseFilter p v = Call (RCallHeaderGet k) (\<lambda>_. Done)"
  shows "responsePhase_filter cd reg ((name, v) # conf) (resp_start q s) =
    responsePhase_filter cd reg [(name, v)] (resp_start q s)"
  using assms
  by (simp add: run_resp_def resp_start_def on_resp_def resp_get_header_def Response_Header_def with_resp_def
      fresh_response_def newResponse_def Response_HasChange_def)

theorem responsePhase_header_read_stops_witness:
  "responsePhase_filter sample_codec [(''p'', stop_opts)] [(''p'', [7]), (''p'', [8])]
     (resp_start sample_hresp (rnIo sample_runner)) =
   responsePhase_filter sample_codec [(''p'', stop_opts)] [(''p'', [7])]
     (resp_start sample_hresp (rnIo sample_runner))"
  by (rule responsePhase_header_read_stops [where k = "''A''" and p = stop_opts])
    (simp_all add: findPlugin_def stop_opts_def)

end
