(* ===== verification/Server.thy ===== *)
theory Server
  imports Plugin_Phases
begin

section \<open>Serving a connection (internal/server/server.go, internal/server/error.go)\<close>

text \<open>
  A connection carries framed requests; each is dispatched on its type, and the answer or an
  error report goes back in a frame of its own.  \<open>handleConn\<close> is one goroutine: it works on
  its own connection and on the state all goroutines share.

  What other goroutines and the clock do to the shared configuration cache between two
  requests is the argument \<open>env\<close>, applied before the dispatch of the \<open>i\<close>-th request; the
  iteration orders of the maps during this request are \<open>ros i\<close>; \<open>Server_Concurrent\<close> shows that the
  goroutines of other connections have no other effect.  The pools are shared too; that their
  contents cannot be observed is shown in \<open>Pool_Blind\<close>.

  The loop ends because every round consumes input: the measure is what the peer still has to
  deliver (\<open>input_left\<close>).  A peer that stays silent without closing is not in the model.
\<close>

subsection \<open>Error reports\<close>

definition ReportError :: "go_error \<Rightarrow> io \<Rightarrow> builder \<times> io" where
  "ReportError err s =
     (let (bd, s1) = GetBuilder s;
          c = (case err of
                 ErrNotFound \<Rightarrow> CONF_TOKEN_NOT_FOUND
               | UnknownType ty \<Rightarrow> BAD_REQUEST
               | _ \<Rightarrow> SERVICE_UNAVAILABLE)
      in (Finish (MsgErr c) bd, s1))"

text \<open>The text of an \<open>UnknownType\<close>.\<close>

definition UnknownType_Error :: "byte \<Rightarrow> string" where
  "UnknownType_Error ty = ''unknown type '' @ FormatInt (unat ty)"

lemma UnknownType_Error_inject: "UnknownType_Error ty = UnknownType_Error ty' \<longleftrightarrow> ty = ty'"
  by (simp add: UnknownType_Error_def word_unat_eq_iff)

text \<open>\<open>generateErrorReport\<close> also logs the error, as a warning or as an error.\<close>

definition generateErrorReport :: "go_error \<Rightarrow> io \<Rightarrow> builder \<times> io" where
  "generateErrorReport err s = ReportError err s"

definition on_rn_io :: "(io \<Rightarrow> 'a \<times> io) \<Rightarrow> 'k runner \<Rightarrow> 'a \<times> 'k runner" where
  "on_rn_io f rn = (case f (rnIo rn) of (x, s) \<Rightarrow> (x, rn\<lparr>rnIo := s\<rparr>))"

subsection \<open>Dispatch\<close>

definition checkIfDataTooLarge :: "codec \<Rightarrow> builder \<Rightarrow> io \<Rightarrow> (builder \<times> bool) rt \<times> io" where
  "checkIfDataTooLarge cd bd s =
     (case FinishedBytes cd bd of
        Panic \<Rightarrow> (Panic, s)
      | Val out \<Rightarrow>
          (let n = length out
           in if n < MaxDataSize then (Val (bd, True), s)
              else (let s1 = PutBuilder bd s;
                        (bd', s2) = generateErrorReport (DataTooLarge MaxDataSize n) s1
                    in (Val (bd', False), s2))))"

definition typeHandlerMap ::
  "codec \<Rightarrow> range_orders \<Rightarrow> ('k, 'c) ttl_ops \<Rightarrow> 'c registry \<Rightarrow> byte \<Rightarrow>
   (bytes \<Rightarrow> 'k runner \<Rightarrow> (go_error + builder) rt \<times> 'k runner) option" where
  "typeHandlerMap cd ro T reg ty =
     (if ty = RPCPrepareConf then
        Some (\<lambda>buf rn. case PrepareConf cd T reg buf (rnCache rn) (rnIo rn) of
                (res, cc, s) \<Rightarrow> (res, rn\<lparr>rnCache := cc, rnIo := s\<rparr>))
      else if ty = RPCHTTPReqCall then Some (HTTPReqCall cd ro T reg)
      else if ty = RPCHTTPRespCall then Some (HTTPRespCall cd ro T reg)
      else None)"

definition dispatchRPC ::
  "codec \<Rightarrow> range_orders \<Rightarrow> ('k, 'c) ttl_ops \<Rightarrow> 'c registry \<Rightarrow> byte \<Rightarrow> bytes \<Rightarrow> 'k runner \<Rightarrow>
   (builder \<times> byte) rt \<times> 'k runner" where
  "dispatchRPC cd ro T reg ty inp rn =
     (case typeHandlerMap cd ro T reg ty of
        None \<Rightarrow>
          (let (bd, rn1) = on_rn_io (generateErrorReport (UnknownType ty)) rn
           in (Val (bd, RPCError), rn1))
      | Some hl \<Rightarrow>
          (case hl inp rn of
             (Panic, rn1) \<Rightarrow> (Panic, rn1)
           | (Val (Inl err), rn1) \<Rightarrow>
               (let (bd, rn2) = on_rn_io (generateErrorReport err) rn1
                in (Val (bd, RPCError), rn2))
           | (Val (Inr bd), rn1) \<Rightarrow>
               (case on_rn_io (checkIfDataTooLarge cd bd) rn1 of
                  (Panic, rn2) \<Rightarrow> (Panic, rn2)
                | (Val (replaced, ok), rn2) \<Rightarrow>
                    (if \<not> ok then (Val (replaced, RPCError), rn2) else (Val (bd, ty), rn2)))))"

subsection \<open>Lemmas of the dispatch\<close>

lemma ReadBytes_progress:
  assumes "ReadBytes c b = (b', n, None, c')" "b \<noteq> []"
  shows "rd_left c' < rd_left c"
proof -
  obtain d err c1 where rd: "conn_Read (length b) c = (d, err, c1)" by (cases "conn_Read (length b) c") auto
  have e: "err = None"
    using assms rd by (auto simp: ReadBytes_def read_loop.simps [of b 0 c] Let_def split: option.splits)
  then have "rd_left c1 < rd_left c" using conn_Read_left [of "length b" c d c1] rd assms(2) by simp
  moreover have "read_loop (d @ drop (length d) b) (length d) c1 = (b', n, None, c')"
    using assms rd e by (simp add: ReadBytes_def read_loop.simps [of b 0 c])
  from read_loop_frame [OF this] have "rd_left c' \<le> rd_left c1" by simp
  ultimately show ?thesis by simp
qed

lemma ReadErr_None: "\<not> ReadErr n err k \<Longrightarrow> err = None"
  by (auto simp: ReadErr_def Let_def split: if_splits)

lemma ReportError_frame: "ReportError err s = (bd, s') \<Longrightarrow> io_frame s s'"
  by (auto simp: ReportError_def dest: io_frame_GetBuilder split: prod.splits)

lemma ReportError_conn: "ReportError err s = (bd, s') \<Longrightarrow> ioConn s' = ioConn s"
  by (auto simp: ReportError_def dest: GetBuilder_frame split: prod.splits)

lemma checkIfDataTooLarge_frame: "checkIfDataTooLarge cd bd s = (res, s') \<Longrightarrow> io_frame s s'"
  by (auto simp: checkIfDataTooLarge_def generateErrorReport_def Let_def
      split: rt.splits if_splits prod.splits dest!: ReportError_frame intro: io_frame_trans [OF io_frame_PutBuilder])

lemma PrepareConf_frame: "PrepareConf cd T reg buf cc s = (res, cc', s') \<Longrightarrow> io_frame s s'"
  by (auto simp: PrepareConf_def Let_def dest: io_frame_GetBuilder
      split: rt.splits prod.splits sum.splits)

text \<open>What every handler keeps.\<close>

definition runner_ok :: "'k runner \<Rightarrow> bool" where
  "runner_ok rn \<longleftrightarrow> pools_ok rn \<and> ctx_ok (rnIo rn)"

lemma runner_ok_io:
  "runner_ok rn \<Longrightarrow> io_frame (rnIo rn) s \<Longrightarrow> runner_ok (rn\<lparr>rnIo := s\<rparr>)"
  by (simp add: runner_ok_def pools_ok_def ctx_ok_def io_frame_def)

lemma runner_ok_cache [simp]: "runner_ok (rn\<lparr>rnCache := cc\<rparr>) = runner_ok rn"
  by (simp add: runner_ok_def pools_ok_def)

lemma handler_input:
  assumes "typeHandlerMap cd ro T reg ty = Some hl" "hl buf rn = (res, rn')"
  shows "input_left rn' \<le> input_left rn"
  using assms
  by (auto simp: typeHandlerMap_def input_left_def io_frame_def
      dest!: HTTPReqCall_input [unfolded input_left_def] HTTPRespCall_input [unfolded input_left_def] PrepareConf_frame
      split: if_splits prod.splits)

lemma handler_ok:
  assumes "typeHandlerMap cd ro T reg ty = Some hl" "hl buf rn = (res, rn')" "runner_ok rn"
  shows "runner_ok rn' \<and> closed (ioConn (rnIo rn')) = closed (ioConn (rnIo rn))"
proof -
  have req: ?thesis if "HTTPReqCall cd ro T reg buf rn = (res, rn')"
    using HTTPReqCall_keeps [OF _ _ that] assms(3) by (simp add: runner_ok_def)
  have resp: ?thesis if "HTTPRespCall cd ro T reg buf rn = (res, rn')"
    using HTTPRespCall_keeps [OF _ _ that] assms(3) by (simp add: runner_ok_def)
  have prep: ?thesis if "PrepareConf cd T reg buf (rnCache rn) (rnIo rn) = (res, cc, s)"
    "rn' = rn\<lparr>rnCache := cc, rnIo := s\<rparr>" for cc s
    using PrepareConf_frame [OF that(1)] runner_ok_io [OF assms(3), of s] that(2)
    by (simp add: io_frame_def runner_ok_def pools_ok_def)
  show ?thesis
    using assms(1,2) req resp prep by (auto simp: typeHandlerMap_def split: if_splits prod.splits)
qed

lemma dispatchRPC_input: "dispatchRPC cd ro T reg ty inp rn = (res, rn') \<Longrightarrow> input_left rn' \<le> input_left rn"
  by (fastforce simp: dispatchRPC_def on_rn_io_def Let_def generateErrorReport_def input_left_def io_frame_def
      dest!: handler_input [unfolded input_left_def] ReportError_frame checkIfDataTooLarge_frame
      split: option.splits prod.splits rt.splits sum.splits if_splits)

lemma dispatchRPC_ok:
  assumes "dispatchRPC cd ro T reg ty inp rn = (res, rn')" "runner_ok rn"
  shows "runner_ok rn' \<and> closed (ioConn (rnIo rn')) = closed (ioConn (rnIo rn))"
proof -
  have fr: "runner_ok (r\<lparr>rnIo := s\<rparr>) \<and> closed (ioConn s) = closed (ioConn (rnIo r))"
    if "runner_ok r" "io_frame (rnIo r) s" for r :: "'a runner" and s
    using runner_ok_io [OF that] that(2) by (simp add: io_frame_def)
  have rep: "runner_ok (r\<lparr>rnIo := s\<rparr>) \<and> closed (ioConn s) = closed (ioConn (rnIo r))"
    if "runner_ok r" "ReportError e (rnIo r) = (bd, s)" for r :: "'a runner" and e bd s
    using fr [OF that(1) ReportError_frame [OF that(2)]] .
  have chk: "runner_ok (r\<lparr>rnIo := s\<rparr>) \<and> closed (ioConn s) = closed (ioConn (rnIo r))"
    if "runner_ok r" "checkIfDataTooLarge cd bd (rnIo r) = (x, s)" for r :: "'a runner" and bd x s
    using fr [OF that(1) checkIfDataTooLarge_frame [OF that(2)]] .
  show ?thesis
  proof (cases "typeHandlerMap cd ro T reg ty")
    case None
    with assms rep [OF assms(2)] show ?thesis
      by (auto simp: dispatchRPC_def on_rn_io_def generateErrorReport_def split: prod.splits)
  next
    case (Some hl)
    obtain h rn1 where h: "hl inp rn = (h, rn1)" by (cases "hl inp rn") auto
    from handler_ok [OF Some h assms(2)] have ok: "runner_ok rn1"
      and cl: "closed (ioConn (rnIo rn1)) = closed (ioConn (rnIo rn))" by auto
    from assms(1) Some h ok cl rep [OF ok] chk [OF ok] show ?thesis
      by (auto simp: dispatchRPC_def on_rn_io_def generateErrorReport_def
          split: prod.splits rt.splits sum.splits if_splits)
  qed
qed

subsection \<open>The connection loop\<close>

definition set_conn :: "conn \<Rightarrow> 'k runner \<Rightarrow> 'k runner" where
  "set_conn c rn = rn\<lparr>rnIo := (rnIo rn)\<lparr>ioConn := c\<rparr>\<rparr>"

lemma set_conn_simps [simp]:
  "ioConn (rnIo (set_conn c rn)) = c" "rnCache (set_conn c rn) = rnCache rn"
  "input_left (set_conn c rn) = rd_left c" "set_conn c (set_conn c' rn) = set_conn c rn"
  by (simp_all add: set_conn_def input_left_def)

lemma set_conn_ok [simp]: "runner_ok (set_conn c rn) = runner_ok rn"
  by (simp add: set_conn_def runner_ok_def pools_ok_def ctx_ok_def)

text \<open>
  One round of the loop: \<open>Inl\<close> when the loop is left, by \<open>break\<close> (\<open>Val\<close>) or by a panic, and
  \<open>Inr\<close> when it goes on.  A successful read overwrites the whole header buffer, so each round
  starts with a new one.
\<close>

definition handle_reply :: "codec \<Rightarrow> builder \<Rightarrow> byte \<Rightarrow> 'k runner \<Rightarrow> (unit rt \<times> 'k runner) + 'k runner" where
  "handle_reply cd bd respTy rn =
     (case FinishedBytes cd bd of
        Panic \<Rightarrow> Inl (Panic, rn)
      | Val out \<Rightarrow>
          (let header = put_header respTy (length out);
               (n, err, c1) = WriteBytes (ioConn (rnIo rn)) header
           in case err of
                Some e \<Rightarrow> Inl (Val (), set_conn c1 rn)
              | None \<Rightarrow>
                  (let (n, err, c2) = WriteBytes c1 out
                   in case err of
                        Some e \<Rightarrow> Inl (Val (), set_conn c2 rn)
                      | None \<Rightarrow> Inr ((set_conn c2 rn)\<lparr>rnIo := PutBuilder bd (rnIo (set_conn c2 rn))\<rparr>))))"

definition handle_round ::
  "codec \<Rightarrow> range_orders \<Rightarrow> ('k, 'c) ttl_ops \<Rightarrow> 'c registry \<Rightarrow> ('k ConfCache \<Rightarrow> 'k ConfCache) \<Rightarrow> 'k runner \<Rightarrow>
   (unit rt \<times> 'k runner) + 'k runner" where
  "handle_round cd ro T reg env rn =
     (let (header, n, err, c1) = ReadBytes (ioConn (rnIo rn)) (replicate HeaderLen 0)
      in if ReadErr n err HeaderLen then Inl (Val (), set_conn c1 rn)
         else
           (let (ty, len) = get_header header;
                (buf, n, err, c2) = ReadBytes c1 (replicate len 0)
            in if ReadErr n err len then Inl (Val (), set_conn c2 rn)
               else
                 (case dispatchRPC cd ro T reg ty buf ((set_conn c2 rn)\<lparr>rnCache := env (rnCache rn)\<rparr>) of
                    (Panic, rn1) \<Rightarrow> Inl (Panic, rn1)
                  | (Val (bd, respTy), rn1) \<Rightarrow> handle_reply cd bd respTy rn1)))"

lemma handle_reply_input: "handle_reply cd bd ty rn = Inr rn' \<Longrightarrow> input_left rn' = input_left rn"
  by (auto simp: handle_reply_def Let_def input_left_def dest!: WriteBytes_frame
      split: rt.splits prod.splits option.splits)

lemma handle_round_progress:
  assumes "handle_round cd ro T reg env rn = Inr rn'"
  shows "input_left rn' < input_left rn"
proof -
  obtain header n err c1 where r1: "ReadBytes (ioConn (rnIo rn)) (replicate HeaderLen 0) = (header, n, err, c1)"
    by (cases "ReadBytes (ioConn (rnIo rn)) (replicate HeaderLen 0)") auto
  obtain ty len where gh: "get_header header = (ty, len)" by (cases "get_header header")
  obtain buf n2 err2 c2 where r2: "ReadBytes c1 (replicate len 0) = (buf, n2, err2, c2)"
    by (cases "ReadBytes c1 (replicate len 0)") auto
  let ?rn = "(set_conn c2 rn)\<lparr>rnCache := env (rnCache rn)\<rparr>"
  from assms have e: "\<not> ReadErr n err HeaderLen" "\<not> ReadErr n2 err2 len"
    by (auto simp: handle_round_def r1 gh r2 split: if_splits)
  with assms obtain bd respTy rn1 where d: "dispatchRPC cd ro T reg ty buf ?rn = (Val (bd, respTy), rn1)"
    "handle_reply cd bd respTy rn1 = Inr rn'"
    by (auto simp: handle_round_def r1 gh r2 split: prod.splits rt.splits)
  have "rd_left c1 < rd_left (ioConn (rnIo rn))"
    using ReadBytes_progress [of "ioConn (rnIo rn)" "replicate HeaderLen 0" header n c1] r1 ReadErr_None [OF e(1)]
    by (simp add: HeaderLen_def)
  moreover have "rd_left c2 \<le> rd_left c1" using ReadBytes_frame [OF r2] by simp
  moreover have "input_left rn' \<le> input_left ?rn"
    using dispatchRPC_input [OF d(1)] handle_reply_input [OF d(2)] by simp
  ultimately show ?thesis by (simp add: input_left_def)
qed

function handle_loop ::
  "codec \<Rightarrow> (nat \<Rightarrow> range_orders) \<Rightarrow> ('k, 'c) ttl_ops \<Rightarrow> 'c registry \<Rightarrow> (nat \<Rightarrow> 'k ConfCache \<Rightarrow> 'k ConfCache) \<Rightarrow>
   nat \<Rightarrow> 'k runner \<Rightarrow> unit rt \<times> 'k runner" where
  "handle_loop cd ros T reg env i rn =
     (case handle_round cd (ros i) T reg (env i) rn of
        Inl out \<Rightarrow> out
      | Inr rn' \<Rightarrow> handle_loop cd ros T reg env (Suc i) rn')"
  by pat_completeness auto
termination
  by (relation "measure (\<lambda>(cd, ros, T, reg, env, i, rn). input_left rn)") (auto intro: handle_round_progress)

declare handle_loop.simps [simp del]

text \<open>The deferred calls: \<open>c.Close()\<close>, then \<open>recoverPanic()\<close>, which swallows a panic.\<close>

definition handleConn ::
  "codec \<Rightarrow> (nat \<Rightarrow> range_orders) \<Rightarrow> ('k, 'c) ttl_ops \<Rightarrow> 'c registry \<Rightarrow> (nat \<Rightarrow> 'k ConfCache \<Rightarrow> 'k ConfCache) \<Rightarrow>
   'k runner \<Rightarrow> 'k runner" where
  "handleConn cd ros T reg env rn =
     (let (res, rn') = handle_loop cd ros T reg env 0 rn
      in set_conn (conn_Close (ioConn (rnIo rn'))) rn')"

subsection \<open>Lemmas of the loop\<close>

lemma handle_reply_ok:
  assumes "runner_ok rn"
  shows "case handle_reply cd bd ty rn of Inl (res, rn') \<Rightarrow> runner_ok rn' | Inr rn' \<Rightarrow> runner_ok rn'"
  using assms
  by (auto simp: handle_reply_def Let_def split: rt.splits prod.splits option.splits intro!: runner_ok_io)

lemma handle_round_ok:
  assumes "runner_ok rn"
  shows "case handle_round cd ro T reg env rn of Inl (res, rn') \<Rightarrow> runner_ok rn' | Inr rn' \<Rightarrow> runner_ok rn'"
proof -
  have d: "runner_ok rn1" if "dispatchRPC cd ro T reg ty buf ((set_conn c rn)\<lparr>rnCache := cc\<rparr>) = (x, rn1)"
    for ty buf c cc x rn1
    using dispatchRPC_ok [OF that] assms by simp
  have r: "case handle_reply cd bd rty rn1 of Inl (res, rn') \<Rightarrow> runner_ok rn' | Inr rn' \<Rightarrow> runner_ok rn'"
    if "dispatchRPC cd ro T reg ty buf ((set_conn c rn)\<lparr>rnCache := cc\<rparr>) = (Val (bd, rty), rn1)"
    for ty buf c cc bd rty rn1
    using handle_reply_ok [OF d [OF that]] .
  show ?thesis
    using assms unfolding handle_round_def Let_def by (auto split: prod.split rt.split dest: d r)
qed

lemma handle_loop_ok: "runner_ok rn \<Longrightarrow> runner_ok (snd (handle_loop cd ros T reg env i rn))"
proof (induction cd ros T reg env i rn rule: handle_loop.induct)
  case (1 cd ros T reg env i rn)
  with handle_round_ok [OF "1.prems", of cd "ros i" T reg "env i"] show ?case
    by (subst handle_loop.simps) (auto split: sum.splits prod.splits)
qed

lemma dispatchRPC_type: "dispatchRPC cd ro T reg ty inp rn = (Val (bd, rty), rn') \<Longrightarrow> rty = RPCError \<or> rty = ty"
  by (auto simp: dispatchRPC_def Let_def split: option.splits prod.splits rt.splits sum.splits if_splits)

lemma FinishedBytes_Val: "FinishedBytes cd bd = Val out \<longleftrightarrow> (\<exists>m. bdMsg bd = Some m \<and> out = encode_msg cd m)"
  by (auto simp: FinishedBytes_def split: option.splits)

lemma checkIfDataTooLarge_cases:
  assumes "checkIfDataTooLarge cd bd s = (Val (bd', ok), s')"
  shows "(ok \<and> bd' = bd \<and> (\<exists>m. bdMsg bd = Some m \<and> length (encode_msg cd m) < MaxDataSize)) \<or>
    (\<not> ok \<and> bdMsg bd' = Some (MsgErr SERVICE_UNAVAILABLE))"
  using assms
  by (auto simp: checkIfDataTooLarge_def generateErrorReport_def ReportError_def Let_def FinishedBytes_Val Finish_def
      split: rt.splits if_splits prod.splits)

lemma on_rn_io_eq: "on_rn_io f rn = (x, rn') \<longleftrightarrow> (\<exists>s. f (rnIo rn) = (x, s) \<and> rn' = rn\<lparr>rnIo := s\<rparr>)"
  by (auto simp: on_rn_io_def split: prod.splits)

lemma ReportError_msg:
  "ReportError err s = (bd, s') \<Longrightarrow> bdMsg bd = Some (MsgErr
    (case err of ErrNotFound \<Rightarrow> CONF_TOKEN_NOT_FOUND | UnknownType ty \<Rightarrow> BAD_REQUEST | _ \<Rightarrow> SERVICE_UNAVAILABLE))"
  by (auto simp: ReportError_def Finish_def split: prod.splits)

lemma dispatchRPC_finished:
  assumes "dispatchRPC cd ro T reg ty inp rn = (Val (bd, rty), rn')"
  shows "(rty = RPCError \<and> (\<exists>c. bdMsg bd = Some (MsgErr c))) \<or>
    (rty = ty \<and> (\<exists>m. bdMsg bd = Some m \<and> length (encode_msg cd m) < MaxDataSize))"
proof (cases "typeHandlerMap cd ro T reg ty")
  case None
  with assms show ?thesis
    by (auto simp: dispatchRPC_def generateErrorReport_def on_rn_io_eq dest: ReportError_msg split: prod.splits)
next
  case (Some hl)
  obtain h rn1 where h: "hl inp rn = (h, rn1)" by (cases "hl inp rn") auto
  show ?thesis
  proof (cases "\<exists>b. h = Val (Inr b)")
    case True
    then obtain b where b: "h = Val (Inr b)" by blast
    obtain x rn2 where k: "on_rn_io (checkIfDataTooLarge cd b) rn1 = (x, rn2)"
      by (cases "on_rn_io (checkIfDataTooLarge cd b) rn1") auto
    with assms Some h b obtain bd' ok where x: "x = Val (bd', ok)"
      by (cases x) (auto simp: dispatchRPC_def)
    from k x obtain s where "checkIfDataTooLarge cd b (rnIo rn1) = (Val (bd', ok), s)"
      by (auto simp: on_rn_io_eq)
    from checkIfDataTooLarge_cases [OF this] assms Some h b k x show ?thesis
      by (auto simp: dispatchRPC_def split: if_splits)
  next
    case False
    with assms Some h show ?thesis
      by (auto simp: dispatchRPC_def generateErrorReport_def on_rn_io_eq dest: ReportError_msg
          split: prod.splits rt.splits sum.splits)
  qed
qed

text \<open>The dispatch of the two calls APISIX makes for a request.\<close>

lemma dispatch_answer:
  assumes "typeHandlerMap cd ro T reg ty = Some hl" "hl inp rn = (Val (Inr bd), rn1)"
    and "bdMsg bd = Some m" "length (encode_msg cd m) < MaxDataSize"
  shows "dispatchRPC cd ro T reg ty inp rn = (Val (bd, ty), rn1)"
  using assms by (simp add: dispatchRPC_def on_rn_io_def checkIfDataTooLarge_def FinishedBytes_def Let_def)

lemma dispatch_PrepareConf:
  assumes "GetRootAsPrepareConf cd buf = Val req"
    and "ConfCache_Set T reg req (rnCache rn) = (Val (Inr t), cc)"
    and "length (encode_msg cd (MsgPrepareConfResp t)) < MaxDataSize"
  shows "\<exists>bd s. dispatchRPC cd ro T reg RPCPrepareConf buf rn =
      (Val (bd, RPCPrepareConf), rn\<lparr>rnCache := cc, rnIo := s\<rparr>) \<and>
    bdMsg bd = Some (MsgPrepareConfResp t) \<and> ioConn s = ioConn (rnIo rn) \<and> io_frame (rnIo rn) s"
proof -
  obtain bd s where g: "GetBuilder (rnIo rn) = (bd, s)" by (cases "GetBuilder (rnIo rn)")
  let ?hl = "\<lambda>buf rn. case PrepareConf cd T reg buf (rnCache rn) (rnIo rn) of
    (res, cc, s) \<Rightarrow> (res, rn\<lparr>rnCache := cc, rnIo := s\<rparr>)"
  have t: "typeHandlerMap cd ro T reg RPCPrepareConf = Some ?hl" by (simp add: typeHandlerMap_def)
  have h: "?hl buf rn = (Val (Inr (Finish (MsgPrepareConfResp t) bd)), rn\<lparr>rnCache := cc, rnIo := s\<rparr>)"
    using assms(1,2) g by (simp add: PrepareConf_def)
  have "dispatchRPC cd ro T reg RPCPrepareConf buf rn =
      (Val (Finish (MsgPrepareConfResp t) bd, RPCPrepareConf), rn\<lparr>rnCache := cc, rnIo := s\<rparr>)"
    by (rule dispatch_answer [OF t h _ assms(3)]) (simp add: Finish_def)
  with io_frame_GetBuilder [OF g] GetBuilder_frame [OF g] show ?thesis by (auto simp: Finish_def)
qed

subsection \<open>Serving a sequence of requests\<close>

definition frame :: "byte \<times> bytes \<Rightarrow> bytes" where
  "frame f = put_header (fst f) (length (snd f)) @ snd f"

text \<open>One turn of the conversation with APISIX: a request, what APISIX answers to the questions the
  handler asks meanwhile, these questions, and which replies are right.  \<open>serves\<close> states that the
  dispatch of the request plays its part whatever follows on the connection, and keeps what is
  assumed of the cache.\<close>

record turn =
  tRequest :: "byte \<times> bytes"
  tAnswers :: bytes
  tAsks :: bytes
  tReply :: "byte \<times> bytes \<Rightarrow> bool"

definition serves ::
  "codec \<Rightarrow> range_orders \<Rightarrow> ('k, 'c) ttl_ops \<Rightarrow> 'c registry \<Rightarrow> ('k ConfCache \<Rightarrow> bool) \<Rightarrow> turn \<Rightarrow> bool" where
  "serves cd ro T reg I t \<longleftrightarrow> (\<forall>rn rest. runner_ok rn \<longrightarrow> I (rnCache rn) \<longrightarrow> wr_clean (ioConn (rnIo rn)) \<longrightarrow>
     avail (ioConn (rnIo rn)) = tAnswers t @ rest \<longrightarrow>
     (\<exists>bd rty m rn'. dispatchRPC cd ro T reg (fst (tRequest t)) (snd (tRequest t)) rn = (Val (bd, rty), rn') \<and>
        bdMsg bd = Some m \<and> tReply t (rty, encode_msg cd m) \<and> I (rnCache rn') \<and>
        wr_clean (ioConn (rnIo rn')) \<and> avail (ioConn (rnIo rn')) = rest \<and>
        sent (ioConn (rnIo rn')) = sent (ioConn (rnIo rn)) @ tAsks t))"

text \<open>A handler that returns without using the connection (no \<open>Var\<close> or \<open>Body\<close> of a plugin).\<close>

definition quiet ::
  "codec \<Rightarrow> range_orders \<Rightarrow> ('k, 'c) ttl_ops \<Rightarrow> 'c registry \<Rightarrow> ('k ConfCache \<Rightarrow> bool) \<Rightarrow> byte \<times> bytes \<Rightarrow> bool" where
  "quiet cd ro T reg I f \<longleftrightarrow> (\<forall>rn. runner_ok rn \<longrightarrow> I (rnCache rn) \<longrightarrow>
     (\<exists>bd rty rn'. dispatchRPC cd ro T reg (fst f) (snd f) rn = (Val (bd, rty), rn') \<and>
        I (rnCache rn') \<and> ioConn (rnIo rn') = ioConn (rnIo rn)))"

definition quiet_turn :: "byte \<times> bytes \<Rightarrow> turn" where
  "quiet_turn f = \<lparr>tRequest = f, tAnswers = [], tAsks = [], tReply = (\<lambda>g. fst g \<in> {RPCError, fst f})\<rparr>"

lemma quiet_turn_simps [simp]:
  "tRequest (quiet_turn f) = f" "tAnswers (quiet_turn f) = []" "tAsks (quiet_turn f) = []"
  "tReply (quiet_turn f) g \<longleftrightarrow> fst g \<in> {RPCError, fst f}"
  by (simp_all add: quiet_turn_def)

lemma quiet_serves:
  assumes "quiet cd ro T reg I f"
  shows "serves cd ro T reg I (quiet_turn f)"
  unfolding serves_def
proof (intro allI impI)
  fix rn rest assume rn: "runner_ok rn" "I (rnCache rn)" "wr_clean (ioConn (rnIo rn))"
    "avail (ioConn (rnIo rn)) = tAnswers (quiet_turn f) @ rest"
  from assms [unfolded quiet_def] rn(1,2) obtain bd rty rn' where
    d: "dispatchRPC cd ro T reg (fst f) (snd f) rn = (Val (bd, rty), rn')" "I (rnCache rn')"
    "ioConn (rnIo rn') = ioConn (rnIo rn)" by blast
  from dispatchRPC_finished [OF d(1)] obtain m where "bdMsg bd = Some m" by blast
  with d rn dispatchRPC_type [OF d(1)] show "\<exists>bd rty m rn'. dispatchRPC cd ro T reg (fst (tRequest (quiet_turn f)))
      (snd (tRequest (quiet_turn f))) rn = (Val (bd, rty), rn') \<and>
      bdMsg bd = Some m \<and> tReply (quiet_turn f) (rty, encode_msg cd m) \<and> I (rnCache rn') \<and>
      wr_clean (ioConn (rnIo rn')) \<and> avail (ioConn (rnIo rn')) = rest \<and>
      sent (ioConn (rnIo rn')) = sent (ioConn (rnIo rn)) @ tAsks (quiet_turn f)" by auto
qed

lemma handle_reply_sends:
  assumes "bdMsg bd = Some m" "wr_clean (ioConn (rnIo rn))" "runner_ok rn"
  shows "\<exists>rn'. handle_reply cd bd rty rn = Inr rn' \<and> runner_ok rn' \<and> rnCache rn' = rnCache rn \<and>
    wr_clean (ioConn (rnIo rn')) \<and> avail (ioConn (rnIo rn')) = avail (ioConn (rnIo rn)) \<and>
    sent (ioConn (rnIo rn')) = sent (ioConn (rnIo rn)) @ frame (rty, encode_msg cd m)"
proof -
  let ?out = "encode_msg cd m"
  obtain c1 where c1: "WriteBytes (ioConn (rnIo rn)) (put_header rty (length ?out)) =
      (length (put_header rty (length ?out)), None, c1)"
    "sent c1 = sent (ioConn (rnIo rn)) @ put_header rty (length ?out)" "wr_clean c1" "avail c1 = avail (ioConn (rnIo rn))"
    by (rule WriteBytes_clean [OF assms(2)])
  obtain c2 where c2: "WriteBytes c1 ?out = (length ?out, None, c2)" "sent c2 = sent c1 @ ?out" "wr_clean c2"
    "avail c2 = avail c1" by (rule WriteBytes_clean [OF c1(3)])
  have r: "handle_reply cd bd rty rn = Inr ((set_conn c2 rn)\<lparr>rnIo := PutBuilder bd (rnIo (set_conn c2 rn))\<rparr>)"
    using c1(1) c2(1) assms(1) by (simp add: handle_reply_def FinishedBytes_def Let_def)
  with handle_reply_ok [OF assms(3), of cd bd rty] c1 c2 show ?thesis by (simp add: frame_def)
qed

lemma handle_round_serves:
  assumes av: "avail (ioConn (rnIo rn)) = frame (tRequest t) @ tAnswers t @ rest"
    and len: "length (snd (tRequest t)) < 2 ^ 24"
    and wr: "wr_clean (ioConn (rnIo rn))" and ok: "runner_ok rn"
    and q: "serves cd ro T reg I t" and I: "I (env (rnCache rn))"
  shows "\<exists>g rn'. handle_round cd ro T reg env rn = Inr rn' \<and> tReply t g \<and> I (rnCache rn') \<and>
    runner_ok rn' \<and> wr_clean (ioConn (rnIo rn')) \<and> avail (ioConn (rnIo rn')) = rest \<and>
    sent (ioConn (rnIo rn')) = sent (ioConn (rnIo rn)) @ tAsks t @ frame g"
proof -
  obtain ty p where tp: "tRequest t = (ty, p)" by (cases "tRequest t")
  let ?hd = "put_header ty (length p)"
  have "length (replicate HeaderLen (0 :: byte)) \<le> length (avail (ioConn (rnIo rn)))"
    using av tp by (simp add: frame_def)
  then obtain c1 where c1: "ReadBytes (ioConn (rnIo rn)) (replicate HeaderLen 0) = (?hd, HeaderLen, None, c1)"
    "avail c1 = p @ tAnswers t @ rest" "sent c1 = sent (ioConn (rnIo rn))" "wr c1 = wr (ioConn (rnIo rn))"
    by (rule ReadBytes_ok) (use av tp in \<open>auto simp: frame_def\<close>)
  have "length (replicate (length p) (0 :: byte)) \<le> length (avail c1)" using c1(2) by simp
  then obtain c2 where c2: "ReadBytes c1 (replicate (length p) 0) = (p, length p, None, c2)"
    "avail c2 = tAnswers t @ rest" "sent c2 = sent c1" "wr c2 = wr c1"
    by (rule ReadBytes_ok) (use c1(2) in auto)
  let ?rn = "(set_conn c2 rn)\<lparr>rnCache := env (rnCache rn)\<rparr>"
  have pre: "runner_ok ?rn" "I (rnCache ?rn)" "wr_clean (ioConn (rnIo ?rn))"
    "avail (ioConn (rnIo ?rn)) = tAnswers t @ rest"
    using ok I wr c1(4) c2(2,4) by (simp_all add: wr_clean_def)
  from q [unfolded serves_def tp fst_conv snd_conv, rule_format, OF pre] obtain bd rty m rn1 where
    d: "dispatchRPC cd ro T reg ty p ?rn = (Val (bd, rty), rn1)" "bdMsg bd = Some m" "tReply t (rty, encode_msg cd m)"
    "I (rnCache rn1)" "wr_clean (ioConn (rnIo rn1))" "avail (ioConn (rnIo rn1)) = rest"
    "sent (ioConn (rnIo rn1)) = sent (ioConn (rnIo ?rn)) @ tAsks t" by blast
  have ok1: "runner_ok rn1" using dispatchRPC_ok [OF d(1)] ok by simp
  from handle_reply_sends [OF d(2,5) ok1, of cd rty]
  obtain rn' where r: "handle_reply cd bd rty rn1 = Inr rn'" "runner_ok rn'" "rnCache rn' = rnCache rn1"
    "wr_clean (ioConn (rnIo rn'))" "avail (ioConn (rnIo rn')) = rest"
    "sent (ioConn (rnIo rn')) = sent (ioConn (rnIo rn1)) @ frame (rty, encode_msg cd m)"
    using d(6) by auto
  have "handle_round cd ro T reg env rn = Inr rn'"
    using c1(1) c2(1) d(1) r(1) len tp by (simp add: handle_round_def ReadErr_def get_put_header Let_def)
  with r d(3,4,7) c1(3) c2(3) show ?thesis by (intro exI [of _ "(rty, encode_msg cd m)"] exI [of _ rn']) simp
qed

lemma handle_round_eof:
  assumes "avail (ioConn (rnIo rn)) = []"
  shows "\<exists>rn'. handle_round cd ro T reg env rn = Inl (Val (), rn') \<and> sent (ioConn (rnIo rn')) = sent (ioConn (rnIo rn))"
proof -
  obtain b n e c' where r: "ReadBytes (ioConn (rnIo rn)) (replicate HeaderLen 0) = (b, n, Some e, c')"
    using read_loop_fail [of 0 "replicate HeaderLen 0" "ioConn (rnIo rn)"] assms
    by (auto simp: ReadBytes_def HeaderLen_def)
  then have "ReadErr n (Some e) HeaderLen" by (simp add: ReadErr_def Let_def)
  with r ReadBytes_frame [OF r] show ?thesis by (simp add: handle_round_def)
qed

lemma handle_loop_serves:
  assumes "avail (ioConn (rnIo rn)) = concat (map (\<lambda>t. frame (tRequest t) @ tAnswers t) ts)"
    and "wr_clean (ioConn (rnIo rn))" "runner_ok rn"
    and "I (rnCache rn)" and env: "\<And>i cc. I cc \<Longrightarrow> I (env i cc)"
    and len: "\<And>t. t \<in> set ts \<Longrightarrow> length (snd (tRequest t)) < 2 ^ 24"
    and q: "\<And>i t. t \<in> set ts \<Longrightarrow> serves cd (ros i) T reg I t"
  shows "\<exists>replies rn'. handle_loop cd ros T reg env i rn = (Val (), rn') \<and> list_all2 tReply ts replies \<and>
    sent (ioConn (rnIo rn')) = sent (ioConn (rnIo rn)) @ concat (map2 (\<lambda>t g. tAsks t @ frame g) ts replies)"
  using assms(1-4) len q
proof (induction ts arbitrary: i rn)
  case Nil
  then obtain rn' where "handle_round cd (ros i) T reg (env i) rn = Inl (Val (), rn')"
    "sent (ioConn (rnIo rn')) = sent (ioConn (rnIo rn))" using handle_round_eof [of rn cd "ros i" T reg "env i"] by auto
  then show ?case by (intro exI [of _ "[]"]) (simp add: handle_loop.simps [of _ _ _ _ _ i rn])
next
  case (Cons t ts)
  have av: "avail (ioConn (rnIo rn)) =
      frame (tRequest t) @ tAnswers t @ concat (map (\<lambda>t. frame (tRequest t) @ tAnswers t) ts)"
    using Cons.prems(1) by simp
  have lt: "length (snd (tRequest t)) < 2 ^ 24" and st: "serves cd (ros i) T reg I t"
    using Cons.prems(5,6) by simp_all
  from handle_round_serves [OF av lt Cons.prems(2,3) st, of "env i"] env [OF Cons.prems(4)]
  obtain g rn1 where r: "handle_round cd (ros i) T reg (env i) rn = Inr rn1" "tReply t g"
    "I (rnCache rn1)" "runner_ok rn1" "wr_clean (ioConn (rnIo rn1))"
    "avail (ioConn (rnIo rn1)) = concat (map (\<lambda>t. frame (tRequest t) @ tAnswers t) ts)"
    "sent (ioConn (rnIo rn1)) = sent (ioConn (rnIo rn)) @ tAsks t @ frame g" by blast
  from Cons.IH [OF r(6,5,4,3), of "Suc i"] Cons.prems(5,6) obtain replies rn' where
    ih: "handle_loop cd ros T reg env (Suc i) rn1 = (Val (), rn')" "list_all2 tReply ts replies"
    "sent (ioConn (rnIo rn')) = sent (ioConn (rnIo rn1)) @ concat (map2 (\<lambda>t g. tAsks t @ frame g) ts replies)"
    by auto
  have "handle_loop cd ros T reg env i rn = (Val (), rn')"
    using r(1) ih(1) by (simp add: handle_loop.simps [of _ _ _ _ _ i rn])
  with ih(2,3) r(2,7) show ?case by (intro exI [of _ "g # replies"]) auto
qed

subsection \<open>Properties of the server\<close>

lemma sample_runner_ok': "runner_ok sample_runner"
  using sample_runner_ok by (simp add: runner_ok_def ctx_ok_def) (simp add: sample_runner_def)

text \<open>C17: every answer is a complete message.  When the dispatch of a request returns, the reply
  has the type of the request and a finished message below the size limit, or the type
  \<open>RPCError\<close> and an error report; so sending the reply never panics.\<close>

theorem dispatchRPC_reply:
  assumes "dispatchRPC cd ro T reg ty inp rn = (Val (bd, rty), rn')"
  shows "((rty = RPCError \<and> (\<exists>c. bdMsg bd = Some (MsgErr c))) \<or>
     (rty = ty \<and> (\<exists>m. bdMsg bd = Some m \<and> length (encode_msg cd m) < MaxDataSize))) \<and>
    fst (case handle_reply cd bd rty rn' of Inl out \<Rightarrow> out | Inr rn2 \<Rightarrow> (Val (), rn2)) = Val ()"
  using dispatchRPC_finished [OF assms]
  by (auto simp: handle_reply_def Let_def FinishedBytes_def split: prod.split option.split)

theorem dispatchRPC_reply_witness:
  "\<exists>bd rn'. dispatchRPC sample_codec (\<lambda>_. rev) map_ttl [(''p'', stop_opts)] 9 [] sample_runner =
      (Val (bd, RPCError), rn') \<and>
    fst (case handle_reply sample_codec bd RPCError rn' of Inl out \<Rightarrow> out | Inr rn2 \<Rightarrow> (Val (), rn2)) = Val ()"
proof -
  have "typeHandlerMap sample_codec (\<lambda>_. rev) map_ttl [(''p'', stop_opts)] 9 = None"
    by (simp add: typeHandlerMap_def rpc_defs)
  then obtain bd rn' where d: "dispatchRPC sample_codec (\<lambda>_. rev) map_ttl [(''p'', stop_opts)] 9 [] sample_runner =
      (Val (bd, RPCError), rn')"
    by (cases "on_rn_io (generateErrorReport (UnknownType 9)) sample_runner") (auto simp: dispatchRPC_def)
  from dispatchRPC_reply [OF d] d show ?thesis by blast
qed

text \<open>C18: the error codes.  An unknown request type is reported as \<open>BAD_REQUEST\<close>, a token that is
  not in the cache as \<open>CONF_TOKEN_NOT_FOUND\<close> and any other error of a handler as
  \<open>SERVICE_UNAVAILABLE\<close>, always in a frame of type \<open>RPCError\<close>.\<close>

theorem dispatchRPC_error_codes:
  "(ty \<notin> {RPCPrepareConf, RPCHTTPReqCall, RPCHTTPRespCall} \<longrightarrow>
      (\<exists>bd rn'. dispatchRPC cd ro T reg ty inp rn = (Val (bd, RPCError), rn') \<and>
        bdMsg bd = Some (MsgErr BAD_REQUEST))) \<and>
   (\<forall>hl err rn1. typeHandlerMap cd ro T reg ty = Some hl \<and> hl inp rn = (Val (Inl err), rn1) \<longrightarrow>
      (\<exists>bd rn'. dispatchRPC cd ro T reg ty inp rn = (Val (bd, RPCError), rn') \<and>
        bdMsg bd = Some (MsgErr (if err = ErrNotFound then CONF_TOKEN_NOT_FOUND
          else if \<exists>t. err = UnknownType t then BAD_REQUEST else SERVICE_UNAVAILABLE))))"
proof (intro conjI impI allI)
  assume "ty \<notin> {RPCPrepareConf, RPCHTTPReqCall, RPCHTTPRespCall}"
  then have "typeHandlerMap cd ro T reg ty = None" by (simp add: typeHandlerMap_def)
  then show "\<exists>bd rn'. dispatchRPC cd ro T reg ty inp rn = (Val (bd, RPCError), rn') \<and>
      bdMsg bd = Some (MsgErr BAD_REQUEST)"
    by (auto simp: dispatchRPC_def generateErrorReport_def on_rn_io_eq dest: ReportError_msg split: prod.splits)
next
  fix hl err rn1
  assume h: "typeHandlerMap cd ro T reg ty = Some hl \<and> hl inp rn = (Val (Inl err), rn1)"
  obtain bd s where r: "ReportError err (rnIo rn1) = (bd, s)" by (cases "ReportError err (rnIo rn1)") auto
  then have "dispatchRPC cd ro T reg ty inp rn = (Val (bd, RPCError), rn1\<lparr>rnIo := s\<rparr>)"
    using h by (simp add: dispatchRPC_def generateErrorReport_def on_rn_io_def)
  then show "\<exists>bd rn'. dispatchRPC cd ro T reg ty inp rn = (Val (bd, RPCError), rn') \<and>
      bdMsg bd = Some (MsgErr (if err = ErrNotFound then CONF_TOKEN_NOT_FOUND
        else if \<exists>t. err = UnknownType t then BAD_REQUEST else SERVICE_UNAVAILABLE))"
    using ReportError_msg [OF r] by (cases err) auto
qed

theorem dispatchRPC_error_codes_witness:
  "\<exists>bd rn'. dispatchRPC sample_codec (\<lambda>_. rev) map_ttl [(''p'', stop_opts)] RPCExtraInfo [] sample_runner =
     (Val (bd, RPCError), rn') \<and> bdMsg bd = Some (MsgErr BAD_REQUEST)"
  using dispatchRPC_error_codes [of RPCExtraInfo sample_codec "\<lambda>_. rev" map_ttl "[(''p'', stop_opts)]" "[]" sample_runner]
  by (simp add: rpc_defs)

text \<open>C11: a connection is always closed.  Whatever the peer sends or refuses to take, whatever the
  plugins do, panics included, \<open>handleConn\<close> ends, the connection is closed then, the pools
  hold clean objects only and every context has been cancelled exactly once.\<close>

theorem handleConn_closes:
  assumes "runner_ok rn"
  shows "closed (ioConn (rnIo (handleConn cd ros T reg env rn))) \<and>
    runner_ok (handleConn cd ros T reg env rn)"
  using handle_loop_ok [OF assms, of cd ros T reg env 0]
  by (auto simp: handleConn_def conn_Close_def split: prod.splits)

theorem handleConn_closes_witness:
  "closed (ioConn (rnIo (handleConn sample_codec (\<lambda>_ _. rev) map_ttl [(''p'', stop_opts)] (\<lambda>_ cc. cc) sample_runner)))"
  using handleConn_closes [OF sample_runner_ok'] by blast

text \<open>C28: the size limit does not protect the frame header.  The limit is \<open>2 ^ 25 - 1\<close> while the
  header has 24 bits for the length: an answer of at least \<open>2 ^ 24\<close> bytes below the limit is
  accepted and its frame announces a length that is \<open>2 ^ 24\<close> too small.\<close>

theorem oversize_reply_corrupt:
  assumes "bdMsg bd = Some m" "2 ^ 24 \<le> length (encode_msg cd m)" "length (encode_msg cd m) < MaxDataSize"
  shows "checkIfDataTooLarge cd bd s = (Val (bd, True), s) \<and>
    get_header (put_header ty (length (encode_msg cd m))) = (ty, length (encode_msg cd m) - 2 ^ 24)"
proof -
  let ?n = "length (encode_msg cd m)"
  have "?n < 2 * 2 ^ 24" using assms(3) by (simp add: MaxDataSize_def push_bit_eq_mult)
  with assms(2) have "?n mod 2 ^ 24 = ?n - 2 ^ 24" by (simp add: le_mod_geq)
  with assms show ?thesis
    by (simp add: checkIfDataTooLarge_def FinishedBytes_def get_put_header Let_def)
qed

theorem oversize_reply_corrupt_witness:
  "checkIfDataTooLarge (sample_codec\<lparr>encode_msg := \<lambda>_. replicate (2 ^ 24 + 5) 0\<rparr>)
     (Finish (MsgErr BAD_REQUEST) NewBuilder) (rnIo sample_runner) =
     (Val (Finish (MsgErr BAD_REQUEST) NewBuilder, True), rnIo sample_runner) \<and>
   get_header (put_header RPCHTTPReqCall (2 ^ 24 + 5)) = (RPCHTTPReqCall, 5)"
  using oversize_reply_corrupt [of "Finish (MsgErr BAD_REQUEST) NewBuilder" "MsgErr BAD_REQUEST"
      "sample_codec\<lparr>encode_msg := \<lambda>_. replicate (2 ^ 24 + 5) 0\<rparr>" "rnIo sample_runner" RPCHTTPReqCall]
  by (simp add: Finish_def MaxDataSize_def push_bit_eq_mult)

subsection \<open>Quiet handlers\<close>

text \<open>One reply per request, in order.  When the peer sends a sequence of complete frames, however
  it splits them, takes everything it is sent and then closes, and the handlers of these
  requests return without using the connection, \<open>handleConn\<close> sends exactly one frame per
  request, in the order of the requests, each with the type of its request or \<open>RPCError\<close>.
  The shared cache may change between the requests in any way that keeps the invariant the
  handlers rely on.\<close>

lemma handleConn_replies:
  assumes "avail (ioConn (rnIo rn)) = concat (map frame reqs)" "wr_clean (ioConn (rnIo rn))" "runner_ok rn"
    and "I (rnCache rn)" and "\<And>i cc. I cc \<Longrightarrow> I (env i cc)"
    and "\<And>f. f \<in> set reqs \<Longrightarrow> length (snd f) < 2 ^ 24"
    and "\<And>i f. f \<in> set reqs \<Longrightarrow> quiet cd (ros i) T reg I f"
  shows "\<exists>replies. list_all2 (\<lambda>f g. fst g \<in> {RPCError, fst f}) reqs replies \<and>
    sent (ioConn (rnIo (handleConn cd ros T reg env rn))) = sent (ioConn (rnIo rn)) @ concat (map frame replies)"
proof -
  have "avail (ioConn (rnIo rn)) = concat (map (\<lambda>t. frame (tRequest t) @ tAnswers t) (map quiet_turn reqs))"
    using assms(1) by (simp add: comp_def)
  moreover have "length (snd (tRequest t)) < 2 ^ 24" "serves cd (ros i) T reg I t"
    if "t \<in> set (map quiet_turn reqs)" for t i
    using that assms(6,7) by (auto intro!: quiet_serves)
  ultimately obtain replies rn' where r: "handle_loop cd ros T reg env 0 rn = (Val (), rn')"
    "list_all2 tReply (map quiet_turn reqs) replies" "sent (ioConn (rnIo rn')) = sent (ioConn (rnIo rn)) @
      concat (map2 (\<lambda>t g. tAsks t @ frame g) (map quiet_turn reqs) replies)"
    using handle_loop_serves [where i = 0 and env = env and ts = "map quiet_turn reqs" and ros = ros, OF _ assms(2-5)]
    by blast
  from r(2) have "list_all2 (\<lambda>f g. fst g \<in> {RPCError, fst f}) reqs replies" by (simp add: list_all2_map1)
  moreover from this have "concat (map2 (\<lambda>t g. tAsks t @ frame g) (map quiet_turn reqs) replies) = concat (map frame replies)"
    by (induction rule: list_all2_induct) auto
  ultimately show ?thesis using r by (auto simp: handleConn_def conn_Close_def)
qed

definition tokens_only :: "(string \<Rightarrow> bytes cache_val option) ConfCache \<Rightarrow> bool" where
  "tokens_only cc \<longleftrightarrow> (\<forall>k v. keyCache cc k = Some v \<longrightarrow> (\<exists>t. v = CToken t))"

lemma sample_prepare_quiet:
  "quiet sample_codec ro map_ttl [(''p'', sample_opts)] tokens_only (RPCPrepareConf, [1])"
  unfolding quiet_def
proof (intro allI impI)
  fix rn :: "(string \<Rightarrow> bytes cache_val option) runner"
  assume I: "tokens_only (rnCache rn)"
  let ?reg = "[(''p'', sample_opts)]" and ?k = "go_string_opt (pqKey sample_preq)"
  have k: "?k \<noteq> []" by (simp add: sample_preq_def go_string_opt_def go_string_def)
  have "\<exists>t cc. ConfCache_Set map_ttl ?reg sample_preq (rnCache rn) = (Val (Inr t), cc) \<and> tokens_only cc"
  proof (cases "keyCache (rnCache rn) ?k")
    case None
    from ConfCache_Set_miss [where live = "\<lambda>s. s", OF map_ttl_spec refl _ sample_parse, of "rnCache rn"] None I show ?thesis
      by (auto simp: tokens_only_def)
  next
    case (Some v)
    with I obtain t where "keyCache (rnCache rn) ?k = Some (CToken t)" by (auto simp: tokens_only_def)
    from ConfCache_Set_hit [where live = "\<lambda>s. s", OF map_ttl_spec refl k this, of ?reg] I show ?thesis
      by (auto simp: tokens_only_def)
  qed
  then obtain t cc where set: "ConfCache_Set map_ttl ?reg sample_preq (rnCache rn) = (Val (Inr t), cc)" "tokens_only cc"
    by blast
  have "GetRootAsPrepareConf sample_codec [1] = Val sample_preq"
    "length (encode_msg sample_codec (MsgPrepareConfResp t)) < MaxDataSize"
    by (simp_all add: sample_codec_def MaxDataSize_def push_bit_eq_mult)
  from dispatch_PrepareConf [OF this(1) set(1) this(2), of ro] set(2)
  show "\<exists>bd rty rn'. dispatchRPC sample_codec ro map_ttl ?reg (fst (RPCPrepareConf, [1])) (snd (RPCPrepareConf, [1])) rn =
      (Val (bd, rty), rn') \<and> tokens_only (rnCache rn') \<and> ioConn (rnIo rn') = ioConn (rnIo rn)"
    by auto
qed

lemma handleConn_replies_sample:
  "\<exists>replies. length replies = 2 \<and> sent (ioConn (rnIo (handleConn sample_codec (\<lambda>_ _. rev) map_ttl
      [(''p'', sample_opts)] (\<lambda>_ cc. cc) (set_conn \<lparr>rd = [RdData [1, 0, 0], RdData [1, 1, 1, 0, 0], RdData [1, 1]],
        wr = [WrOk 1, WrOk 2], sent = [], closed = False\<rparr> sample_runner)))) = concat (map frame replies)"
proof -
  let ?c = "\<lparr>rd = [RdData [1, 0, 0], RdData [1, 1, 1, 0, 0], RdData [1, 1]], wr = [WrOk 1, WrOk 2], sent = [],
      closed = False\<rparr>"
  let ?reqs = "[(RPCPrepareConf, [1]), (RPCPrepareConf, [1])] :: (byte \<times> bytes) list"
  have "runner_ok (set_conn ?c sample_runner)" using sample_runner_ok' by simp
  moreover have "avail ?c = concat (map frame ?reqs)"
    by (simp add: avail_def frame_def put_header_def PutUint32_def rpc_defs)
  ultimately have r: "\<exists>replies. list_all2 (\<lambda>f g. fst g \<in> {RPCError, fst f}) ?reqs replies \<and>
      sent (ioConn (rnIo (handleConn sample_codec (\<lambda>_ _. rev) map_ttl [(''p'', sample_opts)] (\<lambda>_ cc. cc)
        (set_conn ?c sample_runner)))) = sent (ioConn (rnIo (set_conn ?c sample_runner))) @ concat (map frame replies)"
    by - (rule handleConn_replies [where I = tokens_only],
      auto simp: wr_clean_def tokens_only_def sample_runner_def sample_prepare_quiet)
  from r obtain replies where rep: "list_all2 (\<lambda>f g. fst g \<in> {RPCError, fst f}) ?reqs replies"
    "sent (ioConn (rnIo (handleConn sample_codec (\<lambda>_ _. rev) map_ttl [(''p'', sample_opts)] (\<lambda>_ cc. cc)
        (set_conn ?c sample_runner)))) = sent (ioConn (rnIo (set_conn ?c sample_runner))) @ concat (map frame replies)"
    by blast
  from list_all2_lengthD [OF rep(1)] rep(2) show ?thesis by (intro exI [of _ replies]) simp
qed

end
