(* ===== verification/Startup.thy ===== *)
theory Startup
  imports Server
begin

section \<open>Start-up: logging, configuration from the environment, the listener\<close>

text \<open>
  \<open>pkg/log/log.go\<close> (which logger is used), \<open>pkg/runner/runner.go\<close>, the start-up part of
  \<open>internal/server/server.go\<close> (\<open>getConfCacheTTL\<close>, \<open>getSockAddr\<close>, \<open>Run\<close>) and
  \<open>cmd/go-runner/version.go\<close>.

  What the operating system answers is an argument; what the process does to the outside world
  is a list of actions.  \<open>log.Fatalf\<close> ends the process at once, without running deferred calls.
\<close>

subsection \<open>Logging (pkg/log/log.go)\<close>

text \<open>The loggers of zap are opaque; \<open>mk\<close> stands for what \<open>NewLogger\<close> builds from a level and an
  output.  \<open>loggerInit\<close> is the \<open>sync.Once\<close>.\<close>

datatype log_level = DebugLevel | InfoLevel | WarnLevel | ErrorLevel

record 'l log_state =
  logger :: "'l option"
  loggerInit :: bool

definition SetLogger :: "'l option \<Rightarrow> 'l log_state \<Rightarrow> 'l log_state" where
  "SetLogger l s = s\<lparr>logger := l\<rparr>"

definition NewLogger :: "(log_level \<Rightarrow> 'o \<Rightarrow> 'l) \<Rightarrow> log_level \<Rightarrow> 'o \<Rightarrow> 'l log_state \<Rightarrow> 'l log_state" where
  "NewLogger mk level out s = s\<lparr>logger := Some (mk level out)\<rparr>"

definition GetLogger :: "(log_level \<Rightarrow> 'o \<Rightarrow> 'l) \<Rightarrow> 'o \<Rightarrow> 'l log_state \<Rightarrow> 'l option \<times> 'l log_state" where
  "GetLogger mk stdout s =
     (let s1 = (if loggerInit s then s
                else (if logger s = None then NewLogger mk InfoLevel stdout s else s)\<lparr>loggerInit := True\<rparr>)
      in (logger s1, s1))"

text \<open>The wrappers call the method of the same name on the logger in use.  What they do is the call they make on zap: the
  receiver (which may be nil), the method and the formatted message; zap ends the process in its \<open>Fatalf\<close>.\<close>

datatype zap_method = ZapDebugf | ZapInfof | ZapWarnf | ZapErrorf | ZapFatalf

datatype 'l zap_call = ZapCall "'l option" zap_method string

type_synonym ('l, 'o) log_wrapper =
  "(log_level \<Rightarrow> 'o \<Rightarrow> 'l) \<Rightarrow> 'o \<Rightarrow> string \<Rightarrow> 'l log_state \<Rightarrow> 'l zap_call \<times> 'l log_state"

definition Debugf :: "('l, 'o) log_wrapper" where
  "Debugf mk stdout msg s = (case GetLogger mk stdout s of (l, s') \<Rightarrow> (ZapCall l ZapDebugf msg, s'))"

definition Infof :: "('l, 'o) log_wrapper" where
  "Infof mk stdout msg s = (case GetLogger mk stdout s of (l, s') \<Rightarrow> (ZapCall l ZapInfof msg, s'))"

definition Warnf :: "('l, 'o) log_wrapper" where
  "Warnf mk stdout msg s = (case GetLogger mk stdout s of (l, s') \<Rightarrow> (ZapCall l ZapWarnf msg, s'))"

definition Errorf :: "('l, 'o) log_wrapper" where
  "Errorf mk stdout msg s = (case GetLogger mk stdout s of (l, s') \<Rightarrow> (ZapCall l ZapErrorf msg, s'))"

definition Fatalf :: "('l, 'o) log_wrapper" where
  "Fatalf mk stdout msg s = (case GetLogger mk stdout s of (l, s') \<Rightarrow> (ZapCall l ZapFatalf msg, s'))"

lemmas log_wrapper_defs = Debugf_def Infof_def Warnf_def Errorf_def Fatalf_def

fun log_all :: "(string \<Rightarrow> 'l log_state \<Rightarrow> 'l zap_call \<times> 'l log_state) list \<Rightarrow> string list \<Rightarrow> 'l log_state \<Rightarrow> 'l zap_call list" where
  "log_all (f # fs) (msg # msgs) s = (case f msg s of (c, s') \<Rightarrow> c # log_all fs msgs s')"
| "log_all fs msgs s = []"

text \<open>The logger in use stays.\<close>

lemma GetLogger_stays:
  "GetLogger mk stdout s = (l, s') \<Longrightarrow> GetLogger mk stdout s' = (l, s')"
  by (auto simp: GetLogger_def Let_def split: if_splits)

subsection \<open>runner.Run (pkg/runner/runner.go)\<close>

record ('l, 'o) RunnerConfig =
  LogLevel :: log_level
  LogOutput :: "'o option"
  Logger :: "'l option"

text \<open>The part of \<open>Run\<close> before \<open>server.Run()\<close>.\<close>

definition runner_Run :: "(log_level \<Rightarrow> 'o \<Rightarrow> 'l) \<Rightarrow> 'o \<Rightarrow> ('l, 'o) RunnerConfig \<Rightarrow> 'l log_state \<Rightarrow> 'l log_state" where
  "runner_Run mk stdout cfg s =
     (let out = (case LogOutput cfg of None \<Rightarrow> stdout | Some out \<Rightarrow> out)
      in case Logger cfg of
           None \<Rightarrow> NewLogger mk (LogLevel cfg) out s
         | Some l \<Rightarrow> SetLogger (Some l) s)"

subsection \<open>strconv.Atoi\<close>

definition is_digit :: "char \<Rightarrow> bool" where
  "is_digit c \<longleftrightarrow> 48 \<le> (of_char c :: nat) \<and> (of_char c :: nat) \<le> 57"

text \<open>An optional sign and at least one decimal digit, within the range of \<open>int\<close>; \<open>None\<close> is an
  error.\<close>

definition Atoi :: "string \<Rightarrow> int option" where
  "Atoi s =
     (let neg = (s \<noteq> [] \<and> hd s = CHR ''-'');
          ds = (if s \<noteq> [] \<and> hd s \<in> {CHR ''-'', CHR ''+''} then tl s else s);
          n = (if neg then - int (decimal_value ds) else int (decimal_value ds))
      in if ds = [] \<or> \<not> list_all is_digit ds then None
         else if - (2 ^ 63) \<le> n \<and> n < 2 ^ 63 then Some n else None)"

subsection \<open>The cache TTL\<close>

text \<open>
  \<open>float64\<close> arithmetic on non-negative values: rounding an integer to 53 significant bits, ties
  to even.  The constant 1.2 is \<open>5404319552844595 / 2 ^ 52\<close>; the product of an integer with
  it is an integer over \<open>2 ^ 52\<close>.
\<close>

fun bit_length :: "nat \<Rightarrow> nat" where
  "bit_length n = (if n = 0 then 0 else Suc (bit_length (n div 2)))"

declare bit_length.simps [simp del]

definition round_at :: "nat \<Rightarrow> nat \<Rightarrow> nat" where
  "round_at k a =
     (let q = a div 2 ^ k; r = a mod 2 ^ k
      in if 2 ^ k < 2 * r \<or> (2 * r = 2 ^ k \<and> odd q) then (q + 1) * 2 ^ k else q * 2 ^ k)"

definition float_round :: "nat \<Rightarrow> nat" where
  "float_round a = round_at (bit_length a - 53) a"

definition amplificationFactor :: nat where
  "amplificationFactor = 5404319552844595"

definition amplify :: "nat \<Rightarrow> nat" where
  "amplify n = float_round (float_round n * amplificationFactor) div 2 ^ 52"

text \<open>\<open>time.Duration(f) * time.Second\<close> in 64 bits; converting a float that does not fit is left
  open by the language (\<open>f2i\<close>).\<close>

definition to_duration :: "(nat \<Rightarrow> 64 word) \<Rightarrow> nat \<Rightarrow> 64 word" where
  "to_duration f2i f = (if f < 2 ^ 63 then word_of_nat f else f2i f) * 1000000000"

definition getConfCacheTTL :: "(nat \<Rightarrow> 64 word) \<Rightarrow> string \<Rightarrow> 64 word" where
  "getConfCacheTTL f2i ttl =
     (if ttl = [] then to_duration f2i (amplify 3600)
      else case Atoi ttl of
             None \<Rightarrow> 0
           | Some n \<Rightarrow> (if n \<le> 0 then 0 else to_duration f2i (amplify (nat n))))"

definition getSockAddr :: "string \<Rightarrow> string" where
  "getSockAddr path = (if take 5 path \<noteq> ''unix:'' then [] else drop 5 path)"

subsection \<open>server.Run\<close>

datatype os_action =
    ARemoveAll string
  | AListen string
  | AChmod string nat
  | AServe
  | ACloseDone
  | ACloseListener
  | AFatal

text \<open>What the operating system answers to the calls of \<open>Run\<close>: \<open>True\<close> is an error.\<close>

record os_answers =
  osRemoveFails :: bool
  osListenFails :: bool
  osChmodFails :: bool

definition server_Run ::
  "('k, 'c) ttl_ops \<Rightarrow> (nat \<Rightarrow> 64 word) \<Rightarrow> string \<Rightarrow> string \<Rightarrow> os_answers \<Rightarrow> 'k ConfCache option \<times> os_action list" where
  "server_Run T f2i ttlEnv addrEnv os =
     (let ttl = getConfCacheTTL f2i ttlEnv
      in if ttl = 0 then (None, [AFatal])
         else case newConfCache T (sint ttl) of
                None \<Rightarrow> (None, [AFatal])
              | Some cc \<Rightarrow>
                  (let sockAddr = getSockAddr addrEnv
                   in if sockAddr = [] then (Some cc, [AFatal])
                      else if osRemoveFails os then (Some cc, [ARemoveAll sockAddr, AFatal])
                      else if osListenFails os then (Some cc, [ARemoveAll sockAddr, AListen sockAddr, AFatal])
                      else if osChmodFails os then
                        (Some cc, [ARemoveAll sockAddr, AListen sockAddr, AChmod sockAddr 502, AFatal])
                      else (Some cc, [ARemoveAll sockAddr, AListen sockAddr, AChmod sockAddr 502, AServe,
                        ACloseDone, ACloseListener, ARemoveAll sockAddr])))"

text \<open>The accepting goroutine: for each return of \<open>Accept\<close> whether \<open>done\<close> is closed by then, and the
  connection or the error.  The result are the connections handed to \<open>handleConn\<close>.\<close>

fun accept_loop :: "(bool \<times> (go_error + 'conn)) list \<Rightarrow> 'conn list" where
  "accept_loop [] = []"
| "accept_loop ((done, res) # evs) =
     (if done then []
      else case res of Inl err \<Rightarrow> accept_loop evs | Inr conn \<Rightarrow> conn # accept_loop evs)"

subsection \<open>Version (cmd/go-runner/version.go)\<close>

record build_info =
  buildVersion :: string
  buildGitRevision :: string
  buildOS :: string
  buildGoVersion :: string
  runningOS :: string

definition shortVersion :: "build_info \<Rightarrow> string" where
  "shortVersion b = buildVersion b @ ''-'' @ buildGitRevision b @ ''-'' @ buildGoVersion b"

text \<open>\<open>fmt.Fprintln\<close> of two strings: a space between them and a newline after them.\<close>

definition Fprintln2 :: "string \<Rightarrow> string \<Rightarrow> string" where
  "Fprintln2 a b = a @ '' '' @ b @ [CHR 0x0A]"

definition longVersion :: "build_info \<Rightarrow> string" where
  "longVersion b = Fprintln2 ''Version:'' (buildVersion b) @ Fprintln2 ''Git SHA:'' (buildGitRevision b) @
     Fprintln2 ''Go Version:'' (buildGoVersion b) @ Fprintln2 ''Building OS/Arch:'' (buildOS b) @
     Fprintln2 ''Running OS/Arch:'' (runningOS b)"

subsection \<open>Rounding\<close>

lemma bit_length_bounds: "0 < n \<Longrightarrow> 2 ^ (bit_length n - 1) \<le> n \<and> n < 2 ^ bit_length n \<and> 0 < bit_length n"
proof (induction n rule: bit_length.induct)
  case (1 n)
  show ?case
  proof (cases "n div 2 = 0")
    case True
    with 1 have "n = 1" by auto
    then show ?thesis by (simp add: bit_length.simps)
  next
    case False
    with 1 have ih: "2 ^ (bit_length (n div 2) - 1) \<le> n div 2" "n div 2 < 2 ^ bit_length (n div 2)"
      "0 < bit_length (n div 2)" by auto
    then obtain m where m: "bit_length (n div 2) = Suc m" by (cases "bit_length (n div 2)") auto
    have "bit_length n = Suc (Suc m)" using 1 m by (simp add: bit_length.simps [of n])
    with ih m show ?thesis by auto
  qed
qed

lemma round_at_error:
  "2 * a \<le> 2 * round_at k a + 2 ^ k \<and> 2 * round_at k a \<le> 2 * a + 2 ^ k"
proof -
  define q r where "q = a div 2 ^ k" and "r = a mod 2 ^ k"
  have a: "a = q * 2 ^ k + r" unfolding q_def r_def by (rule div_mult_mod_eq [symmetric])
  have r: "r < 2 ^ k" by (simp add: r_def)
  have "round_at k a = (if 2 ^ k < 2 * r \<or> (2 * r = 2 ^ k \<and> odd q) then (q + 1) * 2 ^ k else q * 2 ^ k)"
    by (simp add: round_at_def q_def r_def Let_def)
  then show ?thesis using a r by (auto simp: algebra_simps)
qed

text \<open>Just below a multiple of the unit, rounding goes up to it.\<close>

lemma round_at_up:
  assumes "0 < j" "2 * j < 2 ^ k" "m * 2 ^ k = a + j"
  shows "round_at k a = a + j"
proof -
  have "0 < m" using assms by (cases m) auto
  then obtain m' where m: "m = Suc m'" by (cases m) auto
  define d where "d = 2 ^ k - j"
  have d: "d < 2 ^ k" "d + j = 2 ^ k" using assms by (auto simp: d_def)
  have a: "a = d + m' * 2 ^ k" using assms m d by auto
  then have "a div 2 ^ k = m'" "a mod 2 ^ k = d" using d by simp_all
  then show ?thesis using assms m d a by (auto simp: round_at_def Let_def algebra_simps)
qed

lemma pow2_less: "(2 :: nat) ^ a < 2 ^ b \<Longrightarrow> a < b"
  using power_less_imp_less_exp [of "2 :: nat" a b] by simp

lemma float_round_small: "n < 2 ^ 53 \<Longrightarrow> float_round n = n"
proof (cases "n = 0")
  case True
  then show ?thesis by (simp add: float_round_def round_at_def bit_length.simps)
next
  case False
  assume n: "n < 2 ^ 53"
  have "2 ^ (bit_length n - 1) \<le> n" using bit_length_bounds [of n] False by simp
  with n have "(2 :: nat) ^ (bit_length n - 1) < 2 ^ 53" by simp
  from pow2_less [OF this] have "bit_length n \<le> 53" by simp
  then show ?thesis by (simp add: float_round_def round_at_def)
qed

lemma amplify_value:
  assumes "0 < n" "n < 2 ^ 32"
  shows "amplify n = 6 * n div 5"
proof -
  let ?a = "n * amplificationFactor"
  define k where "k = bit_length ?a - 53"
  have c: "5 * ?a + n = 6 * n * 2 ^ 52" by (simp add: amplificationFactor_def)
  have pos: "0 < ?a" using assms by (simp add: amplificationFactor_def)
  have hi: "?a < 2 ^ bit_length ?a" and lo: "2 ^ (bit_length ?a - 1) \<le> ?a" and b0: "0 < bit_length ?a"
    using bit_length_bounds [OF pos] by auto
  have "?a < 2 ^ 85" using assms by (simp add: amplificationFactor_def)
  with lo have "(2 :: nat) ^ (bit_length ?a - 1) < 2 ^ 85" by simp
  from pow2_less [OF this] have k32: "k \<le> 32" unfolding k_def by simp
  have "(2 :: nat) ^ 52 < 2 ^ bit_length ?a" using hi assms by (simp add: amplificationFactor_def)
  from pow2_less [OF this] have bl: "bit_length ?a = k + 53" unfolding k_def by simp
  have kp: "(2 :: nat) ^ k \<le> 2 ^ 32" using k32 by (rule power_increasing) simp
  have fr: "float_round (float_round n * amplificationFactor) = round_at k ?a"
    using assms by (simp add: float_round_small) (simp add: float_round_def k_def)
  show ?thesis
  proof (cases "5 dvd n")
    case True
    then obtain j where j: "n = 5 * j" by (auto elim: dvdE)
    have aj: "?a + j = 6 * j * 2 ^ 52" using c j by simp
    have "?a < 2 ^ k * 2 ^ 53" using hi bl by (simp add: power_add)
    then have "2 * j < 2 ^ k" using assms(1) j by (simp add: amplificationFactor_def)
    moreover have "(6 * j * 2 ^ (52 - k)) * 2 ^ k = ?a + j"
      using aj k32 by (simp add: mult.assoc power_add [symmetric])
    ultimately have "round_at k ?a = 6 * j * 2 ^ 52"
      using round_at_up [of j k "6 * j * 2 ^ (52 - k)" ?a] aj assms j by simp
    then show ?thesis using fr j by (simp add: amplify_def)
  next
    case False
    define q where "q = 6 * n div 5"
    define s where "s = 6 * n mod 5"
    have qs: "6 * n = 5 * q + s" unfolding q_def s_def by simp
    have s: "s < 5" "0 < s" using False unfolding s_def by presburger+
    have e: "2 * ?a \<le> 2 * round_at k ?a + 2 ^ k" "2 * round_at k ?a \<le> 2 * ?a + 2 ^ k"
      using round_at_error [of ?a k] by auto
    have a5: "5 * ?a + n = (5 * q + s) * 2 ^ 52" using c qs by simp
    have "q * 2 ^ 52 \<le> round_at k ?a" using e(1) a5 kp s assms by simp
    moreover have "round_at k ?a < (q + 1) * 2 ^ 52" using e(2) a5 kp s assms by simp
    ultimately have "round_at k ?a div 2 ^ 52 = q"
      by (simp add: div_nat_eqI)
    then show ?thesis using fr by (simp add: amplify_def q_def)
  qed
qed

lemma to_duration_sint:
  assumes "f < 2 ^ 33"
  shows "sint (to_duration f2i f) = int f * 1000000000"
proof -
  have "to_duration f2i f = word_of_int (int f * 1000000000)"
    using assms by (simp add: to_duration_def)
  moreover have "sint (word_of_int k :: 64 word) = k" if "- (2 ^ 63) \<le> k" "k < 2 ^ 63" for k
    using that by (simp add: sint_sbintrunc' signed_take_bit_int_eq_self)
  from this [of "int f * 1000000000"] have "sint (word_of_int (int f * 1000000000) :: 64 word) = int f * 1000000000"
    using assms by (simp del: of_int_mult)
  ultimately show ?thesis by simp
qed

subsection \<open>Properties of the start-up\<close>

text \<open>C30: the lifetime of cached configurations.  For a configured expiry time of \<open>n\<close> seconds, below \<open>2 ^ 32\<close>, the
  cache keeps a configuration for exactly \<open>6 n / 5\<close> seconds, rounded down, in spite of the
  binary approximation of 1.2 and of the multiplication in 64 bits; that is longer than
  APISIX keeps the token exactly when \<open>n\<close> is at least 5.  Without a setting it is 4320
  seconds, and a number that is not positive is reported as 0.\<close>

theorem getConfCacheTTL_value:
  assumes "Atoi ttl = Some n" "n < 2 ^ 32"
  shows "sint (getConfCacheTTL f2i ttl) = (if 0 < n then (6 * n div 5) * 1000000000 else 0) \<and>
    (0 < n \<longrightarrow> (n * 1000000000 < sint (getConfCacheTTL f2i ttl) \<longleftrightarrow> 5 \<le> n)) \<and>
    sint (getConfCacheTTL f2i []) = 4320 * 1000000000"
proof -
  have ne: "ttl \<noteq> []" using assms(1) by (auto simp: Atoi_def)
  have v: "sint (getConfCacheTTL f2i ttl) = (if 0 < n then (6 * n div 5) * 1000000000 else 0)"
  proof (cases "0 < n")
    case True
    define m where "m = nat n"
    with True have m: "n = int m" "0 < m" by simp_all
    then have am: "amplify m = 6 * m div 5" using assms(2) by (intro amplify_value) simp_all
    have b: "6 * m div 5 < 2 ^ 33" using assms(2) m by simp
    have "getConfCacheTTL f2i ttl = to_duration f2i (6 * m div 5)"
      using True ne assms(1) am by (simp add: getConfCacheTTL_def m_def)
    with to_duration_sint [OF b, of f2i] True m show ?thesis by (simp add: zdiv_int)
  next
    case False
    then show ?thesis using ne assms(1) by (simp add: getConfCacheTTL_def)
  qed
  have "amplify 3600 = 4320" by (simp add: amplify_value)
  then have "sint (getConfCacheTTL f2i []) = 4320 * 1000000000"
    by (simp add: getConfCacheTTL_def to_duration_sint)
  moreover have "n < 6 * n div 5 \<longleftrightarrow> 5 \<le> n" if "0 < n" using that by presburger
  then have "n * 1000000000 < (6 * n div 5) * 1000000000 \<longleftrightarrow> 5 \<le> n" if "0 < n"
    using that by (simp only: mult_less_cancel_right_disj) simp
  ultimately show ?thesis using v by simp
qed

theorem getConfCacheTTL_value_witness:
  "sint (getConfCacheTTL (\<lambda>_. 0) ''4'') = 4000000000 \<and> sint (getConfCacheTTL (\<lambda>_. 0) ''+3601'') = 4321000000000"
proof -
  have "Atoi ''4'' = Some 4" "Atoi ''+3601'' = Some 3601"
    by (simp_all add: Atoi_def decimal_value_def is_digit_def)
  from getConfCacheTTL_value [OF this(1), of "\<lambda>_. 0"] getConfCacheTTL_value [OF this(2), of "\<lambda>_. 0"] show ?thesis by simp
qed

text \<open>C31: the runner listens only when it is ready.  \<open>Run\<close> creates the socket only with a valid
  TTL, an existing cache and a non-empty address, after removing what was there; it serves
  only after the permissions are set; and after serving it removes the socket.  When setting
  the permissions fails, the process ends with the socket left behind.\<close>

theorem server_Run_order:
  "case server_Run T f2i ttlEnv addrEnv os of (cc, acts) \<Rightarrow>
     (\<forall>a. AListen a \<in> set acts \<longrightarrow> cc \<noteq> None \<and> getConfCacheTTL f2i ttlEnv \<noteq> 0 \<and> a \<noteq> [] \<and>
        addrEnv = ''unix:'' @ a \<and> take 2 acts = [ARemoveAll a, AListen a]) \<and>
     (AServe \<in> set acts \<longleftrightarrow> last acts \<noteq> AFatal) \<and>
     (AServe \<in> set acts \<longrightarrow> (\<exists>a. acts =
        [ARemoveAll a, AListen a, AChmod a 502, AServe, ACloseDone, ACloseListener, ARemoveAll a])) \<and>
     (\<forall>a. AListen a \<in> set acts \<and> osChmodFails os \<and> \<not> osListenFails os \<longrightarrow>
        drop 2 acts = [AChmod a 502, AFatal])"
proof -
  have "addrEnv = ''unix:'' @ getSockAddr addrEnv" if "getSockAddr addrEnv \<noteq> []"
  proof -
    from that have "take 5 addrEnv = ''unix:''" "getSockAddr addrEnv = drop 5 addrEnv"
      by (auto simp: getSockAddr_def split: if_splits)
    then show ?thesis using append_take_drop_id [of 5 addrEnv] by simp
  qed
  then show ?thesis
    by (auto simp: server_Run_def Let_def split: option.splits)
qed

theorem server_Run_order_witness:
  "server_Run map_ttl (\<lambda>_. 0) [] ''unix:/s'' \<lparr>osRemoveFails = False, osListenFails = False, osChmodFails = False\<rparr> =
     (Some \<lparr>tokenCache = Map.empty, keyCache = Map.empty, tokenCounter = 0\<rparr>,
      [ARemoveAll ''/s'', AListen ''/s'', AChmod ''/s'' 502, AServe, ACloseDone, ACloseListener, ARemoveAll ''/s''])"
proof -
  have "amplify 3600 = 4320" by (simp add: amplify_value)
  then have "getConfCacheTTL (\<lambda>_. 0) [] \<noteq> 0" by (simp add: getConfCacheTTL_def to_duration_def)
  then have "server_Run map_ttl (\<lambda>_. 0) [] ''unix:/s''
      \<lparr>osRemoveFails = False, osListenFails = False, osChmodFails = False\<rparr> =
     (Some \<lparr>tokenCache = Map.empty, keyCache = Map.empty, tokenCounter = 0\<rparr>,
      [ARemoveAll ''/s'', AListen ''/s'', AChmod ''/s'' 502, AServe, ACloseDone, ACloseListener, ARemoveAll ''/s''])"
    by (simp add: server_Run_def getSockAddr_def newConfCache_def newTTLCache_def map_ttl_def Let_def)
  with server_Run_order [where T = map_ttl and f2i = "\<lambda>_. 0" and ttlEnv = "[]" and addrEnv = "''unix:/s''"
      and os = "\<lparr>osRemoveFails = False, osListenFails = False, osChmodFails = False\<rparr>"] show ?thesis by simp
qed

text \<open>The configured logger is the one in use.  After \<open>Run\<close> has set up logging, every later call
  of \<open>GetLogger\<close> returns the logger of the configuration, or one built from its level and its
  output (standard output by default), whether or not a logger was in use before.\<close>

lemma runner_Run_logger:
  "fst (GetLogger mk stdout (snd (GetLogger mk stdout (runner_Run mk stdout cfg s)))) =
     Some (case Logger cfg of Some l \<Rightarrow> l
       | None \<Rightarrow> mk (LogLevel cfg) (case LogOutput cfg of None \<Rightarrow> stdout | Some out \<Rightarrow> out)) \<and>
   fst (GetLogger mk stdout (runner_Run mk stdout cfg s)) =
     fst (GetLogger mk stdout (snd (GetLogger mk stdout (runner_Run mk stdout cfg s))))"
  by (simp add: GetLogger_def runner_Run_def NewLogger_def SetLogger_def Let_def split: option.split)

text \<open>Every line any wrapper writes from then on goes to that logger, and none to a nil one.\<close>

lemma runner_Run_lines:
  assumes "set fs \<subseteq> {Debugf mk stdout, Infof mk stdout, Warnf mk stdout, Errorf mk stdout, Fatalf mk stdout}"
    and "ZapCall l m msg \<in> set (log_all fs msgs (runner_Run mk stdout cfg s))"
  shows "l = Some (case Logger cfg of Some l \<Rightarrow> l
    | None \<Rightarrow> mk (LogLevel cfg) (case LogOutput cfg of None \<Rightarrow> stdout | Some out \<Rightarrow> out))"
proof -
  have "l = k" if "GetLogger mk stdout s = (k, s')" "ZapCall l m msg \<in> set (log_all fs msgs s)" for k s s'
    using assms(1) that
  proof (induction fs msgs s arbitrary: s' rule: log_all.induct)
    case (1 f fs ms msgs s)
    then obtain z where f: "f ms s = (ZapCall k z ms, s')" by (auto simp: log_wrapper_defs)
    with "1.prems"(3) have "l = k \<or> ZapCall l m msg \<in> set (log_all fs msgs s')" by auto
    with "1.IH" [OF f [symmetric] _ GetLogger_stays [OF "1.prems"(2)]] "1.prems"(1) show ?case by auto
  qed auto
  moreover obtain k s' where "GetLogger mk stdout (runner_Run mk stdout cfg s) = (k, s')"
    by (cases "GetLogger mk stdout (runner_Run mk stdout cfg s)")
  ultimately have "l = k" "fst (GetLogger mk stdout (runner_Run mk stdout cfg s)) = k" using assms(2) by auto
  with runner_Run_logger [of mk stdout cfg s] show ?thesis by simp
qed

end
