(* ===== verification/Demo_Plugins.thy ===== *)
theory Demo_Plugins
  imports Startup
begin

section \<open>The plugins of the example runner (cmd/go-runner/plugins, pkg/plugin)\<close>

text \<open>
  The five plugins the command ships, as programs over the interfaces of \<open>Plugin_Api\<close>, and
  \<open>pkg/plugin\<close>, which registers them.

  Parameters (\<open>libs\<close>) are the parser from JSON text to a JSON value, the parser of floating-point
  literals, \<open>golang.org/x/time/rate\<close> and the compiled form and matching of regular expressions.
  How \<open>json.Unmarshal\<close> fills a struct from a JSON value is modelled: keys match the field names
  up to case, unknown keys are ignored, \<open>null\<close> leaves a field alone, a value of another type is
  an error.  The random draw of the fault injection and the answer of the rate limiter are
  arguments of the filters; \<open>time.Sleep\<close> is not modelled.
\<close>

datatype json = JNull | JBool bool | JNum string | JStr string | JList "json list" | JObj "(string \<times> json) list"

record ('f, 'l, 'r) libs =
  js_parse :: "bytes \<Rightarrow> json option"
  ParseFloat :: "string \<Rightarrow> 'f option"
  zeroFloat :: 'f
  NewLimiter :: "'f \<Rightarrow> int \<Rightarrow> 'l"
  regexp_Compile :: "string \<Rightarrow> go_error + 'r"
  regexp_Find :: "'r \<Rightarrow> bytes \<Rightarrow> bytes option"

subsection \<open>json.Unmarshal into a struct\<close>

definition fold_char :: "char \<Rightarrow> char" where
  "fold_char c = (if is_upper c then to_lower c else c)"

text \<open>Two letters outside ASCII fold to \<open>s\<close> and \<open>k\<close>: U+017F and U+212A.\<close>

fun fold_key :: "string \<Rightarrow> string" where
  "fold_key (c # d # cs) =
     (if c = CHR 0xC5 \<and> d = CHR 0xBF then CHR ''s'' # fold_key cs
      else if c = CHR 0xE2 \<and> d = CHR 0x84 \<and> cs \<noteq> [] \<and> hd cs = CHR 0xAA then CHR ''k'' # fold_key (tl cs)
      else fold_char c # fold_key (d # cs))"
| "fold_key [c] = [fold_char c]"
| "fold_key [] = []"

fun fill_fields :: "(string \<Rightarrow> (json \<Rightarrow> 'c \<Rightarrow> 'c option) option) \<Rightarrow> (string \<times> json) list \<Rightarrow> 'c \<Rightarrow> 'c option" where
  "fill_fields setter [] c = Some c"
| "fill_fields setter ((k, v) # kvs) c =
     (case setter (fold_key k) of
        None \<Rightarrow> fill_fields setter kvs c
      | Some f \<Rightarrow> (case f v c of None \<Rightarrow> None | Some c' \<Rightarrow> fill_fields setter kvs c'))"

fun set_string :: "(string \<Rightarrow> 'c \<Rightarrow> 'c) \<Rightarrow> json \<Rightarrow> 'c \<Rightarrow> 'c option" where
  "set_string upd (JStr s) c = Some (upd s c)"
| "set_string upd JNull c = Some c"
| "set_string upd _ c = None"

fun set_int :: "(int \<Rightarrow> 'c \<Rightarrow> 'c) \<Rightarrow> json \<Rightarrow> 'c \<Rightarrow> 'c option" where
  "set_int upd (JNum n) c = map_option (\<lambda>i. upd i c) (Atoi n)"
| "set_int upd JNull c = Some c"
| "set_int upd _ c = None"

fun set_float :: "(string \<Rightarrow> 'f option) \<Rightarrow> ('f \<Rightarrow> 'c \<Rightarrow> 'c) \<Rightarrow> json \<Rightarrow> 'c \<Rightarrow> 'c option" where
  "set_float pf upd (JNum n) c = map_option (\<lambda>x. upd x c) (pf n)"
| "set_float pf upd JNull c = Some c"
| "set_float pf upd _ c = None"

fun fill_map :: "(string \<times> json) list \<Rightarrow> (string, string) gomap \<Rightarrow> (string, string) gomap option" where
  "fill_map [] m = Some m"
| "fill_map ((k, JStr s) # kvs) m = fill_map kvs (AList.update k s m)"
| "fill_map ((k, JNull) # kvs) m = fill_map kvs (AList.update k [] m)"
| "fill_map ((k, _) # kvs) m = None"

definition Unmarshal ::
  "('f, 'l, 'r) libs \<Rightarrow> (string \<Rightarrow> (json \<Rightarrow> 'c \<Rightarrow> 'c option) option) \<Rightarrow> bytes option \<Rightarrow> 'c \<Rightarrow> go_error + 'c" where
  "Unmarshal L setter inp c =
     (case js_parse L (case inp of None \<Rightarrow> [] | Some b \<Rightarrow> b) of
        None \<Rightarrow> Inl (OtherError ''json syntax'')
      | Some JNull \<Rightarrow> Inr c
      | Some (JObj kvs) \<Rightarrow>
          (case fill_fields setter kvs c of None \<Rightarrow> Inl (OtherError ''json type'') | Some c' \<Rightarrow> Inr c')
      | Some _ \<Rightarrow> Inl (OtherError ''json type''))"

subsection \<open>Configurations\<close>

record FaultInjectionConf =
  fiBody :: string
  fiHttpStatus :: int
  fiPercentage :: int

record ('f, 'l) LimitReqConf =
  lrBurst :: int
  lrRate :: 'f
  lrLimiter :: "'l option"

record RequestBodyRewriteConfig =
  rbNewBody :: string

record 'r RegexFilter =
  rfRegex :: string
  rfScope :: string
  rfReplace :: string
  rfCompiled :: "'r option"

record 'r ResponseRewriteConf =
  rcStatus :: int
  rcHeaders :: "(string, string) gomap"
  rcBody :: string
  rcFilters :: "'r RegexFilter list"

record SayConf =
  sayBody :: string

datatype ('f, 'l, 'r) demo_conf =
    FaultC FaultInjectionConf
  | LimitC "('f, 'l) LimitReqConf"
  | BodyC RequestBodyRewriteConfig
  | RespC "'r ResponseRewriteConf"
  | SayC SayConf

subsection \<open>pkg/plugin\<close>

record 'c plugin =
  plName :: string
  plParseConf :: "bytes option \<Rightarrow> (go_error + 'c) rt"
  plRequestFilter :: "'c \<Rightarrow> req_call prog"
  plResponseFilter :: "'c \<Rightarrow> resp_call prog"

definition pkg_RegisterPlugin :: "'c plugin \<Rightarrow> 'c registry \<Rightarrow> go_error option \<times> 'c registry" where
  "pkg_RegisterPlugin p reg =
     RegisterPlugin (plName p) (Some (plParseConf p)) (Some (plRequestFilter p)) (Some (plResponseFilter p)) reg"

definition Default_RequestFilter :: "'c \<Rightarrow> req_call prog" where
  "Default_RequestFilter conf = Done"

definition Default_ResponseFilter :: "'c \<Rightarrow> resp_call prog" where
  "Default_ResponseFilter conf = Done"

text \<open>The \<open>init\<close> functions register in turn; a failure ends the process (\<open>None\<close>).\<close>

fun run_inits :: "'c plugin list \<Rightarrow> 'c registry \<Rightarrow> 'c registry option" where
  "run_inits [] reg = Some reg"
| "run_inits (p # ps) reg =
     (case pkg_RegisterPlugin p reg of (None, reg') \<Rightarrow> run_inits ps reg' | (Some err, reg') \<Rightarrow> None)"

subsection \<open>say\<close>

definition Say_ParseConf :: "('f, 'l, 'r) libs \<Rightarrow> bytes option \<Rightarrow> (go_error + ('f, 'l, 'r) demo_conf) rt" where
  "Say_ParseConf L inp =
     (case Unmarshal L (\<lambda>k. if k = ''body'' then Some (set_string (\<lambda>s c. c\<lparr>sayBody := s\<rparr>)) else None) inp
         \<lparr>sayBody = []\<rparr> of
        Inl err \<Rightarrow> Val (Inl err)
      | Inr conf \<Rightarrow> Val (Inr (SayC conf)))"

definition Say_RequestFilter :: "('f, 'l, 'r) demo_conf \<Rightarrow> req_call prog" where
  "Say_RequestFilter conf =
     (case conf of
        SayC c \<Rightarrow>
          (let body = sayBody c
           in if length body = 0 then Done
              else Call (CallWHeaderAdd ''X-Resp-A6-Runner'' ''Go'') (\<lambda>_. Call (CallWrite (go_bytes body)) (\<lambda>_. Done)))
      | _ \<Rightarrow> Crash)"

subsection \<open>fault-injection\<close>

definition fault_setter :: "string \<Rightarrow> (json \<Rightarrow> FaultInjectionConf \<Rightarrow> FaultInjectionConf option) option" where
  "fault_setter k =
     (if k = ''body'' then Some (set_string (\<lambda>s c. c\<lparr>fiBody := s\<rparr>))
      else if k = ''http_status'' then Some (set_int (\<lambda>i c. c\<lparr>fiHttpStatus := i\<rparr>))
      else if k = ''percentage'' then Some (set_int (\<lambda>i c. c\<lparr>fiPercentage := i\<rparr>))
      else None)"

definition FaultInjection_ParseConf ::
  "('f, 'l, 'r) libs \<Rightarrow> bytes option \<Rightarrow> (go_error + ('f, 'l, 'r) demo_conf) rt" where
  "FaultInjection_ParseConf L inp =
     (case Unmarshal L fault_setter inp \<lparr>fiBody = [], fiHttpStatus = 0, fiPercentage = -1\<rparr> of
        Inl err \<Rightarrow> Val (Inl err)
      | Inr conf \<Rightarrow>
          (if fiHttpStatus conf < 200 then Val (Inl (OtherError ''bad http_status''))
           else if fiPercentage conf = -1 then Val (Inr (FaultC (conf\<lparr>fiPercentage := 100\<rparr>)))
           else if fiPercentage conf < 0 \<or> fiPercentage conf > 100 then Val (Inl (OtherError ''bad percentage''))
           else Val (Inr (FaultC conf))))"

text \<open>\<open>draw\<close> is the value of \<open>rand.Intn(100)\<close>.\<close>

definition sampleHit :: "int \<Rightarrow> int \<Rightarrow> bool" where
  "sampleHit draw percentage \<longleftrightarrow> draw < percentage"

definition FaultInjection_RequestFilter :: "int \<Rightarrow> ('f, 'l, 'r) demo_conf \<Rightarrow> req_call prog" where
  "FaultInjection_RequestFilter draw conf =
     (case conf of
        FaultC fc \<Rightarrow>
          (if \<not> sampleHit draw (fiPercentage fc) then Done
           else Call (CallWriteHeader (fiHttpStatus fc)) (\<lambda>_.
             (let body = fiBody fc
              in if length body = 0 then Done else Call (CallWrite (go_bytes body)) (\<lambda>_. Done))))
      | _ \<Rightarrow> Crash)"

subsection \<open>limit-req\<close>

definition LimitReq_ParseConf ::
  "('f, 'l, 'r) libs \<Rightarrow> bytes option \<Rightarrow> (go_error + ('f, 'l, 'r) demo_conf) rt" where
  "LimitReq_ParseConf L inp =
     (case Unmarshal L (\<lambda>k. if k = ''burst'' then Some (set_int (\<lambda>i c. c\<lparr>lrBurst := i\<rparr>))
           else if k = ''rate'' then Some (set_float (ParseFloat L) (\<lambda>x c. c\<lparr>lrRate := x\<rparr>)) else None) inp
         \<lparr>lrBurst = 0, lrRate = zeroFloat L, lrLimiter = None\<rparr> of
        Inl err \<Rightarrow> Val (Inl err)
      | Inr conf \<Rightarrow> Val (Inr (LimitC (conf\<lparr>lrLimiter := Some (NewLimiter L (lrRate conf) (lrBurst conf))\<rparr>))))"

text \<open>\<open>reserve\<close> is what \<open>Reserve().OK()\<close> says of the limiter at this call; on a nil limiter it panics.\<close>

definition LimitReq_RequestFilter :: "('l \<Rightarrow> bool) \<Rightarrow> ('f, 'l, 'r) demo_conf \<Rightarrow> req_call prog" where
  "LimitReq_RequestFilter reserve conf =
     (case conf of
        LimitC c \<Rightarrow>
          (case lrLimiter c of
             None \<Rightarrow> Crash
           | Some li \<Rightarrow> (if \<not> reserve li then Call (CallWriteHeader 503) (\<lambda>_. Done) else Done))
      | _ \<Rightarrow> Crash)"

subsection \<open>request-body-rewrite\<close>

definition RequestBodyRewrite_ParseConf ::
  "('f, 'l, 'r) libs \<Rightarrow> bytes option \<Rightarrow> (go_error + ('f, 'l, 'r) demo_conf) rt" where
  "RequestBodyRewrite_ParseConf L inp =
     (case Unmarshal L (\<lambda>k. if k = ''new_body'' then Some (set_string (\<lambda>s c. c\<lparr>rbNewBody := s\<rparr>)) else None) inp
         \<lparr>rbNewBody = []\<rparr> of
        Inl err \<Rightarrow> Val (Inl err)
      | Inr conf \<Rightarrow> Val (Inr (BodyC conf)))"

definition RequestBodyRewrite_RequestFilter :: "('f, 'l, 'r) demo_conf \<Rightarrow> req_call prog" where
  "RequestBodyRewrite_RequestFilter conf =
     (case conf of
        BodyC c \<Rightarrow>
          (let newBody = rbNewBody c
           in if newBody = [] then Done else Call (CallSetBody (Some (go_bytes newBody))) (\<lambda>_. Done))
      | _ \<Rightarrow> Crash)"

end
