(* ===== verification/Response_Rewrite.thy ===== *)
theory Response_Rewrite
  imports Demo_Plugins
begin

section \<open>The response-rewrite plugin (cmd/go-runner/plugins/response\_rewrite.go)\<close>

text \<open>
  The largest of the example plugins: it sets a status and headers, and writes a body or the
  upstream's body with the matches of regular expressions replaced.  The functions of \<open>bytes\<close>
  and \<open>utf8\<close> it needs are defined here; compiling and matching regular expressions are
  parameters (\<open>libs\<close>).
\<close>

subsection \<open>bytes.Index, bytes.Count, bytes.Replace\<close>

fun bytes_Index :: "bytes \<Rightarrow> bytes \<Rightarrow> nat option" where
  "bytes_Index [] sep = (if sep = [] then Some 0 else None)"
| "bytes_Index (b # s) sep =
     (if take (length sep) (b # s) = sep then Some 0 else map_option Suc (bytes_Index s sep))"

definition is_cont :: "byte \<Rightarrow> byte \<Rightarrow> bytes \<Rightarrow> bool" where
  "is_cont lo hi s \<longleftrightarrow> s \<noteq> [] \<and> lo \<le> hd s \<and> hd s \<le> hi"

text \<open>The width of the first rune (\<open>utf8.DecodeRune\<close>): 1 for an invalid encoding.\<close>

definition rune_width :: "bytes \<Rightarrow> nat" where
  "rune_width s =
     (case s of
        [] \<Rightarrow> 0
      | b # t \<Rightarrow>
          (let c1 = is_cont 0x80 0xBF t; c2 = is_cont 0x80 0xBF (drop 1 t); c3 = is_cont 0x80 0xBF (drop 2 t)
           in if b < 0xC2 then 1
              else if b \<le> 0xDF then (if c1 then 2 else 1)
              else if b = 0xE0 then (if is_cont 0xA0 0xBF t \<and> c2 then 3 else 1)
              else if b = 0xED then (if is_cont 0x80 0x9F t \<and> c2 then 3 else 1)
              else if b \<le> 0xEF then (if c1 \<and> c2 then 3 else 1)
              else if b = 0xF0 then (if is_cont 0x90 0xBF t \<and> c2 \<and> c3 then 4 else 1)
              else if b = 0xF4 then (if is_cont 0x80 0x8F t \<and> c2 \<and> c3 then 4 else 1)
              else if b \<le> 0xF3 then (if c1 \<and> c2 \<and> c3 then 4 else 1)
              else 1))"

lemma rune_width_pos: "s \<noteq> [] \<Longrightarrow> 0 < rune_width s"
  by (cases s) (auto simp: rune_width_def Let_def)

function rune_count :: "bytes \<Rightarrow> nat" where
  "rune_count s = (if s = [] then 0 else Suc (rune_count (drop (rune_width s) s)))"
  by pat_completeness auto
termination
  by (relation "measure length") (auto simp: rune_width_pos)

function count_nonempty :: "bytes \<Rightarrow> bytes \<Rightarrow> nat" where
  "count_nonempty s sep =
     (case bytes_Index s sep of
        None \<Rightarrow> 0
      | Some j \<Rightarrow> (if sep = [] \<or> s = [] then 0 else Suc (count_nonempty (drop (j + length sep) s) sep)))"
  by pat_completeness auto
termination
  by (relation "measure (\<lambda>(s, sep). length s)") auto

declare rune_count.simps [simp del] count_nonempty.simps [simp del]

definition bytes_Count :: "bytes \<Rightarrow> bytes \<Rightarrow> nat" where
  "bytes_Count s sep = (if sep = [] then rune_count s + 1 else count_nonempty s sep)"

text \<open>The loop of \<open>bytes.Replace\<close>: \<open>s\<close> is what follows \<open>start\<close>.\<close>

fun replace_loop :: "nat \<Rightarrow> bool \<Rightarrow> bytes \<Rightarrow> bytes \<Rightarrow> bytes \<Rightarrow> bytes" where
  "replace_loop 0 first old new s = s"
| "replace_loop (Suc n) first old new s =
     (let j = (if old = [] then (if first then 0 else rune_width s)
               else (case bytes_Index s old of None \<Rightarrow> 0 | Some j \<Rightarrow> j))
      in take j s @ new @ replace_loop n False old new (drop (j + length old) s))"

text \<open>A negative \<open>n\<close> (\<open>None\<close>) replaces all instances.\<close>

definition bytes_Replace :: "bytes \<Rightarrow> bytes \<Rightarrow> bytes \<Rightarrow> nat option \<Rightarrow> bytes" where
  "bytes_Replace s old new n =
     (let m = (if n \<noteq> Some 0 then bytes_Count s old else 0)
      in if m = 0 then s
         else (let k = (case n of None \<Rightarrow> m | Some n \<Rightarrow> if m < n then m else n)
               in replace_loop k True old new s))"

definition bytes_ReplaceAll :: "bytes \<Rightarrow> bytes \<Rightarrow> bytes \<Rightarrow> bytes" where
  "bytes_ReplaceAll s old new = bytes_Replace s old new None"

subsection \<open>ParseConf\<close>

definition regex_setter :: "string \<Rightarrow> (json \<Rightarrow> 'r RegexFilter \<Rightarrow> 'r RegexFilter option) option" where
  "regex_setter k =
     (if k = ''regex'' then Some (set_string (\<lambda>s c. c\<lparr>rfRegex := s\<rparr>))
      else if k = ''scope'' then Some (set_string (\<lambda>s c. c\<lparr>rfScope := s\<rparr>))
      else if k = ''replace'' then Some (set_string (\<lambda>s c. c\<lparr>rfReplace := s\<rparr>))
      else None)"

text \<open>The elements of a JSON array are decoded over those the slice holds already.\<close>

fun fill_filters :: "'r RegexFilter list \<Rightarrow> json list \<Rightarrow> 'r RegexFilter list option" where
  "fill_filters olds [] = Some []"
| "fill_filters olds (j # js) =
     (let elem = (case olds of [] \<Rightarrow> \<lparr>rfRegex = [], rfScope = [], rfReplace = [], rfCompiled = None\<rparr> | f # _ \<Rightarrow> f)
      in case (case j of JObj kvs \<Rightarrow> fill_fields regex_setter kvs elem | JNull \<Rightarrow> Some elem | _ \<Rightarrow> None) of
           None \<Rightarrow> None
         | Some f \<Rightarrow> map_option (\<lambda>fs. f # fs) (fill_filters (tl olds) js))"

text \<open>A \<open>filters\<close> key sets the list, a \<open>headers\<close> key adds to the map.\<close>

fun set_filters :: "json \<Rightarrow> 'r ResponseRewriteConf \<Rightarrow> 'r ResponseRewriteConf option" where
  "set_filters (JList js) c = map_option (\<lambda>fs. c\<lparr>rcFilters := fs\<rparr>) (fill_filters (rcFilters c) js)"
| "set_filters JNull c = Some (c\<lparr>rcFilters := []\<rparr>)"
| "set_filters _ c = None"

fun set_headers :: "json \<Rightarrow> 'r ResponseRewriteConf \<Rightarrow> 'r ResponseRewriteConf option" where
  "set_headers (JObj kvs) c = map_option (\<lambda>m. c\<lparr>rcHeaders := m\<rparr>) (fill_map kvs (rcHeaders c))"
| "set_headers JNull c = Some (c\<lparr>rcHeaders := []\<rparr>)"
| "set_headers _ c = None"

definition rewrite_setter :: "string \<Rightarrow> (json \<Rightarrow> 'r ResponseRewriteConf \<Rightarrow> 'r ResponseRewriteConf option) option" where
  "rewrite_setter k =
     (if k = ''status'' then Some (set_int (\<lambda>i c. c\<lparr>rcStatus := i\<rparr>))
      else if k = ''headers'' then Some set_headers
      else if k = ''body'' then Some (set_string (\<lambda>s c. c\<lparr>rcBody := s\<rparr>))
      else if k = ''filters'' then Some set_filters
      else None)"

fun compile_filters :: "('f, 'l, 'r) libs \<Rightarrow> 'r RegexFilter list \<Rightarrow> go_error + 'r RegexFilter list" where
  "compile_filters L [] = Inr []"
| "compile_filters L (f # fs) =
     (case regexp_Compile L (rfRegex f) of
        Inl err \<Rightarrow> Inl (OtherError (''failed to compile regex '' @ rfRegex f))
      | Inr r \<Rightarrow> (case compile_filters L fs of Inl e \<Rightarrow> Inl e | Inr gs \<Rightarrow> Inr (f\<lparr>rfCompiled := Some r\<rparr> # gs)))"

definition ResponseRewrite_ParseConf ::
  "('f, 'l, 'r) libs \<Rightarrow> bytes option \<Rightarrow> (go_error + ('f, 'l, 'r) demo_conf) rt" where
  "ResponseRewrite_ParseConf L inp =
     (case Unmarshal L rewrite_setter inp \<lparr>rcStatus = 0, rcHeaders = [], rcBody = [], rcFilters = []\<rparr> of
        Inl err \<Rightarrow> Val (Inl err)
      | Inr conf \<Rightarrow>
          (case compile_filters L (rcFilters conf) of
             Inl err \<Rightarrow> Val (Inl err)
           | Inr fs \<Rightarrow> Val (Inr (RespC (conf\<lparr>rcFilters := fs\<rparr>)))))"

subsection \<open>ResponseFilter\<close>

text \<open>One filter applied to the body: the body after it and whether it matched.  Matching a nil
  regular expression panics; in a nil body (\<open>None\<close>) \<open>Find\<close> returns nil, a match or not.\<close>

definition apply_filter :: "('f, 'l, 'r) libs \<Rightarrow> 'r RegexFilter \<Rightarrow> bytes option \<Rightarrow> (bytes option \<times> bool) rt" where
  "apply_filter L f ob =
     (case rfCompiled f of
        None \<Rightarrow> Panic
      | Some r \<Rightarrow>
          (case ob of
             None \<Rightarrow> Val (ob, False)
           | Some b \<Rightarrow>
               (case regexp_Find L r b of
                  None \<Rightarrow> Val (ob, False)
                | Some found \<Rightarrow>
                    Val (if rfScope f = ''once'' then Some (bytes_Replace b found (go_bytes (rfReplace f)) (Some 1))
                         else if rfScope f = ''global'' then Some (bytes_ReplaceAll b found (go_bytes (rfReplace f)))
                         else ob, True))))"

fun apply_filters :: "('f, 'l, 'r) libs \<Rightarrow> 'r RegexFilter list \<Rightarrow> bytes option \<Rightarrow> bool \<Rightarrow> (bytes option \<times> bool) rt" where
  "apply_filters L [] ob matched = Val (ob, matched)"
| "apply_filters L (f # fs) ob matched =
     (case apply_filter L f ob of
        Panic \<Rightarrow> Panic
      | Val (b, m) \<Rightarrow> apply_filters L fs b (matched \<or> m))"

fun call_sets :: "(string, string) gomap \<Rightarrow> string list \<Rightarrow> resp_call prog \<Rightarrow> resp_call prog" where
  "call_sets m [] k = k"
| "call_sets m (n # ns) k =
     Call (RCallHeaderSet n (case map_of m n of None \<Rightarrow> [] | Some v \<Rightarrow> v)) (\<lambda>_. call_sets m ns k)"

definition write_body :: "bytes \<Rightarrow> resp_call prog" where
  "write_body body = Call (RCallWrite body) (\<lambda>_. Done)"

text \<open>What follows the headers.\<close>

definition rewrite_body :: "('f, 'l, 'r) libs \<Rightarrow> 'r ResponseRewriteConf \<Rightarrow> resp_call prog" where
  "rewrite_body L cfg =
     (if 0 < length (rcFilters cfg) then
        Call RCallReadBody (\<lambda>ret.
          (case ret of
             RResult (Inr b) \<Rightarrow>
               (case apply_filters L (rcFilters cfg) b False of
                  Panic \<Rightarrow> Crash
                | Val (ob, matched) \<Rightarrow>
                    (if matched then write_body (case ob of None \<Rightarrow> [] | Some b \<Rightarrow> b) else Done))
           | _ \<Rightarrow> Done))
      else if length (rcBody cfg) = 0 then Done
      else write_body (go_bytes (rcBody cfg)))"

definition ResponseRewrite_ResponseFilter ::
  "('f, 'l, 'r) libs \<Rightarrow> range_orders \<Rightarrow> ('f, 'l, 'r) demo_conf \<Rightarrow> resp_call prog" where
  "ResponseRewrite_ResponseFilter L ro conf =
     (case conf of
        RespC cfg \<Rightarrow>
          (let headers = Call (RCallHeaderSet ''X-Resp-A6-Runner'' ''Go'') (\<lambda>_.
                 call_sets (rcHeaders cfg) (ro RConfHeaders (keys (rcHeaders cfg))) (rewrite_body L cfg))
           in if 0 < rcStatus cfg then Call (RCallWriteHeader 200) (\<lambda>_. headers) else headers)
      | _ \<Rightarrow> Crash)"

subsection \<open>The shipped plugins\<close>

definition FaultInjection_plugin :: "('f, 'l, 'r) libs \<Rightarrow> int \<Rightarrow> ('f, 'l, 'r) demo_conf plugin" where
  "FaultInjection_plugin L draw = \<lparr>plName = ''fault-injection'', plParseConf = FaultInjection_ParseConf L,
     plRequestFilter = FaultInjection_RequestFilter draw, plResponseFilter = Default_ResponseFilter\<rparr>"

definition LimitReq_plugin :: "('f, 'l, 'r) libs \<Rightarrow> ('l \<Rightarrow> bool) \<Rightarrow> ('f, 'l, 'r) demo_conf plugin" where
  "LimitReq_plugin L reserve = \<lparr>plName = ''limit-req'', plParseConf = LimitReq_ParseConf L,
     plRequestFilter = LimitReq_RequestFilter reserve, plResponseFilter = Default_ResponseFilter\<rparr>"

definition RequestBodyRewrite_plugin :: "('f, 'l, 'r) libs \<Rightarrow> ('f, 'l, 'r) demo_conf plugin" where
  "RequestBodyRewrite_plugin L = \<lparr>plName = ''request-body-rewrite'', plParseConf = RequestBodyRewrite_ParseConf L,
     plRequestFilter = RequestBodyRewrite_RequestFilter, plResponseFilter = Default_ResponseFilter\<rparr>"

definition ResponseRewrite_plugin :: "('f, 'l, 'r) libs \<Rightarrow> range_orders \<Rightarrow> ('f, 'l, 'r) demo_conf plugin" where
  "ResponseRewrite_plugin L ro = \<lparr>plName = ''response-rewrite'', plParseConf = ResponseRewrite_ParseConf L,
     plRequestFilter = Default_RequestFilter, plResponseFilter = ResponseRewrite_ResponseFilter L ro\<rparr>"

definition Say_plugin :: "('f, 'l, 'r) libs \<Rightarrow> ('f, 'l, 'r) demo_conf plugin" where
  "Say_plugin L = \<lparr>plName = ''say'', plParseConf = Say_ParseConf L,
     plRequestFilter = Say_RequestFilter, plResponseFilter = Default_ResponseFilter\<rparr>"

lemmas plugin_defs = FaultInjection_plugin_def LimitReq_plugin_def RequestBodyRewrite_plugin_def
  ResponseRewrite_plugin_def Say_plugin_def

text \<open>Go runs the \<open>init\<close> functions of a package file by file, in the order of the names.\<close>

definition demo_plugins :: "('f, 'l, 'r) libs \<Rightarrow> range_orders \<Rightarrow> int \<Rightarrow> ('l \<Rightarrow> bool) \<Rightarrow>
    ('f, 'l, 'r) demo_conf plugin list" where
  "demo_plugins L ro draw reserve =
     [FaultInjection_plugin L draw, LimitReq_plugin L reserve, RequestBodyRewrite_plugin L,
      ResponseRewrite_plugin L ro, Say_plugin L]"

text \<open>Each \<open>init\<close> registers its plugin; a failure is fatal: the process ends (\<open>Inl\<close>) with the message, of which the error is the
  last part.\<close>

definition FaultInjection_init :: "('f, 'l, 'r) libs \<Rightarrow> int \<Rightarrow> ('f, 'l, 'r) demo_conf registry \<Rightarrow>
    (string \<times> go_error) + ('f, 'l, 'r) demo_conf registry" where
  "FaultInjection_init L draw reg =
     (case pkg_RegisterPlugin (FaultInjection_plugin L draw) reg of
        (Some err, reg') \<Rightarrow> Inl (''failed to register plugin fault-injection: '', err)
      | (None, reg') \<Rightarrow> Inr reg')"

definition LimitReq_init :: "('f, 'l, 'r) libs \<Rightarrow> ('l \<Rightarrow> bool) \<Rightarrow> ('f, 'l, 'r) demo_conf registry \<Rightarrow>
    (string \<times> go_error) + ('f, 'l, 'r) demo_conf registry" where
  "LimitReq_init L reserve reg =
     (case pkg_RegisterPlugin (LimitReq_plugin L reserve) reg of
        (Some err, reg') \<Rightarrow> Inl (''failed to register plugin limit-req: '', err)
      | (None, reg') \<Rightarrow> Inr reg')"

definition RequestBodyRewrite_init :: "('f, 'l, 'r) libs \<Rightarrow> ('f, 'l, 'r) demo_conf registry \<Rightarrow>
    (string \<times> go_error) + ('f, 'l, 'r) demo_conf registry" where
  "RequestBodyRewrite_init L reg =
     (case pkg_RegisterPlugin (RequestBodyRewrite_plugin L) reg of
        (Some err, reg') \<Rightarrow> Inl (''failed to register plugin request-body-rewrite: '', err)
      | (None, reg') \<Rightarrow> Inr reg')"

definition ResponseRewrite_init :: "('f, 'l, 'r) libs \<Rightarrow> range_orders \<Rightarrow> ('f, 'l, 'r) demo_conf registry \<Rightarrow>
    (string \<times> go_error) + ('f, 'l, 'r) demo_conf registry" where
  "ResponseRewrite_init L ro reg =
     (case pkg_RegisterPlugin (ResponseRewrite_plugin L ro) reg of
        (Some err, reg') \<Rightarrow> Inl (''failed to register plugin response-rewrite: '', err)
      | (None, reg') \<Rightarrow> Inr reg')"

definition Say_init :: "('f, 'l, 'r) libs \<Rightarrow> ('f, 'l, 'r) demo_conf registry \<Rightarrow>
    (string \<times> go_error) + ('f, 'l, 'r) demo_conf registry" where
  "Say_init L reg =
     (case pkg_RegisterPlugin (Say_plugin L) reg of
        (Some err, reg') \<Rightarrow> Inl (''failed to register plugin say: '', err)
      | (None, reg') \<Rightarrow> Inr reg')"

fun run_fatal :: "('s \<Rightarrow> 'e + 's) list \<Rightarrow> 's \<Rightarrow> 'e + 's" where
  "run_fatal [] s = Inr s"
| "run_fatal (f # fs) s = (case f s of Inl e \<Rightarrow> Inl e | Inr s' \<Rightarrow> run_fatal fs s')"

definition demo_inits :: "('f, 'l, 'r) libs \<Rightarrow> range_orders \<Rightarrow> int \<Rightarrow> ('l \<Rightarrow> bool) \<Rightarrow> ('f, 'l, 'r) demo_conf registry \<Rightarrow>
    (string \<times> go_error) + ('f, 'l, 'r) demo_conf registry" where
  "demo_inits L ro draw reserve =
     run_fatal [FaultInjection_init L draw, LimitReq_init L reserve, RequestBodyRewrite_init L, ResponseRewrite_init L ro, Say_init L]"

lemma demo_inits_run:
  "run_inits (demo_plugins L ro draw reserve) reg =
    (case demo_inits L ro draw reserve reg of Inl e \<Rightarrow> None | Inr reg' \<Rightarrow> Some reg')"
  by (simp add: demo_plugins_def demo_inits_def FaultInjection_init_def LimitReq_init_def RequestBodyRewrite_init_def
      ResponseRewrite_init_def Say_init_def split: prod.split option.split)

text \<open>A program that has registered one of these names beforehand does not start: the \<open>init\<close> of the plugin with this name
  ends it.\<close>

lemma demo_inits_taken:
  assumes "name \<in> {''fault-injection'', ''limit-req'', ''request-body-rewrite'', ''response-rewrite'', ''say''}"
  shows "demo_inits L ro draw reserve [(name, opts)] =
    Inl (''failed to register plugin '' @ name @ '': '', ErrPluginRegistered name)"
  using assms
  by (elim insertE emptyE)
    (simp_all add: demo_inits_def FaultInjection_init_def LimitReq_init_def RequestBodyRewrite_init_def
      ResponseRewrite_init_def Say_init_def plugin_defs pkg_RegisterPlugin_def RegisterPlugin_def Let_def)

end
