(* ===== verification/Demo_Behaviour.thy ===== *)
theory Demo_Behaviour
  imports Response_Rewrite
begin

section \<open>What the shipped plugins do\<close>

text \<open>
  The properties of the plugins of \<open>Demo_Plugins\<close> and \<open>Response_Rewrite\<close>, stated over the
  interface they run on: the state of the writer, request or response after the filter, and the
  message the runner makes of it.
\<close>

lemmas req_run_defs = run_req_def on_r_def on_w_def upd_wHeader_def upd_header_def ReqResponse_defs

lemmas resp_run_defs = run_resp_def on_resp_def resp_upd_header_def Response_Write_def
  Response_WriteHeader_def

lemma canon_X_Resp: "CanonicalHeaderKey ''X-Resp-A6-Runner'' = ''X-Resp-A6-Runner''"
  by (simp add: CanonicalHeaderKey_def validHeaderFieldByte_def is_lower_def is_upper_def to_upper_def to_lower_def Let_def)

subsection \<open>Sample values\<close>

text \<open>A parser that knows a few texts; a regular expression is the byte it matches.\<close>

definition sample_libs :: "(nat, nat, byte) libs" where
  "sample_libs = \<lparr>
     js_parse = (\<lambda>b. if b = [1] then Some (JObj [(''HTTP_status'', JNum ''503''), (''body'', JStr ''no'')])
                     else if b = [2] then Some (JObj [(''status'', JNum ''404''), (''body'', JStr ''hi'')])
                     else if b = [3] then Some (JObj [(''filters'', JList [JObj [(''regex'', JStr ''a''),
                       (''scope'', JStr ''global''), (''replace'', JStr ''c'')]])])
                     else None),
     ParseFloat = (\<lambda>s. map_option nat (Atoi s)), zeroFloat = 0, NewLimiter = (\<lambda>r b. r),
     regexp_Compile = (\<lambda>s. if s = [] then Inl (OtherError []) else Inr (hd (go_bytes s))),
     regexp_Find = (\<lambda>r b. if r \<in> set b then Some [r] else None)\<rparr>"

subsection \<open>bytes.Replace\<close>

lemma bytes_Index_le: "bytes_Index s old = Some j \<Longrightarrow> j + length old \<le> length s"
proof (induction s old arbitrary: j rule: bytes_Index.induct)
  case (2 b s old)
  show ?case
  proof (cases "take (length old) (b # s) = old")
    case True
    then have "length old \<le> length (b # s)" by (metis length_take min.cobounded1)
    with 2 True show ?thesis by simp
  next
    case False
    with 2 show ?thesis by auto
  qed
qed (simp split: if_splits)

text \<open>The reference: cutting at the first occurrences, one after the other; an empty text is found
  before the first and after every character.\<close>

function after_runes :: "bytes \<Rightarrow> bytes \<Rightarrow> bytes" where
  "after_runes new s =
     (if s = [] then [] else take (rune_width s) s @ new @ after_runes new (drop (rune_width s) s))"
  by pat_completeness auto
termination
  by (relation "measure (\<lambda>(new, s). length s)") (auto simp: rune_width_pos)

declare after_runes.simps [simp del]

function replace_all :: "bytes \<Rightarrow> bytes \<Rightarrow> bytes \<Rightarrow> bytes" where
  "replace_all old new s =
     (if old = [] then new @ after_runes new s
      else case bytes_Index s old of
        None \<Rightarrow> s
      | Some j \<Rightarrow> take j s @ new @ replace_all old new (drop (j + length old) s))"
  by pat_completeness auto
termination
proof (relation "measure (\<lambda>(old, new, s). length s)")
  fix old new s j
  assume "old \<noteq> []" and "bytes_Index s old = Some j"
  with bytes_Index_le [of s old j]
  show "((old, new, drop (j + length old) s), old, new, s) \<in> measure (\<lambda>(old, new, s). length s)"
    by (cases old) auto
qed simp

declare replace_all.simps [simp del]

lemma bytes_Index_Nil: "old \<noteq> [] \<Longrightarrow> bytes_Index [] old = None"
  by simp

lemma replace_loop_all:
  "old \<noteq> [] \<Longrightarrow> replace_loop (count_nonempty s old) first old new s = replace_all old new s"
proof (induction s old arbitrary: first rule: count_nonempty.induct)
  case (1 s old)
  show ?case
  proof (cases "bytes_Index s old")
    case None
    then show ?thesis using 1(2) by (simp add: count_nonempty.simps [of s] replace_all.simps [of _ _ s])
  next
    case (Some j)
    then have s: "s \<noteq> []" using 1(2) by auto
    show ?thesis using 1(1) [OF Some] 1(2) Some s
      by (simp add: count_nonempty.simps [of s] replace_all.simps [of _ _ s])
  qed
qed

lemma count_pos: "old \<noteq> [] \<Longrightarrow> bytes_Index s old = Some j \<Longrightarrow> 0 < count_nonempty s old"
  by (cases "s = []") (auto simp: count_nonempty.simps [of s])

lemma replace_all_none: "count_nonempty s old = 0 \<Longrightarrow> old \<noteq> [] \<Longrightarrow> replace_all old new s = s"
  using replace_loop_all [of old s True new] by simp

lemma replace_loop_runes: "replace_loop (rune_count s) False [] new s = after_runes new s"
proof (induction s rule: rune_count.induct)
  case (1 s)
  then show ?case 
    using rune_count.simps [of s] after_runes.simps [of new s] by (cases "s = []") (simp_all add: Let_def)
qed

lemma bytes_ReplaceAll_eq: "bytes_ReplaceAll s old new = replace_all old new s"
proof (cases "old = []")
  case True
  then show ?thesis
    by (simp add: bytes_ReplaceAll_def bytes_Replace_def Let_def bytes_Count_def replace_loop_runes
        replace_all.simps [of "[]"])
next
  case False
  then show ?thesis
    by (simp add: bytes_ReplaceAll_def bytes_Replace_def Let_def bytes_Count_def replace_all_none replace_loop_all)
qed

lemma bytes_Replace_once:
  assumes "bytes_Index s old = Some j"
  shows "bytes_Replace s old new (Some 1) = take j s @ new @ drop (j + length old) s"
proof (cases "old = []")
  case True
  then have "j = 0" using assms by (cases s) auto
  with True show ?thesis by (simp add: bytes_Replace_def Let_def bytes_Count_def)
next
  case False
  from count_pos [OF this assms] obtain k where "count_nonempty s old = Suc k" by (cases "count_nonempty s old") auto
  with False assms show ?thesis by (simp add: bytes_Replace_def Let_def bytes_Count_def)
qed

subsection \<open>Registration\<close>

text \<open>The shipped plugins register.  Whatever the libraries are, the five \<open>init\<close> functions
  succeed on an empty registry, and afterwards each plugin is found under its name with its
  own functions, and nothing else is found.\<close>

lemma demo_plugins_register:
  "\<exists>reg. run_inits (demo_plugins L ro draw reserve) [] = Some reg \<and>
    (\<forall>p \<in> set (demo_plugins L ro draw reserve). findPlugin reg (plName p) =
       Some \<lparr>ParseConf = plParseConf p, RequestFilter = plRequestFilter p, ResponseFilter = plResponseFilter p\<rparr>) \<and>
    (\<forall>name. findPlugin reg name \<noteq> None \<longleftrightarrow>
       name \<in> {''fault-injection'', ''limit-req'', ''request-body-rewrite'', ''response-rewrite'', ''say''})"
  by (simp add: demo_plugins_def plugin_defs pkg_RegisterPlugin_def RegisterPlugin_def findPlugin_def Let_def)

lemma demo_plugins_register_sample:
  "\<exists>reg. run_inits (demo_plugins sample_libs (\<lambda>_. rev) 0 (\<lambda>_. True)) [] = Some reg \<and>
    findPlugin reg ''say'' = Some \<lparr>ParseConf = Say_ParseConf sample_libs, RequestFilter = Say_RequestFilter,
      ResponseFilter = Default_ResponseFilter\<rparr> \<and> findPlugin reg ''echo'' = None"
proof (rule exE [OF demo_plugins_register [of sample_libs "\<lambda>_. rev" 0 "\<lambda>_. True"]], elim conjE)
  fix reg
  let ?ps = "demo_plugins sample_libs (\<lambda>_. rev) 0 (\<lambda>_. True)"
  let ?p = "\<lparr>plName = ''say'', plParseConf = Say_ParseConf sample_libs, plRequestFilter = Say_RequestFilter,
    plResponseFilter = Default_ResponseFilter\<rparr>"
  assume reg: "run_inits ?ps [] = Some reg"
    and found: "\<forall>p \<in> set ?ps. findPlugin reg (plName p) =
       Some \<lparr>ParseConf = plParseConf p, RequestFilter = plRequestFilter p, ResponseFilter = plResponseFilter p\<rparr>"
    and names: "\<forall>name. findPlugin reg name \<noteq> None \<longleftrightarrow>
       name \<in> {''fault-injection'', ''limit-req'', ''request-body-rewrite'', ''response-rewrite'', ''say''}"
  have "?p \<in> set ?ps" by (simp add: demo_plugins_def plugin_defs)
  from bspec [OF found this] reg spec [OF names, of "''echo''"] show ?thesis by simp
qed

subsection \<open>say\<close>

text \<open>The say plugin.  A configuration without a body leaves everything alone; otherwise the
  filter, run on a fresh writer, makes the runner stop the request with status 200, the header
  \<open>X-Resp-A6-Runner: Go\<close> and the configured body.\<close>

lemma Say_effect:
  assumes "range_ok (ro RStopHdr)"
  shows "\<exists>w. run_req cd ro (Say_RequestFilter (SayC c)) (newReqResponse, r, s) = (Val (), w, r, s) \<and>
    ReqResponse_FetchChanges ro rid w bd =
      (if sayBody c = [] then (False, bd)
       else (True, Finish (MsgHTTPReqResp rid (Some (ActionStop \<lparr>stStatus = 200,
         stHeaders = Some [(''X-Resp-A6-Runner'', Some ''Go'')], stBody = Some (go_bytes (sayBody c))\<rparr>))) bd))"
proof (cases "sayBody c = []")
  case True
  then show ?thesis
    by (simp add: Say_RequestFilter_def req_run_defs ReqResponse_FetchChanges_def)
next
  case False
  have "mset (ro RStopHdr [''X-Resp-A6-Runner'']) = {#''X-Resp-A6-Runner''#}"
    using assms by (simp add: range_ok_def)
  then have "ro RStopHdr [''X-Resp-A6-Runner''] = [''X-Resp-A6-Runner'']" by simp
  with False show ?thesis
    by (simp add: Say_RequestFilter_def req_run_defs http_Add_def canon_X_Resp buffer_Write_def
        ReqResponse_FetchChanges_def Let_def keys_def build_vector_def)
qed

lemma Say_effect_sample:
  "\<exists>w. run_req sample_codec (\<lambda>_. rev) (Say_RequestFilter (SayC \<lparr>sayBody = ''hi''\<rparr>))
      (newReqResponse, newRequest, rnIo sample_runner) = (Val (), w, newRequest, rnIo sample_runner) \<and>
    fst (ReqResponse_FetchChanges (\<lambda>_. rev) 3 w NewBuilder)"
  using Say_effect [of "\<lambda>_. rev" sample_codec "\<lparr>sayBody = ''hi''\<rparr>" newRequest "rnIo sample_runner" 3 NewBuilder]
  by auto

subsection \<open>fault-injection\<close>

text \<open>C38: the fault injection.  A configuration that \<open>ParseConf\<close> accepts has a status of at least
  200 and a percentage between 0 and 100.  For a draw below 100 the filter, run on a fresh
  writer, stops the request exactly when the draw is below the percentage, with the configured
  status (in 16 bits) and body; so 0 never injects and 100 always does.\<close>

theorem FaultInjection_effect:
  assumes "FaultInjection_ParseConf L inp = Val (Inr conf)" "0 \<le> draw" "draw < 100"
  shows "\<exists>fc w. conf = FaultC fc \<and> 200 \<le> fiHttpStatus fc \<and> 0 \<le> fiPercentage fc \<and> fiPercentage fc \<le> 100 \<and>
    run_req cd ro (FaultInjection_RequestFilter draw conf) (newReqResponse, r, s) = (Val (), w, r, s) \<and>
    ReqResponse_FetchChanges ro rid w bd =
      (if draw < fiPercentage fc then
         (True, Finish (MsgHTTPReqResp rid (Some (ActionStop \<lparr>stStatus = word_of_int (fiHttpStatus fc),
           stHeaders = None, stBody = (if fiBody fc = [] then None else Some (go_bytes (fiBody fc)))\<rparr>))) bd)
       else (False, bd)) \<and>
    (fiPercentage fc = 0 \<longrightarrow> w = newReqResponse) \<and> (fiPercentage fc = 100 \<longrightarrow> ReqResponse_HasChange w)"
proof -
  from assms(1) obtain fc where fc: "conf = FaultC fc" "200 \<le> fiHttpStatus fc" "0 \<le> fiPercentage fc"
    "fiPercentage fc \<le> 100"
    by (auto simp: FaultInjection_ParseConf_def split: sum.splits if_splits)
  then show ?thesis using assms(2,3)
    by (auto simp: FaultInjection_RequestFilter_def sampleHit_def req_run_defs buffer_Write_def Let_def
        ReqResponse_FetchChanges_def)
qed

theorem FaultInjection_effect_witness:
  "\<exists>w. run_req sample_codec (\<lambda>_. rev) (FaultInjection_RequestFilter 99
        (FaultC \<lparr>fiBody = ''no'', fiHttpStatus = 503, fiPercentage = 100\<rparr> :: (nat, nat, byte) demo_conf))
      (newReqResponse, newRequest, rnIo sample_runner) = (Val (), w, newRequest, rnIo sample_runner) \<and>
    ReqResponse_HasChange w"
proof -
  have "FaultInjection_ParseConf sample_libs (Some [1]) =
      Val (Inr (FaultC \<lparr>fiBody = ''no'', fiHttpStatus = 503, fiPercentage = 100\<rparr>))"
    by (simp add: FaultInjection_ParseConf_def Unmarshal_def sample_libs_def fault_setter_def fold_char_def to_lower_def
        is_upper_def Atoi_def decimal_value_def is_digit_def char_of_eq_iff)
  from FaultInjection_effect [OF this, of 99 sample_codec "\<lambda>_. rev" newRequest "rnIo sample_runner" 3 NewBuilder]
  show ?thesis by auto
qed

subsection \<open>limit-req\<close>

text \<open>The rate limit.  Every accepted configuration carries the limiter made from its rate and
  burst, so the filter never panics, and it answers 503 exactly when the limiter refuses.\<close>

lemma LimitReq_effect:
  assumes "LimitReq_ParseConf L inp = Val (Inr conf)"
  shows "\<exists>c li w. conf = LimitC c \<and> lrLimiter c = Some li \<and> li = NewLimiter L (lrRate c) (lrBurst c) \<and>
    run_req cd ro (LimitReq_RequestFilter reserve conf) (newReqResponse, r, s) = (Val (), w, r, s) \<and>
    ReqResponse_FetchChanges ro rid w bd =
      (if reserve li then (False, bd)
       else (True, Finish (MsgHTTPReqResp rid (Some (ActionStop
         \<lparr>stStatus = 503, stHeaders = None, stBody = None\<rparr>))) bd))"
proof -
  from assms obtain c where c: "conf = LimitC c" "lrLimiter c = Some (NewLimiter L (lrRate c) (lrBurst c))"
    by (auto simp: LimitReq_ParseConf_def split: sum.splits)
  then show ?thesis
    by (simp add: LimitReq_RequestFilter_def req_run_defs ReqResponse_FetchChanges_def Let_def)
qed

lemma LimitReq_effect_witness:
  "\<exists>w. run_req sample_codec (\<lambda>_. rev) (LimitReq_RequestFilter (\<lambda>_. False)
        (LimitC \<lparr>lrBurst = 0, lrRate = 0, lrLimiter = Some 0\<rparr> :: (nat, nat, byte) demo_conf))
      (newReqResponse, newRequest, rnIo sample_runner) = (Val (), w, newRequest, rnIo sample_runner) \<and>
    fst (ReqResponse_FetchChanges (\<lambda>_. rev) 3 w NewBuilder)"
proof -
  have "LimitReq_ParseConf sample_libs (Some [1]) =
      Val (Inr (LimitC \<lparr>lrBurst = 0, lrRate = 0, lrLimiter = Some 0\<rparr>))"
    by (simp add: LimitReq_ParseConf_def Unmarshal_def sample_libs_def fold_char_def to_lower_def is_upper_def)
  from LimitReq_effect [OF this, of sample_codec "\<lambda>_. rev" "\<lambda>_. False" newRequest "rnIo sample_runner" 3 NewBuilder]
  show ?thesis by auto
qed

subsection \<open>request-body-rewrite\<close>

text \<open>The body rewrite.  For an empty new body the request stays as it is and no action is
  sent; otherwise the action is a rewrite of the body and of nothing else.\<close>

lemma RequestBodyRewrite_effect:
  "\<exists>r'. run_req cd ro (RequestBodyRewrite_RequestFilter (BodyC c)) (newReqResponse, fresh_request q n, s) =
      (Val (), newReqResponse, r', s) \<and>
    Request_FetchChanges ro rid r' bd =
      (if rbNewBody c = [] then Val (False, bd)
       else Val (True, Finish (MsgHTTPReqResp rid (Some (ActionRewrite \<lparr>rwPath = None,
         rwBody = Some (go_bytes (rbNewBody c)), rwHeaders = None, rwRespHeaders = None, rwArgs = None\<rparr>))) bd))"
  by (simp add: RequestBodyRewrite_RequestFilter_def req_run_defs Request_SetBody_def fresh_request_def
      newRequest_def Request_FetchChanges_def Request_hasChanges_def Let_def)

subsection \<open>response-rewrite\<close>

lemma run_resp_Call:
  "run_resp cd (Call c k) st = (case exec_resp cd c st of
     (Panic, st') \<Rightarrow> (Panic, st') | (Val v, st') \<Rightarrow> run_resp cd (k v) st')"
  by (simp add: run_resp_def split: prod.split rt.split)

text \<open>The headers a list of names sets.\<close>

definition set_all :: "(string, string) gomap \<Rightarrow> string list \<Rightarrow> Header \<Rightarrow> Header" where
  "set_all m ns h = fold (\<lambda>n. Header_Set n (case map_of m n of None \<Rightarrow> [] | Some v \<Rightarrow> v)) ns h"

lemma run_call_sets:
  "respHeader r = Some h \<Longrightarrow>
    run_resp cd (call_sets m ns k) (r, s) = run_resp cd k (r\<lparr>respHeader := Some (set_all m ns h)\<rparr>, s)"
proof (induction ns arbitrary: r h)
  case Nil
  then have "r\<lparr>respHeader := Some h\<rparr> = r" by simp
  then show ?case by (simp add: set_all_def)
next
  case (Cons n ns)
  then show ?case
    by (simp add: run_resp_Call on_resp_def resp_upd_header_def Response_Header_def set_all_def
        del: fun_upd_apply)
qed

text \<open>C37: headers, status and body of the response rewrite.  Without filters the plugin leaves, on a
  fresh response, its mark and the configured headers on the received ones and the configured
  body, and does not touch the connection; a configured status is not what is sent: any positive one
  becomes 200.\<close>

theorem ResponseRewrite_plain:
  assumes "rcFilters cfg = []"
  shows "\<exists>r'. run_resp cd (ResponseRewrite_ResponseFilter L ro (RespC cfg)) (fresh_response q, s) = (Val (), r', s) \<and>
    statusCode r' = (if 0 < rcStatus cfg then 200 else 0) \<and>
    respBody r' = (if rcBody cfg = [] then None else Some (go_bytes (rcBody cfg))) \<and>
    respHeader r' = Some (set_all (rcHeaders cfg) (ro RConfHeaders (keys (rcHeaders cfg)))
      (Header_Set ''X-Resp-A6-Runner'' ''Go'' (newHeader (hpHeaders q))))"
proof -
  let ?h = "Header_Set ''X-Resp-A6-Runner'' ''Go'' (newHeader (hpHeaders q))"
  let ?h' = "set_all (rcHeaders cfg) (ro RConfHeaders (keys (rcHeaders cfg))) ?h"
  define r0 where "r0 = (fresh_response q)\<lparr>statusCode := (if 0 < rcStatus cfg then 200 else 0)\<rparr>"
  have body: "run_resp cd (rewrite_body L cfg) (r0\<lparr>respHeader := Some ?h'\<rparr>, s) =
      (Val (), (r0\<lparr>respHeader := Some ?h'\<rparr>)\<lparr>respBody :=
        (if rcBody cfg = [] then None else Some (go_bytes (rcBody cfg)))\<rparr>, s)"
    using assms by (simp add: rewrite_body_def write_body_def resp_run_defs buffer_Write_def r0_def
        fresh_response_def newResponse_def)
  have start: "run_resp cd (ResponseRewrite_ResponseFilter L ro (RespC cfg)) (fresh_response q, s) =
      run_resp cd (call_sets (rcHeaders cfg) (ro RConfHeaders (keys (rcHeaders cfg))) (rewrite_body L cfg))
        (r0\<lparr>respHeader := Some ?h\<rparr>, s)"
    by (simp add: ResponseRewrite_ResponseFilter_def resp_run_defs r0_def fresh_response_def newResponse_def
        Response_Header_def with_resp_def Let_def)
  show ?thesis
    by (simp add: start run_call_sets [where h = ?h] body) (simp add: r0_def)
qed

theorem ResponseRewrite_plain_witness:
  "\<exists>r'. run_resp sample_codec (ResponseRewrite_ResponseFilter sample_libs (\<lambda>_. rev)
      (RespC \<lparr>rcStatus = 404, rcHeaders = [(''A'', ''b'')], rcBody = [], rcFilters = []\<rparr>))
      (fresh_response sample_hresp, rnIo sample_runner) = (Val (), r', rnIo sample_runner) \<and> statusCode r' = 200"
  using ResponseRewrite_plain [of "\<lparr>rcStatus = 404, rcHeaders = [(''A'', ''b'')], rcBody = [], rcFilters = []\<rparr>"
      sample_codec sample_libs "\<lambda>_. rev" sample_hresp "rnIo sample_runner"] by auto

text \<open>What one filter is meant to make of a body: a match is replaced at its first occurrence, or at
  every occurrence of the matched text.\<close>

definition rewrite_one :: "('f, 'l, 'r) libs \<Rightarrow> 'r RegexFilter \<Rightarrow> bytes \<Rightarrow> bytes" where
  "rewrite_one L f b =
     (case Option.bind (rfCompiled f) (\<lambda>re. regexp_Find L re b) of
        None \<Rightarrow> b
      | Some old \<Rightarrow>
          (let new = go_bytes (rfReplace f)
           in if rfScope f = ''once'' then
                (case bytes_Index b old of None \<Rightarrow> b | Some j \<Rightarrow> take j b @ new @ drop (j + length old) b)
              else if rfScope f = ''global'' then replace_all old new b
              else b))"

fun any_match :: "('f, 'l, 'r) libs \<Rightarrow> 'r RegexFilter list \<Rightarrow> bytes \<Rightarrow> bool" where
  "any_match L [] b \<longleftrightarrow> False"
| "any_match L (f # fs) b \<longleftrightarrow>
     Option.bind (rfCompiled f) (\<lambda>re. regexp_Find L re b) \<noteq> None \<or> any_match L fs (rewrite_one L f b)"

text \<open>The text a regular expression finds occurs in the input.\<close>

definition find_sound :: "('f, 'l, 'r) libs \<Rightarrow> bool" where
  "find_sound L \<longleftrightarrow> (\<forall>re b old. regexp_Find L re b = Some old \<longrightarrow> bytes_Index b old \<noteq> None)"

lemma compile_filters_compiled:
  "compile_filters L fs = Inr gs \<Longrightarrow> length gs = length fs \<and> (\<forall>g \<in> set gs. rfCompiled g \<noteq> None)"
  by (induction fs arbitrary: gs) (auto split: sum.splits)

lemma apply_filter_one:
  assumes "find_sound L" "rfCompiled f \<noteq> None"
  shows "apply_filter L f (Some b) = Val (Some (rewrite_one L f b), any_match L [f] b)"
proof (cases "Option.bind (rfCompiled f) (\<lambda>re. regexp_Find L re b)")
  case None
  with assms(2) show ?thesis by (auto simp: apply_filter_def rewrite_one_def)
next
  case (Some old)
  then obtain re where re: "rfCompiled f = Some re" "regexp_Find L re b = Some old" by (auto simp: bind_eq_Some_conv)
  with assms(1) obtain j where "bytes_Index b old = Some j" unfolding find_sound_def by blast
  with re show ?thesis
    by (simp add: apply_filter_def rewrite_one_def bytes_Replace_once [of b old j, simplified] bytes_ReplaceAll_eq
        Let_def)
qed

lemma apply_filters_fold:
  "find_sound L \<Longrightarrow> \<forall>f \<in> set fs. rfCompiled f \<noteq> None \<Longrightarrow>
    apply_filters L fs (Some b) m = Val (Some (fold (rewrite_one L) fs b), m \<or> any_match L fs b)"
  by (induction fs arbitrary: b m) (simp_all add: apply_filter_one del: bind_eq_None_conv)

lemma apply_filters_nil:
  "\<forall>f \<in> set fs. rfCompiled f \<noteq> None \<Longrightarrow> apply_filters L fs None m = Val (None, m)"
  by (induction fs arbitrary: m) (auto simp: apply_filter_def)

text \<open>C36: the filters of the response rewrite.  For an accepted configuration with filters, and a
  body that could be read, the plugin does not panic: it applies the filters in order, each to
  the result of the one before, and writes the result exactly when one of them matched.  A
  filter replaces the first, or every, occurrence of the text its expression matches first.\<close>

theorem ResponseRewrite_filters:
  assumes "ResponseRewrite_ParseConf L inp = Val (Inr (RespC cfg))" "rcFilters cfg \<noteq> []" "find_sound L"
    and "Response_ReadBody cd r s = (Val (Inr b), r', s')"
  shows "run_resp cd (rewrite_body L cfg) (r, s) = (Val (),
    (case b of
       None \<Rightarrow> r'
     | Some body \<Rightarrow>
         if any_match L (rcFilters cfg) body
         then snd (Response_Write (fold (rewrite_one L) (rcFilters cfg) body) r') else r'), s')"
proof -
  from assms(1) have c: "\<forall>f \<in> set (rcFilters cfg). rfCompiled f \<noteq> None"
    using compile_filters_compiled by (fastforce simp: ResponseRewrite_ParseConf_def split: sum.splits)
  show ?thesis
    using apply_filters_fold [OF assms(3) c, of _ False] apply_filters_nil [OF c, of L False] assms(2,4)
    by (cases b) (simp_all add: rewrite_body_def write_body_def run_resp_Call on_resp_io_def on_resp_def Response_Write_def,
        simp_all add: run_resp_def)
qed

theorem ResponseRewrite_filters_witness:
  "\<exists>cfg r'. ResponseRewrite_ParseConf sample_libs (Some [3]) = Val (Inr (RespC cfg)) \<and>
    run_resp sample_codec (rewrite_body sample_libs cfg) ((fresh_response sample_hresp)\<lparr>originBody := Some [97, 98, 97]\<rparr>,
      rnIo sample_runner) = (Val (), r', rnIo sample_runner) \<and> respBody r' = Some [99, 98, 99]"
proof -
  let ?cfg = "\<lparr>rcStatus = 0, rcHeaders = [], rcBody = [], rcFilters =
    [\<lparr>rfRegex = ''a'', rfScope = ''global'', rfReplace = ''c'', rfCompiled = Some 97\<rparr>]\<rparr> :: byte ResponseRewriteConf"
  let ?r = "(fresh_response sample_hresp)\<lparr>originBody := Some [97, 98, 97]\<rparr>"
  have p: "ResponseRewrite_ParseConf sample_libs (Some [3]) = Val (Inr (RespC ?cfg))"
    by (simp add: ResponseRewrite_ParseConf_def Unmarshal_def sample_libs_def rewrite_setter_def regex_setter_def
        fold_char_def to_lower_def is_upper_def go_bytes_def)
  have "bytes_Index b [x] \<noteq> None" if "x \<in> set b" for x b
    using that by (induction b) auto
  then have f: "find_sound sample_libs" by (simp add: find_sound_def sample_libs_def)
  have r: "Response_ReadBody sample_codec ?r (rnIo sample_runner) = (Val (Inr (Some [97, 98, 97])), ?r, rnIo sample_runner)"
    by (simp add: Response_ReadBody_def)
  show ?thesis using p ResponseRewrite_filters [OF p _ f r]
    by (simp add: Response_Write_def rewrite_one_def replace_all.simps sample_libs_def go_bytes_def
        fresh_response_def newResponse_def buffer_Write_def)
qed

end
