(* ===== verification/Http_Recorder.thy ===== *)
theory Http_Recorder
  imports Plugin_Api
begin

section \<open>The response recorder for tests (pkg/httptest/recorder.go)\<close>

text \<open>
  \<open>ResponseRecorder\<close> implements the interface of response filters for unit tests of plugins.
  Its header is a plain \<open>http.Header\<close>; a nil \<open>HeaderMap\<close> is \<open>None\<close>.  \<open>exec_recorder\<close> runs a
  filter on it, as \<open>exec_resp\<close> runs one on the runner's response; the two are compared.
\<close>

record ResponseRecorder =
  recCode :: int
  HeaderMap :: "http_header option"
  recBody :: "bytes option"
  OriginBody :: "bytes option"
  recVars :: "(string, bytes option) gomap option"
  recStatus :: int
  recId :: u32

definition recorder_newHeader :: http_header where
  "recorder_newHeader = []"

definition NewRecorder :: ResponseRecorder where
  "NewRecorder = \<lparr>recCode = 0, HeaderMap = Some recorder_newHeader, recBody = Some [], OriginBody = None,
     recVars = None, recStatus = 0, recId = 0\<rparr>"

definition Recorder_ID :: "ResponseRecorder \<Rightarrow> u32" where
  "Recorder_ID rw = recId rw"

definition Recorder_StatusCode :: "ResponseRecorder \<Rightarrow> int" where
  "Recorder_StatusCode rw = (if recStatus rw = 0 then recCode rw else recStatus rw)"

text \<open>The local \<open>m\<close> keeps the old value.\<close>

definition Recorder_Header :: "ResponseRecorder \<Rightarrow> http_header option \<times> ResponseRecorder" where
  "Recorder_Header rw =
     (let m = HeaderMap rw
      in (m, if m = None then rw\<lparr>HeaderMap := Some recorder_newHeader\<rparr> else rw))"

definition Recorder_Write :: "bytes \<Rightarrow> ResponseRecorder \<Rightarrow> nat \<times> ResponseRecorder" where
  "Recorder_Write buf rw =
     (let rw' = (if recBody rw = None then rw\<lparr>recBody := Some []\<rparr> else rw)
      in (length buf, rw'\<lparr>recBody := Some (buffer_Write buf (recBody rw'))\<rparr>))"

definition Recorder_Var :: "string \<Rightarrow> ResponseRecorder \<Rightarrow> (go_error + bytes option) \<times> ResponseRecorder" where
  "Recorder_Var key rw =
     (let rw' = (if recVars rw = None then rw\<lparr>recVars := Some []\<rparr> else rw)
      in (Inr (case map_of (the (recVars rw')) key of None \<Rightarrow> None | Some v \<Rightarrow> v), rw'))"

definition Recorder_ReadBody :: "ResponseRecorder \<Rightarrow> (go_error + bytes option) \<times> ResponseRecorder" where
  "Recorder_ReadBody rw =
     (let rw' = (if OriginBody rw = None then rw\<lparr>OriginBody := Some []\<rparr> else rw)
      in (Inr (OriginBody rw'), rw'))"

definition Recorder_WriteHeader :: "int \<Rightarrow> ResponseRecorder \<Rightarrow> ResponseRecorder" where
  "Recorder_WriteHeader n rw = (if recStatus rw \<noteq> 0 then rw else rw\<lparr>recStatus := n\<rparr>)"

definition recorder_View :: "http_header \<Rightarrow> http_header" where
  "recorder_View h = h"

lemmas Recorder_defs = Recorder_ID_def Recorder_StatusCode_def Recorder_Header_def Recorder_Write_def
  Recorder_Var_def Recorder_ReadBody_def Recorder_WriteHeader_def NewRecorder_def recorder_newHeader_def

interpretation recorder_writer: status_writer Recorder_WriteHeader
  "\<lambda>b w. snd (Recorder_Write b w)" recStatus recBody
  by unfold_locales (auto simp: Recorder_defs Let_def buffer_Write_def)

subsection \<open>Filters on the recorder\<close>

text \<open>Calling a method on the nil header panics.\<close>

definition rec_header :: "(http_header \<Rightarrow> api_ret \<times> http_header) \<Rightarrow> ResponseRecorder \<Rightarrow> api_ret rt \<times> ResponseRecorder" where
  "rec_header f rw =
     (case Recorder_Header rw of
        (None, rw') \<Rightarrow> (Panic, rw')
      | (Some h, rw') \<Rightarrow> (case f h of (v, h') \<Rightarrow> (Val v, rw'\<lparr>HeaderMap := Some h'\<rparr>)))"

fun exec_recorder :: "resp_call \<Rightarrow> ResponseRecorder \<Rightarrow> api_ret rt \<times> ResponseRecorder" where
  "exec_recorder RCallID rw = (Val (RU32 (Recorder_ID rw)), rw)"
| "exec_recorder RCallStatusCode rw = (Val (RInt (Recorder_StatusCode rw)), rw)"
| "exec_recorder (RCallHeaderSet k v) rw = rec_header (\<lambda>h. (RUnit, http_Set k v h)) rw"
| "exec_recorder (RCallHeaderDel k) rw = rec_header (\<lambda>h. (RUnit, http_Del k h)) rw"
| "exec_recorder (RCallHeaderGet k) rw = rec_header (\<lambda>h. (RStr (http_Get k h), h)) rw"
| "exec_recorder RCallHeaderView rw = rec_header (\<lambda>h. (RValues (recorder_View h), h)) rw"
| "exec_recorder (RCallVar name) rw = (case Recorder_Var name rw of (v, rw') \<Rightarrow> (Val (RResult v), rw'))"
| "exec_recorder RCallReadBody rw = (case Recorder_ReadBody rw of (v, rw') \<Rightarrow> (Val (RResult v), rw'))"
| "exec_recorder (RCallWrite b) rw = (case Recorder_Write b rw of (n, rw') \<Rightarrow> (Val (RLen n), rw'))"
| "exec_recorder (RCallWriteHeader n) rw = (Val RUnit, Recorder_WriteHeader n rw)"

text \<open>One implementation of the calls simulates another.\<close>

locale api_simulation =
  fixes exec1 :: "'call \<Rightarrow> 's \<Rightarrow> api_ret rt \<times> 's" and exec2 :: "'call \<Rightarrow> 't \<Rightarrow> api_ret rt \<times> 't"
    and rel :: "'s \<Rightarrow> 't \<Rightarrow> bool" and allowed :: "'call \<Rightarrow> bool"
  assumes exec_sim: "rel s t \<Longrightarrow> allowed c \<Longrightarrow> exec1 c s = (res, s') \<Longrightarrow>
    \<exists>t'. exec2 c t = (res, t') \<and> rel s' t'"
begin

lemma run_sim:
  "rel s t \<Longrightarrow> calls_only allowed p \<Longrightarrow> run_prog exec1 p s = (res, s') \<Longrightarrow>
    \<exists>t'. run_prog exec2 p t = (res, t') \<and> rel s' t'"
proof (induction p arbitrary: s t)
  case (Call c k)
  obtain v s1 where e: "exec1 c s = (v, s1)" by (cases "exec1 c s") auto
  have "allowed c" using Call.prems(2) by simp
  from exec_sim [OF Call.prems(1) this e] obtain t1 where t1: "exec2 c t = (v, t1)" "rel s1 t1" by blast
  show ?case
  proof (cases v)
    case (Val x)
    have "run_prog exec1 (k x) s1 = (res, s')" "calls_only allowed (k x)" using Call.prems e Val by simp_all
    from Call.IH [OF rangeI t1(2) this(2,1)] show ?thesis using t1(1) Val by simp
  next
    case Panic
    with Call.prems(3) e t1 show ?thesis by auto
  qed
qed auto

end

subsection \<open>The recorder against the runner's response\<close>

text \<open>
  A recorder that stands for a response; the variables in \<open>V\<close>, and the body if \<open>B\<close>, have been received
  already.  The recorder keeps the received headers and those the filter sets in one map, the runner
  in two.  Without received headers the map is the runner's own part; with them the two agree on
  every \<open>Get\<close>.
\<close>

definition header_rel :: "text_entry option list \<Rightarrow> http_header option \<Rightarrow> Header option \<Rightarrow> bool" where
  "header_rel es m ho \<longleftrightarrow> (let h = (case ho of None \<Rightarrow> newHeader es | Some h \<Rightarrow> h) in
     \<exists>g. m = Some g \<and> (if es = [] then g = hdr h \<and> rawHdr h = []
       else hdr_nonempty h \<and> (\<forall>k. Header_Get k h = http_Get k g)))"

definition rec_rel :: "string set \<Rightarrow> bool \<Rightarrow> hresp \<Rightarrow> ResponseRecorder \<Rightarrow> resp_state \<Rightarrow> bool" where
  "rec_rel V B q rw st \<longleftrightarrow>
     resp_r (fst st) = Some q \<and> recId rw = 0 \<and> recCode rw = uint (hpStatus q) \<and>
     recStatus rw = statusCode (fst st) \<and>
     (case recBody rw of None \<Rightarrow> [] | Some b \<Rightarrow> b) = (case respBody (fst st) of None \<Rightarrow> [] | Some b \<Rightarrow> b) \<and>
     header_rel (hpHeaders q) (HeaderMap rw) (respHeader (fst st)) \<and>
     (\<forall>n \<in> V. \<exists>v m. respVars (fst st) = Some m \<and> map_of m n = Some v \<and>
        (\<exists>m'. recVars rw = Some m' \<and> map_of m' n = Some v)) \<and>
     (B \<longrightarrow> (\<exists>b bs. OriginBody rw = Some (b # bs) \<and> originBody (fst st) = Some (b # bs)))"

text \<open>
  The calls that the recorder answers as the runner does for \<open>q\<close>: variables and a body that are known; the id only
  if it is 0, since a test of a plugin cannot set the recorder's; and, if \<open>q\<close> has headers, no \<open>Set\<close> of an
  empty value, after which the runner falls back to the received one, and no \<open>View\<close>, which
  does not show received headers in the runner.
\<close>

fun rec_call :: "string set \<Rightarrow> bool \<Rightarrow> hresp \<Rightarrow> resp_call \<Rightarrow> bool" where
  "rec_call V B q (RCallVar name) \<longleftrightarrow> name \<in> V"
| "rec_call V B q RCallReadBody \<longleftrightarrow> B"
| "rec_call V B q RCallID \<longleftrightarrow> hpId q = 0"
| "rec_call V B q (RCallHeaderSet k v) \<longleftrightarrow> hpHeaders q = [] \<or> v \<noteq> []"
| "rec_call V B q RCallHeaderView \<longleftrightarrow> hpHeaders q = []"
| "rec_call V B q _ \<longleftrightarrow> True"

lemma header_rel_Some: "header_rel es (Some g) (Some h) \<longleftrightarrow> (if es = [] then g = hdr h \<and> rawHdr h = []
    else hdr_nonempty h \<and> (\<forall>k. Header_Get k h = http_Get k g))"
  by (simp add: header_rel_def)

lemma header_rel_get: "header_rel es (Some g) (Some h) \<Longrightarrow> Header_Get k h = http_Get k g"
  by (auto simp: header_rel_Some Header_Get_def http_Get_def Let_def split: if_splits)

lemma header_rel_Set:
  assumes "header_rel es (Some g) (Some h)" and "es = [] \<or> v \<noteq> []"
  shows "header_rel es (Some (http_Set k v g)) (Some (Header_Set k v h))"
proof (cases "es = []")
  case True
  with assms(1) show ?thesis by (simp add: header_rel_Some Header_Set_def)
next
  case False
  with assms show ?thesis
    by (simp add: header_rel_Some Header_Set_nonempty runner_header.get_set recorder_header.get_set)
qed

lemma header_rel_Del:
  assumes "header_rel es (Some g) (Some h)"
  shows "header_rel es (Some (http_Del k g)) (Some (Header_Del k h))"
proof (cases "es = []")
  case True
  with assms show ?thesis by (simp add: header_rel_Some Header_Del_def http_Get_def)
next
  case False
  with assms show ?thesis
    by (simp add: header_rel_Some Header_Del_nonempty runner_header.get_del recorder_header.get_del)
qed

lemma header_rel_received: "header_rel es (Some (add_entries es [])) None"
  by (simp add: header_rel_def hdr_nonempty_def newHeader_def Header_Get_def http_Get_def)

lemma rec_rel_header:
  assumes "rec_rel V B q rw st" "header_rel (hpHeaders q) m h"
  shows "rec_rel V B q (rw\<lparr>HeaderMap := m\<rparr>) ((fst st)\<lparr>respHeader := h\<rparr>, snd st)"
  using assms by (simp add: rec_rel_def)

text \<open>The header both sides see.\<close>

lemma rec_header_ask:
  assumes "rec_rel V B q rw (r, s)"
  obtains h g where "Response_Header r = Val (h, r\<lparr>respHeader := Some h\<rparr>)" "Recorder_Header rw = (Some g, rw)"
    "header_rel (hpHeaders q) (Some g) (Some h)"
proof -
  from assms obtain g where g: "HeaderMap rw = Some g" "header_rel (hpHeaders q) (Some g) (respHeader r)"
    by (auto simp: rec_rel_def header_rel_def Let_def)
  let ?h = "case respHeader r of None \<Rightarrow> newHeader (hpHeaders q) | Some h \<Rightarrow> h"
  have "Response_Header r = Val (?h, r\<lparr>respHeader := Some ?h\<rparr>)"
    using assms by (cases r; cases "respHeader r") (auto simp: rec_rel_def Response_Header_def with_resp_def)
  moreover have "Recorder_Header rw = (Some g, rw)" using g(1) by (simp add: Recorder_Header_def)
  moreover have "header_rel (hpHeaders q) (Some g) (Some ?h)" using g(2) by (simp add: header_rel_def)
  ultimately show thesis by (rule that)
qed

lemma rec_header_upd:
  assumes "rec_rel V B q rw (r, s)"
    and "\<And>g h. header_rel (hpHeaders q) (Some g) (Some h) \<Longrightarrow> header_rel (hpHeaders q) (Some (f g)) (Some (u h))"
  shows "\<exists>st'. on_resp (resp_upd_header u) (r, s) = (fst (rec_header (\<lambda>h. (RUnit, f h)) rw), st') \<and>
    rec_rel V B q (snd (rec_header (\<lambda>h. (RUnit, f h)) rw)) st'"
proof -
  from rec_header_ask [OF assms(1)] obtain h g where h: "Response_Header r = Val (h, r\<lparr>respHeader := Some h\<rparr>)"
    "Recorder_Header rw = (Some g, rw)" "header_rel (hpHeaders q) (Some g) (Some h)" by blast
  from rec_rel_header [OF assms(1) assms(2) [OF h(3)]] show ?thesis
    by (simp add: rec_header_def on_resp_def resp_upd_header_def h)
qed

lemma rec_header_get:
  assumes "rec_rel V B q rw (r, s)"
    and "\<And>g h. header_rel (hpHeaders q) (Some g) (Some h) \<Longrightarrow> u h = f g"
  shows "\<exists>st'. on_resp (resp_get_header u) (r, s) = (fst (rec_header (\<lambda>h. (f h, h)) rw), st') \<and>
    rec_rel V B q (snd (rec_header (\<lambda>h. (f h, h)) rw)) st'"
proof -
  from rec_header_ask [OF assms(1)] obtain h g where h: "Response_Header r = Val (h, r\<lparr>respHeader := Some h\<rparr>)"
    "Recorder_Header rw = (Some g, rw)" "header_rel (hpHeaders q) (Some g) (Some h)" by blast
  from rec_rel_header [OF assms(1) h(3)] assms(2) [OF h(3)] show ?thesis
    by (simp add: rec_header_def on_resp_def resp_get_header_def h)
qed

lemma exec_recorder_sim:
  assumes "rec_rel V B q rw st" "rec_call V B q c"
  shows "\<exists>st'. exec_resp cd c st = (fst (exec_recorder c rw), st') \<and> rec_rel V B q (snd (exec_recorder c rw)) st'"
proof -
  obtain r s where st: "st = (r, s)" by (cases st)
  note rel = assms(1) [unfolded st]
  let ?goal = "\<exists>st'. exec_resp cd c (r, s) = (fst (exec_recorder c rw), st') \<and>
    rec_rel V B q (snd (exec_recorder c rw)) st'"
  have ?goal
  proof (cases c)
    case RCallID
    with rel assms(2) show ?thesis
      by (simp add: on_resp_def Response_ID_def with_resp_def rec_rel_def Recorder_ID_def)
  next
    case RCallStatusCode
    with rel show ?thesis
      by (simp add: on_resp_def Response_StatusCode_def with_resp_def rec_rel_def Recorder_StatusCode_def)
  next
    case (RCallHeaderSet k v)
    with assms(2) have "hpHeaders q = [] \<or> v \<noteq> []" by simp
    from rec_header_upd [OF rel header_rel_Set [OF _ this]] RCallHeaderSet show ?thesis by simp
  next
    case (RCallHeaderDel k)
    with rec_header_upd [OF rel header_rel_Del] show ?thesis by simp
  next
    case (RCallHeaderGet k)
    with rec_header_get [OF rel, of "\<lambda>h. RStr (Header_Get k h)" "\<lambda>h. RStr (http_Get k h)"]
    show ?thesis by (simp add: header_rel_get)
  next
    case RCallHeaderView
    with assms(2) rec_header_get [OF rel, of "\<lambda>h. RValues (Header_View h)" "\<lambda>h. RValues (recorder_View h)"]
    show ?thesis by (simp add: header_rel_Some Header_View_def recorder_View_def)
  next
    case (RCallVar name)
    with assms(2) have "name \<in> V" by simp
    with rel obtain v m m' where m: "respVars r = Some m" "map_of m name = Some v" "recVars rw = Some m'"
      "map_of m' name = Some v" by (fastforce simp: rec_rel_def)
    then have same: "r\<lparr>respVars := Some m\<rparr> = r" by simp
    with rel RCallVar m
    show ?thesis
      by (simp add: on_resp_io_def Response_Var_def Recorder_Var_def same)
  next
    case RCallReadBody
    with assms(2) rel obtain b bs where "OriginBody rw = Some (b # bs)" "originBody r = Some (b # bs)"
      by (auto simp: rec_rel_def)
    with rel RCallReadBody
    show ?thesis
      by (simp add: on_resp_io_def Response_ReadBody_def Recorder_ReadBody_def)
  next
    case (RCallWrite b)
    with rel show ?thesis
      by (simp add: on_resp_def Response_Write_def Recorder_Write_def buffer_Write_def rec_rel_def Let_def split: option.splits)
  next
    case (RCallWriteHeader n)
    with rel show ?thesis
      by (simp add: on_resp_def Response_WriteHeader_def Recorder_WriteHeader_def rec_rel_def)
  qed
  then show ?thesis by (simp add: st)
qed

interpretation recorder_sim: api_simulation exec_recorder "exec_resp cd" "rec_rel V B q" "rec_call V B q" for cd V B q
proof
  fix s t c res s'
  assume "rec_rel V B q s t" "rec_call V B q c" "exec_recorder c s = (res, s')"
  with exec_recorder_sim [of V B q s t c cd] show "\<exists>t'. exec_resp cd c t = (res, t') \<and> rec_rel V B q s' t'" by simp
qed

subsection \<open>Properties of the recorder\<close>

text \<open>C39: a test with the recorder means something.  Take a response of APISIX whose variables \<open>m\<close>
  and body \<open>ob\<close> are known, and a new recorder whose exported fields are prepared with its status, received
  headers, variables and body.  Let a filter ask only for these variables, for the body only when it is not
  empty, and for the id only when this is 0; and, when the response has headers, let it neither set a header to
  the empty string nor look at \<open>View\<close>.  It gets the same results from both and ends, or crashes, the same
  way; afterwards the status, the text written, and the header under every key are the same, and
  without received headers the recorder's header map is the one of the runner.\<close>

theorem recorder_like_response:
  assumes "calls_only (rec_call (dom (map_of m)) (ob \<noteq> None \<and> ob \<noteq> Some []) q) p"
    and "run_prog exec_recorder p (NewRecorder\<lparr>recCode := uint (hpStatus q),
      HeaderMap := Some (add_entries (hpHeaders q) []), recVars := Some m, OriginBody := ob\<rparr>) = (res, rw')"
  shows "\<exists>r' s' h g. run_resp cd p (newResponse\<lparr>resp_r := Some q, respConn := True, respVars := Some m,
      originBody := ob\<rparr>, s) = (res, (r', s')) \<and>
    statusCode r' = recStatus rw' \<and> Response_StatusCode r' = Val (Recorder_StatusCode rw') \<and>
    (case respBody r' of None \<Rightarrow> [] | Some b \<Rightarrow> b) = (case recBody rw' of None \<Rightarrow> [] | Some b \<Rightarrow> b) \<and>
    Response_Header r' = Val (h, r'\<lparr>respHeader := Some h\<rparr>) \<and> HeaderMap rw' = Some g \<and>
    (\<forall>k. Header_Get k h = http_Get k g) \<and> (hpHeaders q = [] \<longrightarrow> g = hdr h)"
proof -
  let ?B = "ob \<noteq> None \<and> ob \<noteq> Some []"
  let ?rw = "NewRecorder\<lparr>recCode := uint (hpStatus q), HeaderMap := Some (add_entries (hpHeaders q) []),
    recVars := Some m, OriginBody := ob\<rparr>"
  let ?r = "newResponse\<lparr>resp_r := Some q, respConn := True, respVars := Some m, originBody := ob\<rparr>"
  have "?B \<longrightarrow> (\<exists>b bs. ob = Some (b # bs))" by (metis neq_Nil_conv option.exhaust)
  then have "rec_rel (dom (map_of m)) ?B q ?rw (?r, s)"
    by (auto simp: rec_rel_def NewRecorder_def newResponse_def header_rel_received)
  from recorder_sim.run_sim [OF this assms, of cd] obtain r' s' where
    t: "run_resp cd p (?r, s) = (res, (r', s'))" "rec_rel (dom (map_of m)) ?B q rw' (r', s')"
    unfolding run_resp_def by (metis surj_pair)
  from rec_header_ask [OF t(2)] obtain h g where h: "Response_Header r' = Val (h, r'\<lparr>respHeader := Some h\<rparr>)"
    "Recorder_Header rw' = (Some g, rw')" "header_rel (hpHeaders q) (Some g) (Some h)" by blast
  from h(2) have "HeaderMap rw' = Some g" by (simp add: Recorder_Header_def Let_def)
  moreover from t(2) have "Response_StatusCode r' = Val (Recorder_StatusCode rw')"
    by (simp add: rec_rel_def Response_StatusCode_def Recorder_StatusCode_def with_resp_def)
  moreover from h(3) have "hpHeaders q = [] \<longrightarrow> g = hdr h" by (simp add: header_rel_Some)
  ultimately show ?thesis using t h(1) header_rel_get [OF h(3)]
    by (intro exI [of _ r'] exI [of _ s'] exI [of _ h] exI [of _ g]) (simp add: rec_rel_def)
qed

theorem recorder_like_response_witness:
  "\<forall>cd s. \<exists>r' s' h g. run_resp cd (Call (RCallHeaderSet ''a'' ''b'') (\<lambda>_. Call (RCallVar ''v'') (\<lambda>_. Call (RCallWriteHeader 201)
       (\<lambda>_. Call (RCallWriteHeader 500) (\<lambda>_. Done)))))
     (newResponse\<lparr>resp_r := Some \<lparr>hpId = 9, hpConfToken = 1, hpStatus = 200,
         hpHeaders = [Some \<lparr>teName = Some (go_bytes ''k''), teValue = Some (go_bytes ''v'')\<rparr>]\<rparr>, respConn := True,
       respVars := Some [(''v'', Some [1])], originBody := None\<rparr>, s) = (Val (), (r', s')) \<and> statusCode r' = 201 \<and>
     Response_Header r' = Val (h, r'\<lparr>respHeader := Some h\<rparr>) \<and> (\<forall>k. Header_Get k h = http_Get k g)"
proof -
  let ?q = "\<lparr>hpId = 9, hpConfToken = 1, hpStatus = 200,
    hpHeaders = [Some \<lparr>teName = Some (go_bytes ''k''), teValue = Some (go_bytes ''v'')\<rparr>]\<rparr> :: hresp"
  let ?p = "Call (RCallHeaderSet ''a'' ''b'') (\<lambda>_. Call (RCallVar ''v'') (\<lambda>_. Call (RCallWriteHeader 201)
    (\<lambda>_. Call (RCallWriteHeader 500) (\<lambda>_. Done))))"
  obtain rw' where w: "run_prog exec_recorder ?p (NewRecorder\<lparr>recCode := uint (hpStatus ?q),
      HeaderMap := Some (add_entries (hpHeaders ?q) []),
      recVars := Some [(''v'', Some [1])], OriginBody := None\<rparr>) = (Val (), rw')" "recStatus rw' = 201"
    by (simp add: rec_header_def Recorder_defs Let_def)
  have c: "calls_only (rec_call (dom (map_of [(''v'', Some [1 :: byte])])) (None \<noteq> (None :: bytes option) \<and> None \<noteq> Some ([] :: bytes)) ?q) ?p"
    by simp
  from recorder_like_response [OF c w(1)] w(2) show ?thesis by (intro allI) fastforce
qed

text \<open>A recorder made without \<open>NewRecorder\<close>.  With a nil header map the first use of
  the header panics, because \<open>Header\<close> returns the old nil value although it stores a new
  header; only the next call gets it.\<close>

lemma recorder_nil_header:
  assumes "HeaderMap rw = None"
  shows "run_prog exec_recorder (Call (RCallHeaderSet k v) f) rw = (Panic, rw\<lparr>HeaderMap := Some []\<rparr>) \<and>
    fst (Recorder_Header (snd (Recorder_Header rw))) = Some []"
  using assms by (simp add: rec_header_def Recorder_Header_def recorder_newHeader_def Let_def)

lemma recorder_nil_header_witness:
  "run_prog exec_recorder (Call (RCallHeaderSet ''a'' ''b'') (\<lambda>_. Done)) (NewRecorder\<lparr>HeaderMap := None\<rparr>) =
    (Panic, NewRecorder\<lparr>HeaderMap := Some []\<rparr>)"
  using recorder_nil_header [of "NewRecorder\<lparr>HeaderMap := None\<rparr>" "''a''" "''b''" "\<lambda>_. Done"] by simp

end
