(* ===== verification/Header_Interface.thy ===== *)
theory Header_Interface
  imports Http_Recorder
begin

section \<open>The interface of headers (pkg/http/http.go)\<close>

text \<open>
  Plugins see headers through the interface \<open>pkgHTTP.Header\<close>.  The runner's \<open>Header\<close> implements it behind
  the accessors \<open>Header()\<close> of the request and of the response, and the recorder implements it by an
  \<open>http.Header\<close>.  \<open>header_call\<close> are the methods of the interface; the calls on headers in
  \<open>req_call\<close> and \<open>resp_call\<close> are these methods on the object the accessor returns
  (\<open>header_behind_request\<close>, \<open>header_behind_response\<close>, \<open>header_behind_recorder\<close>).

  What the comments of the interface promise is the contract \<open>header_object\<close> of \<open>Http_Header\<close>.  Both
  implementations keep it; the runner's own only while no empty value is set, since its \<open>Get\<close>
  falls back to the received header.
\<close>

datatype header_call = HdrSet string string | HdrDel string | HdrGet string | HdrView

fun exec_header :: "header_call \<Rightarrow> Header \<Rightarrow> api_ret \<times> Header" where
  "exec_header (HdrSet k v) h = (RUnit, Header_Set k v h)"
| "exec_header (HdrDel k) h = (RUnit, Header_Del k h)"
| "exec_header (HdrGet k) h = (RStr (Header_Get k h), h)"
| "exec_header HdrView h = (RValues (Header_View h), h)"

fun exec_rec_header :: "header_call \<Rightarrow> http_header \<Rightarrow> api_ret \<times> http_header" where
  "exec_rec_header (HdrSet k v) h = (RUnit, http_Set k v h)"
| "exec_rec_header (HdrDel k) h = (RUnit, http_Del k h)"
| "exec_rec_header (HdrGet k) h = (RStr (http_Get k h), h)"
| "exec_rec_header HdrView h = (RValues (recorder_View h), h)"

fun req_header :: "header_call \<Rightarrow> req_call" where
  "req_header (HdrSet k v) = CallHeaderSet k v"
| "req_header (HdrDel k) = CallHeaderDel k"
| "req_header (HdrGet k) = CallHeaderGet k"
| "req_header HdrView = CallHeaderView"

fun resp_header :: "header_call \<Rightarrow> resp_call" where
  "resp_header (HdrSet k v) = RCallHeaderSet k v"
| "resp_header (HdrDel k) = RCallHeaderDel k"
| "resp_header (HdrGet k) = RCallHeaderGet k"
| "resp_header HdrView = RCallHeaderView"

subsection \<open>One interface behind three accessors\<close>

lemma Request_Header_holds: "Request_Header r = Val (h, r') \<Longrightarrow> r'\<lparr>reqHdr := Some h\<rparr> = r'"
  by (cases r; cases r') (auto simp: Request_Header_def split: option.splits rt.splits)

lemma Response_Header_holds: "Response_Header r = Val (h, r') \<Longrightarrow> r'\<lparr>respHeader := Some h\<rparr> = r'"
  by (cases r; cases r') (auto simp: Response_Header_def split: option.splits rt.splits)

lemma header_behind_request:
  "exec_req cd ro (req_header c) = on_r (\<lambda>r. case Request_Header r of Panic \<Rightarrow> (Panic, r)
     | Val (h, r') \<Rightarrow> (case exec_header c h of (v, h') \<Rightarrow> (Val v, r'\<lparr>reqHdr := Some h'\<rparr>)))"
  by (cases c; rule ext)
    (auto simp: on_r_def upd_header_def get_header_of_def dest: Request_Header_holds split: prod.split rt.split)

lemma header_behind_response:
  "exec_resp cd (resp_header c) = on_resp (\<lambda>r. case Response_Header r of Panic \<Rightarrow> (Panic, r)
     | Val (h, r') \<Rightarrow> (case exec_header c h of (v, h') \<Rightarrow> (Val v, r'\<lparr>respHeader := Some h'\<rparr>)))"
  by (cases c; rule ext)
    (auto simp: on_resp_def resp_upd_header_def resp_get_header_def dest: Response_Header_holds split: prod.split rt.split)

lemma header_behind_recorder: "exec_recorder (resp_header c) = rec_header (exec_rec_header c)"
  by (cases c; rule ext) (simp_all add: rec_header_def split: prod.split option.split)

subsection \<open>Tests see what the runner shows\<close>

text \<open>A plugin test on the recorder sees the headers the runner would show: after the same calls of \<open>Set\<close>, with
  non-empty values, and \<open>Del\<close>, \<open>Get\<close> agrees under every key under which it agreed before.\<close>

lemma recorder_header_agrees:
  assumes "hdr_nonempty h" "sets_nonempty ops" "Header_Get k h = http_Get k g"
  shows "Header_Get k (Header_run ops h) = http_Get k (recorder_header.run_ops ops g)"
  using both_headers.gets_agree [OF assms(1) TrueI assms(2,3)] by (simp only: Header_run_ops)

end
