(* ===== verification/Command.thy ===== *)
theory Command
  imports Startup
begin

section \<open>The command (cmd/go-runner/main.go)\<close>

text \<open>
  The \<open>run\<close> and \<open>version\<close> commands.  Parsing the command line is cobra's and enumflag's: the
  model starts from the parsed flags.  What the command does to the outside world is a list of
  actions; the answers of the operating system are the argument \<open>os\<close> (\<open>True\<close> is an error).
  \<open>log.Fatalf\<close> ends the process without running the deferred calls; whether \<open>runner.Run\<close>
  returns, or ends the process in that way itself, is an argument too (\<open>server_Run\<close> of
  \<open>Startup\<close> says which).
\<close>

datatype RunMode = Dev | Prod | Prof

definition RunModeIds :: "(RunMode, string list) gomap" where
  "RunModeIds = [(Prod, [''prod'']), (Dev, [''dev'']), (Prof, [''prof''])]"

definition ProfileFilePath :: string where
  "ProfileFilePath = ''./logs/profile.''"

definition LogFilePath :: string where
  "LogFilePath = ''./logs/runner.log''"

subsection \<open>filepath.Dir\<close>

fun split_slash :: "string \<Rightarrow> string \<Rightarrow> string list" where
  "split_slash acc [] = [rev acc]"
| "split_slash acc (c # cs) = (if c = CHR ''/'' then rev acc # split_slash [] cs else split_slash (c # acc) cs)"

text \<open>The elements kept so far are in reverse order.\<close>

fun clean_elems :: "bool \<Rightarrow> string list \<Rightarrow> string list \<Rightarrow> string list" where
  "clean_elems rooted out [] = rev out"
| "clean_elems rooted out (e # es) =
     (if e = [] \<or> e = ''.'' then clean_elems rooted out es
      else if e = ''..'' then
        (case out of
           [] \<Rightarrow> clean_elems rooted (if rooted then [] else [''..'']) es
         | o1 # os \<Rightarrow> clean_elems rooted (if o1 = ''..'' then ''..'' # out else os) es)
      else clean_elems rooted (e # out) es)"

fun join_slash :: "string list \<Rightarrow> string" where
  "join_slash [] = []"
| "join_slash [e] = e"
| "join_slash (e # es) = e @ ''/'' @ join_slash es"

definition filepath_Clean :: "string \<Rightarrow> string" where
  "filepath_Clean path =
     (if path = [] then ''.''
      else
        (let rooted = (hd path = CHR ''/'');
             s = (if rooted then ''/'' else []) @ join_slash (clean_elems rooted [] (split_slash [] path))
         in if s = [] then ''.'' else s))"

definition filepath_Dir :: "string \<Rightarrow> string" where
  "filepath_Dir path = filepath_Clean (rev (dropWhile (\<lambda>c. c \<noteq> CHR ''/'') (rev path)))"

subsection \<open>The run command\<close>

datatype 'o cmd_action =
    CMkdirAll string
  | COpenAppend string
  | CCreate string
  | CStartCPUProfile string
  | CStopCPUProfile
  | CGC
  | CWriteHeapProfile string
  | CClose string
  | CRun log_level "'o option"
  | CFatal

text \<open>The answers of the operating system, and whether \<open>runner.Run\<close> returns.\<close>

record cmd_os =
  mkdirFails :: bool
  openFails :: bool
  cpuCreateFails :: bool
  cpuStartFails :: bool
  memCreateFails :: bool
  heapFails :: bool
  runReturns :: bool

text \<open>The file or the error, and what was done.\<close>

definition openFileToWrite :: "cmd_os \<Rightarrow> string \<Rightarrow> string option \<times> 'o cmd_action list" where
  "openFileToWrite os name =
     (let dir = filepath_Dir name
      in if dir \<noteq> ''.'' \<and> mkdirFails os then (None, [CMkdirAll dir])
         else (if openFails os then None else Some name,
               (if dir \<noteq> ''.'' then [CMkdirAll dir] else []) @ [COpenAppend name]))"

text \<open>The deferred function that writes the memory profile, and whether the process survives it.\<close>

definition write_mem_profile :: "cmd_os \<Rightarrow> bool \<times> 'o cmd_action list" where
  "write_mem_profile os =
     (let memProfileFile = ProfileFilePath @ ''mem''
      in if memCreateFails os then (False, [CCreate memProfileFile, CFatal])
         else if heapFails os then (False, [CCreate memProfileFile, CGC, CWriteHeapProfile memProfileFile, CFatal])
         else (True, [CCreate memProfileFile, CGC, CWriteHeapProfile memProfileFile, CClose memProfileFile]))"

text \<open>The deferred calls run in reverse order, when \<open>runner.Run\<close> returns.\<close>

definition run_command :: "cmd_os \<Rightarrow> RunMode \<Rightarrow> string cmd_action list" where
  "run_command os mode =
     (case mode of
        Prod \<Rightarrow>
          (case openFileToWrite os LogFilePath of
             (None, acts) \<Rightarrow> acts @ [CFatal]
           | (Some f, acts) \<Rightarrow> acts @ [CRun WarnLevel (Some f)])
      | Prof \<Rightarrow>
          (let cpuProfileFile = ProfileFilePath @ ''cpu''
           in if cpuCreateFails os then [CCreate cpuProfileFile, CFatal]
              else if cpuStartFails os then [CCreate cpuProfileFile, CStartCPUProfile cpuProfileFile, CFatal]
              else [CCreate cpuProfileFile, CStartCPUProfile cpuProfileFile, CRun WarnLevel None] @
                (if runReturns os then
                   (case write_mem_profile os of
                      (False, acts) \<Rightarrow> acts
                    | (True, acts) \<Rightarrow> acts @ [CStopCPUProfile, CClose cpuProfileFile])
                 else []))
      | Dev \<Rightarrow> [CRun InfoLevel None])"

subsection \<open>The version command and main\<close>

definition version_output :: "bool \<Rightarrow> build_info \<Rightarrow> string" where
  "version_output long b =
     (if long then longVersion b else ''version '' @ shortVersion b @ [CHR 0x0A])"

subsection \<open>The commands\<close>

text \<open>A cobra command as data: what its fields say, its flags and its children, and what it does with the
  parsed flags.  Finding the command on the command line and parsing the flags is cobra's.\<close>

record cmd_flag =
  fgName :: string
  fgShorthand :: string
  fgUsage :: string

record cmd_flags =
  flLong :: bool
  flMode :: RunMode

datatype cmd_effect = Printed string | Did "string cmd_action list"

datatype command = Command
  (cmUse: string) (cmShort: string) (cmLong: string) (cmVersion: string) (cmPersistentFlags: "cmd_flag list")
  (cmRun: "(cmd_flags \<Rightarrow> cmd_effect) option") (cmCommands: "command list")

text \<open>The zero values of the flags.\<close>

definition default_flags :: cmd_flags where
  "default_flags = \<lparr>flLong = False, flMode = Dev\<rparr>"

definition newVersionCommand :: "build_info \<Rightarrow> command" where
  "newVersionCommand b = Command ''version'' ''version'' [] []
     [\<lparr>fgName = ''long'', fgShorthand = [], fgUsage = ''show long mode version information''\<rparr>]
     (Some (\<lambda>fl. Printed (version_output (flLong fl) b))) []"

definition newRunCommand :: "cmd_os \<Rightarrow> command" where
  "newRunCommand os = Command ''run'' ''run'' [] []
     [\<lparr>fgName = ''mode'', fgShorthand = ''m'',
       fgUsage = ''the runner'' @ [CHR 0x27] @
         ''s run mode; can be '' @ [CHR 0x27] @ ''prod'' @ [CHR 0x27] @ '' or '' @ [CHR 0x27] @ ''dev'' @ [CHR 0x27] @
         '', default to '' @ [CHR 0x27] @ ''dev'' @ [CHR 0x27]\<rparr>]
     (Some (\<lambda>fl. Did (run_command os (flMode fl)))) []"

definition NewCommand :: "build_info \<Rightarrow> cmd_os \<Rightarrow> command" where
  "NewCommand b os = Command ''apisix-go-plugin-runner [command]'' [] ''The Plugin runner to run Go plugins''
     (shortVersion b) [] None [newRunCommand os, newVersionCommand b]"

text \<open>What a child of the root command does.\<close>

definition run_child :: "string \<Rightarrow> cmd_flags \<Rightarrow> command \<Rightarrow> cmd_effect option" where
  "run_child name fl root =
     (case List.find (\<lambda>c. cmUse c = name) (cmCommands root) of
        None \<Rightarrow> None
      | Some c \<Rightarrow> map_option (\<lambda>f. f fl) (cmRun c))"

lemma run_child_NewCommand [simp]:
  "run_child ''run'' fl (NewCommand b os) = Some (Did (run_command os (flMode fl)))"
  "run_child ''version'' fl (NewCommand b os) = Some (Printed (version_output (flLong fl) b))"
  "name \<notin> {''run'', ''version''} \<Longrightarrow> run_child name fl (NewCommand b os) = None"
  by (auto simp: run_child_def NewCommand_def newRunCommand_def newVersionCommand_def)

text \<open>\<open>main\<close>: what it prints to the standard error, and the exit status.\<close>

definition main_exit :: "string option \<Rightarrow> string \<times> nat" where
  "main_exit err = (case err of None \<Rightarrow> ([], 0) | Some e \<Rightarrow> (e @ [CHR 0x0A], 1))"

subsection \<open>Properties\<close>

text \<open>The configuration a run command passes to the runner.\<close>

definition cmd_config :: "string cmd_action list \<Rightarrow> ('l, string) RunnerConfig option" where
  "cmd_config acts =
     (case List.map_filter (\<lambda>a. case a of CRun l f \<Rightarrow> Some \<lparr>LogLevel = l, LogOutput = f, Logger = None\<rparr> | _ \<Rightarrow> None) acts of
        [] \<Rightarrow> None | c # _ \<Rightarrow> Some c)"

text \<open>C40: logging of the run modes.  The root command knows \<open>run\<close> and \<open>version\<close> only.  When \<open>run\<close>
  reaches \<open>runner.Run\<close>, the logger in use
  afterwards is one of level info on the standard output in development mode, which is the default, of level warning
  on the log file in production mode, and of level warning on the standard output in profile
  mode; in production mode the directory is created before the file is opened, and the
  command reaches \<open>runner.Run\<close> exactly when both succeed.\<close>

theorem run_command_logging:
  "(\<forall>fl. run_child ''run'' fl (NewCommand b os) = Some (Did (run_command os (flMode fl)))) \<and>
   run_child ''run'' default_flags (NewCommand b os) = Some (Did [CRun InfoLevel None]) \<and>
   (\<forall>name fl. run_child name fl (NewCommand b os) \<noteq> None \<longleftrightarrow> name \<in> {''run'', ''version''}) \<and>
   (case cmd_config (run_command os mode) of
      None \<Rightarrow> True
    | Some cfg \<Rightarrow> fst (GetLogger mk stdout (runner_Run mk stdout cfg s)) =
        Some (case mode of Dev \<Rightarrow> mk InfoLevel stdout | Prod \<Rightarrow> mk WarnLevel ''./logs/runner.log''
          | Prof \<Rightarrow> mk WarnLevel stdout)) \<and>
   (mode = Prod \<longrightarrow> take 1 (run_command os mode) = [CMkdirAll ''logs''] \<and>
     (cmd_config (run_command os mode) = (None :: ('l, string) RunnerConfig option) \<longleftrightarrow> mkdirFails os \<or> openFails os)) \<and>
   (mode = Dev \<longrightarrow> run_command os mode = [CRun InfoLevel None])"
proof -
  have "filepath_Dir LogFilePath = ''logs''"
    by (simp add: filepath_Dir_def LogFilePath_def filepath_Clean_def Let_def)
  note defs = this run_command_def openFileToWrite_def write_mem_profile_def cmd_config_def Let_def
    List.map_filter_simps GetLogger_def runner_Run_def NewLogger_def
  have known: "\<forall>name fl. run_child name fl (NewCommand b os) \<noteq> None \<longleftrightarrow> name \<in> {''run'', ''version''}"
  proof (intro allI)
    fix name fl show "run_child name fl (NewCommand b os) \<noteq> None \<longleftrightarrow> name \<in> {''run'', ''version''}"
      by (cases "name \<in> {''run'', ''version''}") auto
  qed
  show ?thesis
    by (rule conjI, simp, rule conjI, simp add: default_flags_def run_command_def, rule conjI, rule known, cases mode)
      (simp_all add: defs LogFilePath_def [symmetric])
qed

theorem run_command_logging_witness:
  "fst (GetLogger Pair ''stdout'' (runner_Run Pair ''stdout''
     \<lparr>LogLevel = WarnLevel, LogOutput = Some ''./logs/runner.log'', Logger = None\<rparr> \<lparr>logger = None, loggerInit = False\<rparr>)) =
   Some (WarnLevel, ''./logs/runner.log'')"
proof -
  let ?os = "\<lparr>mkdirFails = False, openFails = False, cpuCreateFails = False, cpuStartFails = False,
    memCreateFails = False, heapFails = False, runReturns = True\<rparr>"
  have c: "cmd_config (run_command ?os Prod) =
      Some (\<lparr>LogLevel = WarnLevel, LogOutput = Some ''./logs/runner.log'', Logger = None\<rparr>
        :: (log_level \<times> string, string) RunnerConfig)"
    by (simp add: run_command_def openFileToWrite_def Let_def cmd_config_def List.map_filter_simps LogFilePath_def)
  from run_command_logging [where os = ?os and mode = Prod and mk = Pair and stdout = "''stdout''"
      and s = "\<lparr>logger = None, loggerInit = False\<rparr>", THEN conjunct2, THEN conjunct2, THEN conjunct2, THEN conjunct1, unfolded c]
  show ?thesis by simp
qed

text \<open>The profiles.  In profile mode the CPU profile is stopped, and so written, exactly when
  the runner returns and nothing fails, and then the memory profile is complete before it and
  every file is closed.  When the memory profile fails the CPU profile is lost too.\<close>

lemma run_command_profile:
  "(CStopCPUProfile \<in> set (run_command os Prof) \<longleftrightarrow> runReturns os \<and> \<not> cpuCreateFails os \<and> \<not> cpuStartFails os \<and>
      \<not> memCreateFails os \<and> \<not> heapFails os) \<and>
   (CStopCPUProfile \<in> set (run_command os Prof) \<longrightarrow> run_command os Prof =
      [CCreate ''./logs/profile.cpu'', CStartCPUProfile ''./logs/profile.cpu'', CRun WarnLevel None,
       CCreate ''./logs/profile.mem'', CGC, CWriteHeapProfile ''./logs/profile.mem'', CClose ''./logs/profile.mem'',
       CStopCPUProfile, CClose ''./logs/profile.cpu''])"
proof -
  have files: "ProfileFilePath @ ''cpu'' = ''./logs/profile.cpu''" "ProfileFilePath @ ''mem'' = ''./logs/profile.mem''"
    by (simp_all add: ProfileFilePath_def)
  show ?thesis
    by (cases "cpuCreateFails os"; cases "cpuStartFails os"; cases "runReturns os"; cases "memCreateFails os";
        cases "heapFails os") (simp_all add: run_command_def write_mem_profile_def files Let_def)
qed

lemma run_command_profile_witness:
  "last (run_command \<lparr>mkdirFails = False, openFails = False, cpuCreateFails = False, cpuStartFails = False,
     memCreateFails = False, heapFails = False, runReturns = True\<rparr> Prof) = CClose ''./logs/profile.cpu''"
  using run_command_profile [of "\<lparr>mkdirFails = False, openFails = False, cpuCreateFails = False,
     cpuStartFails = False, memCreateFails = False, heapFails = False, runReturns = True\<rparr>"] by auto

end
