(* ===== verification/Conf_Concurrent.thy ===== *)
theory Conf_Concurrent
  imports Conf
begin

section \<open>Concurrent use of the configuration cache (the mutex of internal/plugin/conf.go)\<close>

text \<open>
  Every connection has its own goroutine, and all of them use one cache.  \<open>Set\<close> holds the mutex
  \<open>lock\<close> from its first statement to its return (\<open>defer\<close>, so after a panic too); \<open>Get\<close> takes no
  lock, and entries expire at any time.  Here \<open>Set\<close> runs statement by statement: a goroutine is
  at a point of \<open>Set\<close> (\<open>pc\<close>), \<open>set_step\<close> is its next statement, and \<open>conc_run\<close> interleaves the
  statements of all goroutines with calls of \<open>Get\<close> and with expiry.

  The specification is \<open>atom_run\<close>, in which \<open>ConfCache_Set\<close> takes effect at one moment between
  the call and the return.  A simulation shows that the calls and returns of the first are
  those of the second.  One operation of the TTL cache, which has a mutex of its own, is one step.
\<close>

datatype 'c pc =
    Idle
  | WaitLock preq
  | Locked preq
  | Missed preq
  | Parsed preq "(string \<times> 'c) list"
  | Counted preq "(string \<times> 'c) list" u32
  | TokenStored preq u32
  | Leaving preq "(go_error + u32) rt"

record ('k, 'c) sys =
  sysCache :: "'k ConfCache"
  sysLock :: "nat option"
  sysPc :: "nat \<Rightarrow> 'c pc"

text \<open>Between acquiring and releasing the lock.\<close>

fun in_lock :: "'c pc \<Rightarrow> bool" where
  "in_lock Idle = False"
| "in_lock (WaitLock req) = False"
| "in_lock _ = True"

subsection \<open>The statements of Set\<close>

text \<open>The next statement of \<open>Set\<close>: the point after it and the cache.\<close>

fun set_stmt :: "('k, 'c) ttl_ops \<Rightarrow> 'c registry \<Rightarrow> 'c pc \<Rightarrow> 'k ConfCache \<Rightarrow> 'c pc \<times> 'k ConfCache" where
  "set_stmt T reg (Locked req) cc =
     (let key = go_string_opt (pqKey req)
      in if key \<noteq> [] then
           (case ttlGet T key (keyCache cc) of
              (Inr (CToken t), kc) \<Rightarrow> (Leaving req (Val (Inr t)), cc\<lparr>keyCache := kc\<rparr>)
            | (Inr (CConf c), kc) \<Rightarrow> (Leaving req Panic, cc\<lparr>keyCache := kc\<rparr>)
            | (Inl err, kc) \<Rightarrow> (Missed req, cc\<lparr>keyCache := kc\<rparr>))
         else (Missed req, cc))"
| "set_stmt T reg (Missed req) cc =
     (case parse_confs reg (pqConf req) of
        Panic \<Rightarrow> (Leaving req Panic, cc)
      | Val entries \<Rightarrow> (Parsed req entries, cc))"
| "set_stmt T reg (Parsed req entries) cc =
     (let token = tokenCounter cc + 1 in (Counted req entries token, cc\<lparr>tokenCounter := token\<rparr>))"
| "set_stmt T reg (Counted req entries token) cc =
     (case ttlSet T (token_key token) (CConf entries) (tokenCache cc) of
        (Some err, tc) \<Rightarrow> (Leaving req (Val (Inl err)), cc\<lparr>tokenCache := tc\<rparr>)
      | (None, tc) \<Rightarrow> (TokenStored req token, cc\<lparr>tokenCache := tc\<rparr>))"
| "set_stmt T reg (TokenStored req token) cc =
     (case ttlSet T (go_string_opt (pqKey req)) (CToken token) (keyCache cc) of
        (Some err, kc) \<Rightarrow> (Leaving req (Val (Inl err)), cc\<lparr>keyCache := kc\<rparr>)
      | (None, kc) \<Rightarrow> (Leaving req (Val (Inr token)), cc\<lparr>keyCache := kc\<rparr>))"
| "set_stmt T reg p cc = (p, cc)"

text \<open>One step of goroutine \<open>i\<close> inside \<open>Set\<close>; \<open>None\<close> when it waits for the lock or has nothing to do.\<close>

definition set_step :: "('k, 'c) ttl_ops \<Rightarrow> 'c registry \<Rightarrow> nat \<Rightarrow> ('k, 'c) sys \<Rightarrow> ('k, 'c) sys option" where
  "set_step T reg i st =
     (case sysPc st i of
        Idle \<Rightarrow> None
      | WaitLock req \<Rightarrow>
          (if sysLock st = None then Some (st\<lparr>sysLock := Some i, sysPc := (sysPc st)(i := Locked req)\<rparr>) else None)
      | Leaving req res \<Rightarrow> Some (st\<lparr>sysLock := None, sysPc := (sysPc st)(i := Idle)\<rparr>)
      | p \<Rightarrow> (case set_stmt T reg p (sysCache st) of
               (p', cc) \<Rightarrow> Some (st\<lparr>sysCache := cc, sysPc := (sysPc st)(i := p')\<rparr>)))"

text \<open>What is visible of a step.\<close>

datatype 'c event =
    ECall nat preq
  | EReturn nat preq "(go_error + u32) rt"
  | EGet nat u32 "(go_error + (string \<times> 'c) list) rt"

definition step_events :: "nat \<Rightarrow> ('k, 'c) sys \<Rightarrow> 'c event list" where
  "step_events i st = (case sysPc st i of Leaving req res \<Rightarrow> [EReturn i req res] | _ \<Rightarrow> [])"

text \<open>Expiry removes entries of either cache.\<close>

definition expired :: "('k \<Rightarrow> string \<Rightarrow> 'c cache_val option) \<Rightarrow> 'k ConfCache \<Rightarrow> 'k ConfCache \<Rightarrow> bool" where
  "expired live cc cc' \<longleftrightarrow> tokenCounter cc' = tokenCounter cc \<and>
     live (tokenCache cc') \<subseteq>\<^sub>m live (tokenCache cc) \<and> live (keyCache cc') \<subseteq>\<^sub>m live (keyCache cc)"

inductive conc_run ::
  "('k, 'c) ttl_ops \<Rightarrow> ('k \<Rightarrow> string \<Rightarrow> 'c cache_val option) \<Rightarrow> 'c registry \<Rightarrow>
   'c event list \<Rightarrow> ('k, 'c) sys \<Rightarrow> bool"
  for T live reg where
  conc_new: "newConfCache T ttl = Some cc \<Longrightarrow>
    conc_run T live reg [] \<lparr>sysCache = cc, sysLock = None, sysPc = (\<lambda>_. Idle)\<rparr>"
| conc_call: "conc_run T live reg evs st \<Longrightarrow> sysPc st i = Idle \<Longrightarrow>
    conc_run T live reg (evs @ [ECall i req]) (st\<lparr>sysPc := (sysPc st)(i := WaitLock req)\<rparr>)"
| conc_set: "conc_run T live reg evs st \<Longrightarrow> set_step T reg i st = Some st' \<Longrightarrow>
    conc_run T live reg (evs @ step_events i st) st'"
| conc_get: "conc_run T live reg evs st \<Longrightarrow> sysPc st i = Idle \<Longrightarrow>
    ConfCache_Get T t (sysCache st) = (res, cc) \<Longrightarrow>
    conc_run T live reg (evs @ [EGet i t res]) (st\<lparr>sysCache := cc\<rparr>)"
| conc_expire: "conc_run T live reg evs st \<Longrightarrow> expired live (sysCache st) cc \<Longrightarrow>
    conc_run T live reg evs (st\<lparr>sysCache := cc\<rparr>)"

subsection \<open>The specification: Set in one step\<close>

datatype acall = AIdle | ACalled preq | ADone preq "(go_error + u32) rt"

inductive atom_run ::
  "('k, 'c) ttl_ops \<Rightarrow> ('k \<Rightarrow> string \<Rightarrow> 'c cache_val option) \<Rightarrow> 'c registry \<Rightarrow>
   'c event list \<Rightarrow> 'k ConfCache \<Rightarrow> (nat \<Rightarrow> acall) \<Rightarrow> bool"
  for T live reg where
  atom_new: "newConfCache T ttl = Some cc \<Longrightarrow> atom_run T live reg [] cc (\<lambda>_. AIdle)"
| atom_call: "atom_run T live reg evs cc as \<Longrightarrow> as i = AIdle \<Longrightarrow>
    atom_run T live reg (evs @ [ECall i req]) cc (as(i := ACalled req))"
| atom_set: "atom_run T live reg evs cc as \<Longrightarrow> as i = ACalled req \<Longrightarrow>
    ConfCache_Set T reg req cc = (res, cc') \<Longrightarrow> atom_run T live reg evs cc' (as(i := ADone req res))"
| atom_return: "atom_run T live reg evs cc as \<Longrightarrow> as i = ADone req res \<Longrightarrow>
    atom_run T live reg (evs @ [EReturn i req res]) cc (as(i := AIdle))"
| atom_get: "atom_run T live reg evs cc as \<Longrightarrow> as i = AIdle \<Longrightarrow> ConfCache_Get T t cc = (res, cc') \<Longrightarrow>
    atom_run T live reg (evs @ [EGet i t res]) cc' as"
| atom_expire: "atom_run T live reg evs cc as \<Longrightarrow> expired live cc cc' \<Longrightarrow> atom_run T live reg evs cc' as"


subsection \<open>The simulation\<close>

fun acall_of :: "'c pc \<Rightarrow> acall" where
  "acall_of Idle = AIdle"
| "acall_of (WaitLock req) = ACalled req"
| "acall_of (Locked req) = ACalled req"
| "acall_of (Missed req) = ACalled req"
| "acall_of (Parsed req entries) = ACalled req"
| "acall_of (Counted req entries token) = ACalled req"
| "acall_of (TokenStored req token) = ADone req (Val (Inr token))"
| "acall_of (Leaving req res) = ADone req res"

definition key_missed :: "('k \<Rightarrow> string \<Rightarrow> 'c cache_val option) \<Rightarrow> preq \<Rightarrow> 'k ConfCache \<Rightarrow> bool" where
  "key_missed live req cc \<longleftrightarrow> (let key = go_string_opt (pqKey req) in key = [] \<or> live (keyCache cc) key = None)"

text \<open>How the cache \<open>c\<close> differs from that of the specification \<open>a\<close> while the lock holder is at a
  point: the counter is ahead, or the key is not stored yet.\<close>

fun pending :: "('k \<Rightarrow> string \<Rightarrow> 'c cache_val option) \<Rightarrow> 'c registry \<Rightarrow> 'c pc \<Rightarrow> 'k ConfCache \<Rightarrow> 'k ConfCache \<Rightarrow> bool" where
  "pending live reg (Missed req) c a \<longleftrightarrow> tokenCounter c = tokenCounter a \<and> live (keyCache a) = live (keyCache c) \<and>
     key_missed live req c"
| "pending live reg (Parsed req entries) c a \<longleftrightarrow> tokenCounter c = tokenCounter a \<and>
     live (keyCache a) = live (keyCache c) \<and> key_missed live req c \<and> parse_confs reg (pqConf req) = Val entries"
| "pending live reg (Counted req entries t) c a \<longleftrightarrow> tokenCounter c = tokenCounter a + 1 \<and> t = tokenCounter a + 1 \<and>
     live (keyCache a) = live (keyCache c) \<and> key_missed live req c \<and> parse_confs reg (pqConf req) = Val entries"
| "pending live reg (TokenStored req t) c a \<longleftrightarrow> tokenCounter c = tokenCounter a \<and>
     live (keyCache a) = (live (keyCache c))(go_string_opt (pqKey req) \<mapsto> CToken t)"
| "pending live reg p c a \<longleftrightarrow> tokenCounter c = tokenCounter a \<and> live (keyCache a) = live (keyCache c)"

definition holder :: "('k, 'c) sys \<Rightarrow> 'c pc" where
  "holder st = (case sysLock st of None \<Rightarrow> Idle | Some i \<Rightarrow> sysPc st i)"

definition lock_ok :: "('k, 'c) sys \<Rightarrow> bool" where
  "lock_ok st \<longleftrightarrow> (\<forall>i. in_lock (sysPc st i) \<longleftrightarrow> sysLock st = Some i)"

definition conc_sim :: "('k \<Rightarrow> string \<Rightarrow> 'c cache_val option) \<Rightarrow> 'c registry \<Rightarrow> ('k, 'c) sys \<Rightarrow>
    'k ConfCache \<Rightarrow> (nat \<Rightarrow> acall) \<Rightarrow> bool" where
  "conc_sim live reg st a as \<longleftrightarrow> lock_ok st \<and> as = (\<lambda>i. acall_of (sysPc st i)) \<and>
     live (tokenCache a) = live (tokenCache (sysCache st)) \<and> pending live reg (holder st) (sysCache st) a"

lemma ConfCache_Set_type:
  assumes "ttl_spec T live" "go_string_opt (pqKey req) \<noteq> []"
    and "live (keyCache cc) (go_string_opt (pqKey req)) = Some (CConf c)"
  shows "\<exists>kc. ConfCache_Set T reg req cc = (Panic, cc\<lparr>keyCache := kc\<rparr>) \<and> live kc = live (keyCache cc)"
proof -
  obtain kc where "ttlGet T (go_string_opt (pqKey req)) (keyCache cc) = (Inr (CConf c), kc)"
    "live kc = live (keyCache cc)"
    using ttl_Get [OF assms(1), of "go_string_opt (pqKey req)" "keyCache cc"] assms(3) by auto
  with assms(2) show ?thesis by (auto simp: ConfCache_Set_def Let_def)
qed

text \<open>A statement is invisible or it is the moment at which \<open>Set\<close> takes effect.\<close>

definition stmt_ok where
  "stmt_ok T live reg p p' c' a \<longleftrightarrow>
     acall_of p' = acall_of p \<and> pending live reg p' c' a \<and> live (tokenCache a) = live (tokenCache c') \<or>
     (\<exists>req res a'. acall_of p = ACalled req \<and> ConfCache_Set T reg req a = (res, a') \<and> acall_of p' = ADone req res \<and>
        pending live reg p' c' a' \<and> live (tokenCache a') = live (tokenCache c'))"

lemma stmt_lookup:
  assumes spec: "ttl_spec T live" and p: "pending live reg (Locked req) c a"
    and tok: "live (tokenCache a) = live (tokenCache c)"
    and st: "set_stmt T reg (Locked req) c = (p', c')"
  shows "stmt_ok T live reg (Locked req) p' c' a"
proof (cases "go_string_opt (pqKey req) = []")
  case True
  with p tok st show ?thesis by (auto simp: stmt_ok_def key_missed_def Let_def)
next
  case False
  let ?key = "go_string_opt (pqKey req)"
  from ttl_Get [OF spec, of ?key "keyCache c"] obtain kc where
    g: "ttlGet T ?key (keyCache c) = (case live (keyCache c) ?key of Some v \<Rightarrow> Inr v | None \<Rightarrow> Inl ErrNotFound, kc)"
    "live kc = live (keyCache c)" by blast
  show ?thesis
  proof (cases "live (keyCache c) ?key")
    case None
    with g False p tok st show ?thesis by (auto simp: stmt_ok_def key_missed_def Let_def)
  next
    case (Some v)
    show ?thesis
    proof (cases v)
      case (CToken t)
      with ConfCache_Set_hit [OF spec refl False, of a t reg] p Some g False st tok show ?thesis
        by (auto simp: stmt_ok_def Let_def)
    next
      case (CConf x)
      with ConfCache_Set_type [OF spec False, of a x reg] p Some g False st tok show ?thesis
        by (auto simp: stmt_ok_def Let_def)
    qed
  qed
qed

lemma stmt_sim:
  assumes spec: "ttl_spec T live" and p: "pending live reg p c a"
    and tok: "live (tokenCache a) = live (tokenCache c)"
    and st: "set_stmt T reg p c = (p', c')"
  shows "stmt_ok T live reg p p' c' a"
proof (cases p)
  case (Locked req)
  with stmt_lookup [OF spec, of reg req c a p' c'] assms show ?thesis by simp
next
  case (Missed req)
  show ?thesis
  proof (cases "parse_confs reg (pqConf req)")
    case Panic
    with p Missed have "go_string_opt (pqKey req) = [] \<or> live (keyCache a) (go_string_opt (pqKey req)) = None"
      by (simp add: key_missed_def Let_def)
    from ConfCache_Set_panic [OF spec refl this Panic] p st Missed Panic tok show ?thesis
      by (auto simp: stmt_ok_def)
  next
    case (Val entries)
    with p st Missed tok show ?thesis by (auto simp: stmt_ok_def)
  qed
next
  case (Parsed req entries)
  with p st tok show ?thesis by (auto simp: stmt_ok_def Let_def key_missed_def)
next
  case (Counted req entries t)
  with p have miss: "go_string_opt (pqKey req) = [] \<or> live (keyCache a) (go_string_opt (pqKey req)) = None"
    and parse: "parse_confs reg (pqConf req) = Val entries" and t: "t = tokenCounter a + 1"
    by (simp_all add: key_missed_def Let_def)
  obtain tc where "ttlSet T (token_key t) (CConf entries) (tokenCache c) = (None, tc)"
    "live tc = (live (tokenCache c))(token_key t \<mapsto> CConf entries)" using ttl_Set [OF spec] by blast
  with ConfCache_Set_miss [OF spec refl miss parse] p st Counted tok t show ?thesis
    by (auto simp: stmt_ok_def)
next
  case (TokenStored req t)
  obtain kc where "ttlSet T (go_string_opt (pqKey req)) (CToken t) (keyCache c) = (None, kc)"
    "live kc = (live (keyCache c))(go_string_opt (pqKey req) \<mapsto> CToken t)" using ttl_Set [OF spec] by blast
  with p st TokenStored tok show ?thesis by (auto simp: stmt_ok_def)
qed (use p st tok in \<open>auto simp: stmt_ok_def\<close>)

text \<open>The lock admits one goroutine.\<close>

lemma lock_ok_upd:
  assumes "lock_ok st" "in_lock (sysPc st i)" "in_lock p'"
  shows "lock_ok (st\<lparr>sysCache := c, sysPc := (sysPc st)(i := p')\<rparr>)"
  using assms by (auto simp: lock_ok_def)

lemma in_lock_stmt: "in_lock p \<Longrightarrow> set_stmt T reg p c = (p', c') \<Longrightarrow> in_lock p'"
  by (cases p) (auto simp: Let_def split: if_splits prod.splits sum.splits cache_val.splits rt.splits option.splits)

lemma set_step_cases:
  assumes "set_step T reg i st = Some st'"
  obtains (acquire) req where "sysPc st i = WaitLock req" "sysLock st = None"
      "st' = st\<lparr>sysLock := Some i, sysPc := (sysPc st)(i := Locked req)\<rparr>"
    | (release) req res where "sysPc st i = Leaving req res" "st' = st\<lparr>sysLock := None, sysPc := (sysPc st)(i := Idle)\<rparr>"
    | (inside) p' c' where "in_lock (sysPc st i)" "\<And>req res. sysPc st i \<noteq> Leaving req res"
      "set_stmt T reg (sysPc st i) (sysCache st) = (p', c')" "st' = st\<lparr>sysCache := c', sysPc := (sysPc st)(i := p')\<rparr>"
  using assms by (cases "sysPc st i") (auto simp: set_step_def split: if_splits prod.splits)

lemma step_events_simps [simp]:
  "sysPc st i = Leaving req res \<Longrightarrow> step_events i st = [EReturn i req res]"
  "(\<And>req res. sysPc st i \<noteq> Leaving req res) \<Longrightarrow> step_events i st = []"
  by (auto simp: step_events_def split: pc.split)

lemma lock_ok_step: "lock_ok st \<Longrightarrow> set_step T reg i st = Some st' \<Longrightarrow> lock_ok st'"
proof (erule set_step_cases)
  fix req res assume "lock_ok st" "sysPc st i = Leaving req res" "st' = st\<lparr>sysLock := None, sysPc := (sysPc st)(i := Idle)\<rparr>"
  moreover have "in_lock (Leaving req res)" by simp
  ultimately show "lock_ok st'" unfolding lock_ok_def by (auto; metis option.inject)
next
  fix p' c' assume "lock_ok st" "in_lock (sysPc st i)" "set_stmt T reg (sysPc st i) (sysCache st) = (p', c')"
    "st' = st\<lparr>sysCache := c', sysPc := (sysPc st)(i := p')\<rparr>"
  then show "lock_ok st'" by (simp add: lock_ok_upd in_lock_stmt)
qed (auto simp: lock_ok_def)

lemma conc_lock_ok: "conc_run T live reg evs st \<Longrightarrow> lock_ok st"
proof (induction rule: conc_run.induct)
  case (conc_call evs st i req)
  then show ?case by (auto simp: lock_ok_def) (metis in_lock.simps(1))
next
  case (conc_set evs st i st')
  then show ?case by (blast intro: lock_ok_step)
qed (auto simp: lock_ok_def)

lemma holder_in: "lock_ok st \<Longrightarrow> in_lock (sysPc st i) \<Longrightarrow> holder st = sysPc st i"
  by (auto simp: lock_ok_def holder_def)

lemma sys_cache_upd [simp]:
  "holder (st\<lparr>sysCache := c\<rparr>) = holder st" "lock_ok (st\<lparr>sysCache := c\<rparr>) = lock_ok st"
  by (simp_all add: holder_def lock_ok_def cong: option.case_cong)

text \<open>Every step is matched by steps of the specification with the same visible events.\<close>

lemma conc_sim_set:
  assumes spec: "ttl_spec T live" and run: "atom_run T live reg evs a as" and sim: "conc_sim live reg st a as"
    and step: "set_step T reg i st = Some st'"
  shows "\<exists>a' as'. atom_run T live reg (evs @ step_events i st) a' as' \<and> conc_sim live reg st' a' as'"
  using step
proof (cases rule: set_step_cases)
  case (acquire req)
  have "holder st = Idle" using acquire(2) by (simp add: holder_def)
  moreover have "holder st' = Locked req" using acquire(3) by (simp add: holder_def)
  moreover have "step_events i st = []" using acquire(1) by simp
  moreover have "(\<lambda>j. acall_of (sysPc st' j)) = (\<lambda>j. acall_of (sysPc st j))" using acquire by auto
  ultimately show ?thesis
    using run sim lock_ok_step [OF _ step] acquire(3) by (auto simp: conc_sim_def)
next
  case (release req res)
  have h: "holder st = Leaving req res" "holder st' = Idle"
    using holder_in [of st i] sim release by (simp_all add: conc_sim_def) (simp add: holder_def)
  have "as i = ADone req res" using sim release(1) by (simp add: conc_sim_def)
  from atom_return [OF run this] have "atom_run T live reg (evs @ step_events i st) a (as(i := AIdle))"
    using release(1) by simp
  moreover have "conc_sim live reg st' a (as(i := AIdle))"
    using sim release(2) h lock_ok_step [OF _ step] by (auto simp: conc_sim_def fun_eq_iff)
  ultimately show ?thesis by blast
next
  case (inside p' c')
  let ?p = "sysPc st i"
  have h: "holder st = ?p" using holder_in [of st i] sim inside(1) by (simp add: conc_sim_def)
  have lk: "lock_ok st'" using sim lock_ok_step [OF _ step] by (simp add: conc_sim_def)
  have "in_lock p'" by (rule in_lock_stmt [OF inside(1,3)])
  then have h': "holder st' = p'" using holder_in [OF lk, of i] inside(4) by simp
  have ev: "step_events i st = []" using inside(2) by simp
  have as: "(\<lambda>j. acall_of (sysPc st' j)) = as(i := acall_of p')" using sim inside(4) by (auto simp: conc_sim_def)
  from sim h have "pending live reg ?p (sysCache st) a" "live (tokenCache a) = live (tokenCache (sysCache st))"
    by (simp_all add: conc_sim_def)
  from stmt_sim [OF spec this inside(3)] show ?thesis unfolding stmt_ok_def
  proof (elim disjE exE conjE)
    assume "acall_of p' = acall_of ?p" "pending live reg p' c' a" "live (tokenCache a) = live (tokenCache c')"
    moreover from this have "as(i := acall_of p') = as" using sim by (auto simp: conc_sim_def)
    ultimately have "conc_sim live reg st' a as" using lk h' as inside(4) by (simp add: conc_sim_def)
    with run ev show ?thesis by auto
  next
    fix req res a'
    assume s: "acall_of ?p = ACalled req" "ConfCache_Set T reg req a = (res, a')" "acall_of p' = ADone req res"
      "pending live reg p' c' a'" "live (tokenCache a') = live (tokenCache c')"
    have "as i = ACalled req" using sim s(1) by (simp add: conc_sim_def)
    from atom_set [OF run this s(2)] have "atom_run T live reg (evs @ step_events i st) a' (as(i := ADone req res))"
      using ev by simp
    moreover have "conc_sim live reg st' a' (as(i := ADone req res))"
      using lk h' as s inside(4) by (simp add: conc_sim_def)
    ultimately show ?thesis by blast
  qed
qed

lemma conc_sim_get:
  assumes spec: "ttl_spec T live" and run: "atom_run T live reg evs a as" and sim: "conc_sim live reg st a as"
    and idle: "sysPc st i = Idle" and get: "ConfCache_Get T t (sysCache st) = (res, cc)"
  shows "\<exists>a'. atom_run T live reg (evs @ [EGet i t res]) a' as \<and> conc_sim live reg (st\<lparr>sysCache := cc\<rparr>) a' as"
proof -
  from ConfCache_Get_live [OF spec, of t "sysCache st"] get obtain tc where c: "cc = (sysCache st)\<lparr>tokenCache := tc\<rparr>"
    "live tc = live (tokenCache (sysCache st))" by auto
  from ConfCache_Get_live [OF spec, of t a] ConfCache_Get_live [OF spec, of t "sysCache st"] get sim
  obtain ta where a: "ConfCache_Get T t a = (res, a\<lparr>tokenCache := ta\<rparr>)" "live ta = live (tokenCache a)"
    by (auto simp: conc_sim_def)
  have "as i = AIdle" using sim idle by (simp add: conc_sim_def)
  from atom_get [OF run this a(1)] have "atom_run T live reg (evs @ [EGet i t res]) (a\<lparr>tokenCache := ta\<rparr>) as" .
  moreover have "pending live reg p cc (a\<lparr>tokenCache := ta\<rparr>) = pending live reg p (sysCache st) a" for p
    using c by (cases p) (auto simp: key_missed_def)
  then have "conc_sim live reg (st\<lparr>sysCache := cc\<rparr>) (a\<lparr>tokenCache := ta\<rparr>) as"
    using sim c a(2) by (simp add: conc_sim_def)
  ultimately show ?thesis by blast
qed

text \<open>Some state of a TTL cache holds any map that a reachable one holds after a store.\<close>

lemma conc_sim_expire:
  assumes spec: "ttl_spec T live" and run: "atom_run T live reg evs a as" and sim: "conc_sim live reg st a as"
    and exp: "expired live (sysCache st) cc"
  shows "\<exists>a'. atom_run T live reg evs a' as \<and> conc_sim live reg (st\<lparr>sysCache := cc\<rparr>) a' as"
proof -
  let ?c = "sysCache st"
  define kc where "kc = (case holder st of
      TokenStored req t \<Rightarrow> snd (ttlSet T (go_string_opt (pqKey req)) (CToken t) (keyCache cc)) | _ \<Rightarrow> keyCache cc)"
  define a' where "a' = a\<lparr>tokenCache := tokenCache cc, keyCache := kc\<rparr>"
  have kc: "live kc = (case holder st of
      TokenStored req t \<Rightarrow> (live (keyCache cc))(go_string_opt (pqKey req) \<mapsto> CToken t) | _ \<Rightarrow> live (keyCache cc))"
    using ttl_Set [OF spec] by (auto simp: kc_def split: pc.split; metis snd_conv)
  have p: "pending live reg (holder st) ?c a" and tok: "live (tokenCache a) = live (tokenCache ?c)"
    using sim by (simp_all add: conc_sim_def)
  have k: "live (keyCache cc) \<subseteq>\<^sub>m live (keyCache ?c)" and t: "live (tokenCache cc) \<subseteq>\<^sub>m live (tokenCache ?c)"
    and n: "tokenCounter cc = tokenCounter ?c" using exp by (simp_all add: expired_def)
  have "live kc \<subseteq>\<^sub>m live (keyCache a)"
    using p k by (cases "holder st") (auto simp: kc map_le_def)
  then have "expired live a a'" using tok t by (simp add: expired_def a'_def)
  from atom_expire [OF run this] have r: "atom_run T live reg evs a' as" .
  have "live (keyCache cc) x = None" if "live (keyCache ?c) x = None" for x
    using k that by (auto simp: map_le_def dom_def)
  then have miss: "key_missed live req cc" if "key_missed live req ?c" for req
    using that by (auto simp: key_missed_def Let_def)
  have "pending live reg (holder st) cc a'"
    using p n kc miss by (cases "holder st") (auto simp: a'_def)
  then have "conc_sim live reg (st\<lparr>sysCache := cc\<rparr>) a' as"
    using sim by (simp add: conc_sim_def a'_def)
  with r show ?thesis by blast
qed

lemma conc_refines_atom:
  assumes spec: "ttl_spec T live" and run: "conc_run T live reg evs st"
  shows "\<exists>a as. atom_run T live reg evs a as \<and> conc_sim live reg st a as"
  using run
proof (induction rule: conc_run.induct)
  case (conc_new ttl cc)
  then show ?case
    by (intro exI [of _ cc] exI [of _ "\<lambda>_. AIdle"]) (auto simp: conc_sim_def lock_ok_def holder_def intro: atom_new)
next
  case (conc_call evs st i req)
  then obtain a as where a: "atom_run T live reg evs a as" "conc_sim live reg st a as" by blast
  have i: "as i = AIdle" using a(2) conc_call.hyps(2) by (simp add: conc_sim_def)
  let ?st = "st\<lparr>sysPc := (sysPc st)(i := WaitLock req)\<rparr>"
  have lk: "lock_ok ?st" using conc_lock_ok [OF conc_run.conc_call [OF conc_call.hyps]] .
  have "\<not> in_lock (sysPc st i)" using conc_call.hyps(2) by simp
  then have "sysLock st \<noteq> Some i" using a(2) by (simp add: conc_sim_def lock_ok_def)
  then have "holder ?st = holder st" by (auto simp: holder_def split: option.split)
  then have "conc_sim live reg ?st a (as(i := ACalled req))"
    using a(2) lk by (auto simp: conc_sim_def fun_eq_iff)
  with atom_call [OF a(1) i] show ?case by blast
next
  case (conc_set evs st i st')
  then show ?case using conc_sim_set [OF spec] by blast
next
  case (conc_get evs st i t res cc)
  then show ?case using conc_sim_get [OF spec] by blast
next
  case (conc_expire evs st cc)
  then show ?case using conc_sim_expire [OF spec] by blast
qed

subsection \<open>The lock is always released\<close>

fun run_set :: "('k, 'c) ttl_ops \<Rightarrow> 'c registry \<Rightarrow> nat \<Rightarrow> nat \<Rightarrow> ('k, 'c) sys \<Rightarrow> ('k, 'c) sys option" where
  "run_set T reg i 0 st = Some st"
| "run_set T reg i (Suc k) st = Option.bind (set_step T reg i st) (run_set T reg i k)"

text \<open>How many statements are left before the lock is free.\<close>

fun lock_rank :: "'c pc \<Rightarrow> nat" where
  "lock_rank (Locked req) = 6"
| "lock_rank (Missed req) = 5"
| "lock_rank (Parsed req entries) = 4"
| "lock_rank (Counted req entries t) = 3"
| "lock_rank (TokenStored req t) = 2"
| "lock_rank (Leaving req res) = 1"
| "lock_rank p = 0"

lemma lock_rank_stmt:
  "in_lock p \<Longrightarrow> (\<And>req res. p \<noteq> Leaving req res) \<Longrightarrow> set_stmt T reg p c = (p', c') \<Longrightarrow>
    lock_rank p' < lock_rank p"
  by (cases p) (auto simp: Let_def split: if_splits prod.splits sum.splits cache_val.splits rt.splits option.splits)

lemma lock_released:
  "lock_ok st \<Longrightarrow> sysLock st = Some i \<Longrightarrow>
    \<exists>k \<le> lock_rank (sysPc st i). \<exists>st'. run_set T reg i k st = Some st' \<and> sysLock st' = None \<and> sysPc st' i = Idle \<and>
      (\<forall>j. j \<noteq> i \<longrightarrow> sysPc st' j = sysPc st j)"
proof (induction "lock_rank (sysPc st i)" arbitrary: st rule: less_induct)
  case less
  let ?p = "sysPc st i"
  have "in_lock ?p" using less.prems by (simp add: lock_ok_def)
  then have "set_step T reg i st \<noteq> None" by (cases ?p) (auto simp: set_step_def split: prod.split)
  then obtain st1 where s: "set_step T reg i st = Some st1" by auto
  then show ?case
  proof (cases rule: set_step_cases)
    case (acquire req)
    with \<open>in_lock ?p\<close> show ?thesis by simp
  next
    case (release req res)
    with s show ?thesis by (intro exI [of _ "Suc 0"]) simp
  next
    case (inside p' c')
    have lt: "lock_rank (sysPc st1 i) < lock_rank ?p" using lock_rank_stmt [OF inside(1-3)] inside(4) by simp
    have "lock_ok st1" "sysLock st1 = Some i" using lock_ok_step [OF less.prems(1) s] less.prems(2) inside(4) by simp_all
    from less.hyps [OF lt this] obtain k st' where k: "k \<le> lock_rank (sysPc st1 i)"
      "run_set T reg i k st1 = Some st'" "sysLock st' = None" "sysPc st' i = Idle"
      "\<forall>j. j \<noteq> i \<longrightarrow> sysPc st' j = sysPc st1 j" by blast
    with s lt inside(4) show ?thesis by (intro exI [of _ "Suc k"]) auto
  qed
qed

lemma lock_rank_le: "lock_rank p \<le> 6"
  by (cases p) auto

lemma set_step_enabled:
  assumes "lock_ok st" "sysPc st i \<noteq> Idle"
  shows "\<exists>j. set_step T reg j st \<noteq> None"
proof (cases "sysLock st")
  case None
  then have "\<not> in_lock (sysPc st i)" using assms(1) by (simp add: lock_ok_def)
  with assms(2) None show ?thesis by (intro exI [of _ i]) (cases "sysPc st i"; simp add: set_step_def)
next
  case (Some j)
  then have "in_lock (sysPc st j)" using assms(1) by (simp add: lock_ok_def)
  then show ?thesis by (intro exI [of _ j]) (cases "sysPc st j"; auto simp: set_step_def split: prod.split)
qed

subsection \<open>What the specification keeps\<close>

lemma hist_ok_mono:
  assumes "hist_ok reg tr tok key n" "tok' \<subseteq>\<^sub>m tok" "key' \<subseteq>\<^sub>m key"
  shows "hist_ok reg tr tok' key' n"
proof -
  have t: "tok k = Some v" if "tok' k = Some v" for k v using assms(2) that by (auto simp: map_le_def dom_def)
  have k: "key k = Some v" if "key' k = Some v" for k v using assms(3) that by (auto simp: map_le_def dom_def)
  show ?thesis
    by (rule hist_okI) (fact hist_okD(1) [OF assms(1) t] hist_okD(2) [OF assms(1) k] hist_okD(3-5) [OF assms(1)])+
qed

fun is_call :: "'c event \<Rightarrow> bool" where
  "is_call (ECall i req) = True"
| "is_call _ = False"

definition waiting :: "(nat \<Rightarrow> acall) \<Rightarrow> nat set" where
  "waiting as = {i. \<exists>req. as i = ACalled req}"

text \<open>\<open>tr\<close> lists the calls that have taken effect, in that order.\<close>

definition atom_ok :: "'c registry \<Rightarrow> 'c event list \<Rightarrow> (string \<Rightarrow> 'c cache_val option) \<Rightarrow>
    (string \<Rightarrow> 'c cache_val option) \<Rightarrow> u32 \<Rightarrow> (nat \<Rightarrow> acall) \<Rightarrow> 'c conf_event list \<Rightarrow> bool" where
  "atom_ok reg evs tok key n as tr \<longleftrightarrow>
     hist_ok reg tr tok key n \<and>
     finite (waiting as) \<and> length tr + card (waiting as) = length (filter is_call evs) \<and>
     (\<forall>i req. as i = ACalled req \<longrightarrow> ECall i req \<in> set evs) \<and>
     (\<forall>i req res. as i = ADone req res \<longrightarrow> OSet req res \<in> set tr) \<and>
     (\<forall>i req res. EReturn i req res \<in> set evs \<longrightarrow> OSet req res \<in> set tr) \<and>
     (\<forall>req res. OSet req res \<in> set tr \<longrightarrow> (\<exists>i. ECall i req \<in> set evs) \<and>
        ((\<exists>t. res = Val (Inr t)) \<or> res = Panic \<and> parse_confs reg (pqConf req) = Panic)) \<and>
     (\<forall>i t res. EGet i t res \<in> set evs \<longrightarrow> res = Val (Inl ErrNotFound) \<or>
        (\<exists>req c. issued tr req t \<and> parse_confs reg (pqConf req) = Val c \<and> res = Val (Inr c)))"

lemma atom_okD:
  assumes "atom_ok reg evs tok key n as tr"
  shows "hist_ok reg tr tok key n" and "finite (waiting as)"
    and "length tr + card (waiting as) = length (filter is_call evs)"
    and "as i = ACalled req \<Longrightarrow> ECall i req \<in> set evs"
    and "as i = ADone req res \<Longrightarrow> OSet req res \<in> set tr"
    and "EReturn i req res \<in> set evs \<Longrightarrow> OSet req res \<in> set tr"
    and "OSet req res \<in> set tr \<Longrightarrow> \<exists>i. ECall i req \<in> set evs"
    and "OSet req res \<in> set tr \<Longrightarrow> (\<exists>t. res = Val (Inr t)) \<or> res = Panic \<and> parse_confs reg (pqConf req) = Panic"
    and "EGet i t r \<in> set evs \<Longrightarrow> r = Val (Inl ErrNotFound) \<or>
      (\<exists>req c. issued tr req t \<and> parse_confs reg (pqConf req) = Val c \<and> r = Val (Inr c))"
  using assms unfolding atom_ok_def by blast+

lemma atom_okI:
  assumes "hist_ok reg tr tok key n" and "finite (waiting as)"
    and "length tr + card (waiting as) = length (filter is_call evs)"
    and "\<And>i req. as i = ACalled req \<Longrightarrow> ECall i req \<in> set evs"
    and "\<And>i req res. as i = ADone req res \<Longrightarrow> OSet req res \<in> set tr"
    and "\<And>i req res. EReturn i req res \<in> set evs \<Longrightarrow> OSet req res \<in> set tr"
    and "\<And>req res. OSet req res \<in> set tr \<Longrightarrow> \<exists>i. ECall i req \<in> set evs"
    and "\<And>req res. OSet req res \<in> set tr \<Longrightarrow>
      (\<exists>t. res = Val (Inr t)) \<or> res = Panic \<and> parse_confs reg (pqConf req) = Panic"
    and "\<And>i t r. EGet i t r \<in> set evs \<Longrightarrow> r = Val (Inl ErrNotFound) \<or>
      (\<exists>req c. issued tr req t \<and> parse_confs reg (pqConf req) = Val c \<and> r = Val (Inr c))"
  shows "atom_ok reg evs tok key n as tr"
  unfolding atom_ok_def
  apply (intro conjI allI impI)
  subgoal by (rule assms(1))
  subgoal by (rule assms(2))
  subgoal by (rule assms(3))
  subgoal by (rule assms(4))
  subgoal by (rule assms(5))
  subgoal by (rule assms(6))
  subgoal by (rule assms(7))
  subgoal by (rule assms(8))
  subgoal by (rule assms(9))
  done

lemma waiting_upd:
  "waiting (as(i := ACalled req)) = insert i (waiting as)"
  "(\<And>req. x \<noteq> ACalled req) \<Longrightarrow> waiting (as(i := x)) = waiting as - {i}"
  by (auto simp: waiting_def)

lemma atom_ok_set:
  assumes spec: "ttl_spec T live" and ok: "atom_ok reg evs (live (tokenCache cc)) (live (keyCache cc)) (tokenCounter cc) as tr"
    and i: "as i = ACalled req" and set: "ConfCache_Set T reg req cc = (res, cc')"
    and few: "length (filter is_call evs) < 2 ^ 32 - 1"
  shows "atom_ok reg evs (live (tokenCache cc')) (live (keyCache cc')) (tokenCounter cc') (as(i := ADone req res))
    (tr @ [OSet req res])"
proof -
  have h: "hist_ok reg tr (live (tokenCache cc)) (live (keyCache cc)) (tokenCounter cc)"
    and fin: "finite (waiting as)" and len: "length tr + card (waiting as) = length (filter is_call evs)"
    using ok by (simp_all add: atom_ok_def)
  from len few have "length tr < 2 ^ 32 - 1" by simp
  from hist_ok_Set [OF spec h this set] have h': "hist_ok reg (tr @ [OSet req res]) (live (tokenCache cc'))
      (live (keyCache cc')) (tokenCounter cc')" and res: "res = Panic \<longrightarrow> parse_confs reg (pqConf req) = Panic"
      "\<forall>e. res \<noteq> Val (Inl e)" by auto
  have res': "(\<exists>t. res = Val (Inr t)) \<or> res = Panic \<and> parse_confs reg (pqConf req) = Panic"
  proof (cases res)
    case (Val x)
    with res(2) show ?thesis by (cases x) auto
  qed (use res in simp)
  have "i \<in> waiting as" using i by (auto simp: waiting_def)
  then have "0 < card (waiting as)" and "card (waiting as - {i}) = card (waiting as) - 1"
    using fin by (auto simp: card_gt_0_iff)
  moreover have "waiting (as(i := ADone req res)) = waiting as - {i}" by (simp add: waiting_upd)
  ultimately have c: "length (tr @ [OSet req res]) + card (waiting (as(i := ADone req res))) = length (filter is_call evs)"
    using len by simp
  have call: "ECall i req \<in> set evs" by (rule atom_okD(4) [OF ok i])
  show ?thesis
  proof (rule atom_okI)
    show "finite (waiting (as(i := ADone req res)))" using fin by (simp add: waiting_upd)
    fix j r x
    show "ECall j r \<in> set evs" if "(as(i := ADone req res)) j = ACalled r"
      using that atom_okD(4) [OF ok, of j r] by (simp split: if_splits)
    show "OSet r x \<in> set (tr @ [OSet req res])" if "(as(i := ADone req res)) j = ADone r x"
      using that atom_okD(5) [OF ok, of j r x] by (simp split: if_splits)
    show "OSet r x \<in> set (tr @ [OSet req res])" if "EReturn j r x \<in> set evs"
      using atom_okD(6) [OF ok that] by simp
    show "\<exists>j. ECall j r \<in> set evs" if "OSet r x \<in> set (tr @ [OSet req res])"
      using that atom_okD(7) [OF ok, of r x] call by auto
    show "(\<exists>t. x = Val (Inr t)) \<or> x = Panic \<and> parse_confs reg (pqConf r) = Panic"
      if "OSet r x \<in> set (tr @ [OSet req res])"
      using that atom_okD(8) [OF ok, of r x] res' by auto
  next
    fix j t y assume "EGet j t y \<in> set evs"
    from atom_okD(9) [OF ok this]
    show "y = Val (Inl ErrNotFound) \<or>
      (\<exists>r c. issued (tr @ [OSet req res]) r t \<and> parse_confs reg (pqConf r) = Val c \<and> y = Val (Inr c))"
      by (auto simp: issued_snoc)
  qed (rule h', rule c)
qed

lemma atom_run_ok:
  assumes spec: "ttl_spec T live" and run: "atom_run T live reg evs cc as"
  shows "length (filter is_call evs) < 2 ^ 32 - 1 \<Longrightarrow>
    \<exists>tr. atom_ok reg evs (live (tokenCache cc)) (live (keyCache cc)) (tokenCounter cc) as tr"
  using run
proof (induction rule: atom_run.induct)
  case (atom_new ttl cc)
  have "live (tokenCache cc) = Map.empty \<and> live (keyCache cc) = Map.empty \<and> tokenCounter cc = 0"
    using ttl_new [OF spec] atom_new(1) by (auto simp: newConfCache_def split: option.splits)
  then show ?case by (intro exI [of _ "[]"]) (simp add: atom_ok_def hist_ok_def waiting_def issued_def)
next
  case (atom_call evs cc as i req)
  then obtain tr where ok: "atom_ok reg evs (live (tokenCache cc)) (live (keyCache cc)) (tokenCounter cc) as tr" by auto
  have "i \<notin> waiting as" using atom_call.hyps by (auto simp: waiting_def)
  then have w: "finite (waiting (as(i := ACalled req)))"
    "length tr + card (waiting (as(i := ACalled req))) = length (filter is_call (evs @ [ECall i req]))"
    using atom_okD(2,3) [OF ok] by (simp_all add: waiting_upd)
  have "atom_ok reg (evs @ [ECall i req]) (live (tokenCache cc)) (live (keyCache cc)) (tokenCounter cc)
      (as(i := ACalled req)) tr"
  proof (rule atom_okI)
    fix j r x
    show "ECall j r \<in> set (evs @ [ECall i req])" if "(as(i := ACalled req)) j = ACalled r"
      using that atom_okD(4) [OF ok, of j r] by (auto split: if_splits)
    show "OSet r x \<in> set tr" if "(as(i := ACalled req)) j = ADone r x"
      using that atom_okD(5) [OF ok, of j r x] by (simp split: if_splits)
    show "\<exists>j. ECall j r \<in> set (evs @ [ECall i req])" if "OSet r x \<in> set tr"
      using atom_okD(7) [OF ok that] by auto
  qed (use atom_okD(1,6,8,9) [OF ok] w in auto)
  then show ?case by blast
next
  case (atom_set evs cc as i req res cc')
  then show ?case using atom_ok_set [OF spec] by blast
next
  case (atom_return evs cc as i req res)
  then obtain tr where ok: "atom_ok reg evs (live (tokenCache cc)) (live (keyCache cc)) (tokenCounter cc) as tr" by auto
  have "i \<notin> waiting as" using atom_return.hyps by (auto simp: waiting_def)
  then have w: "waiting (as(i := AIdle)) = waiting as" by (simp add: waiting_upd)
  have set: "OSet req res \<in> set tr" by (rule atom_okD(5) [OF ok atom_return.hyps(2)])
  have "atom_ok reg (evs @ [EReturn i req res]) (live (tokenCache cc)) (live (keyCache cc)) (tokenCounter cc)
      (as(i := AIdle)) tr"
  proof (rule atom_okI)
    show "finite (waiting (as(i := AIdle)))" unfolding w by (rule atom_okD(2) [OF ok])
    show "length tr + card (waiting (as(i := AIdle))) = length (filter is_call (evs @ [EReturn i req res]))"
      unfolding w using atom_okD(3) [OF ok] by simp
    fix j r x
    show "ECall j r \<in> set (evs @ [EReturn i req res])" if "(as(i := AIdle)) j = ACalled r"
      using that atom_okD(4) [OF ok, of j r] by (simp split: if_splits)
    show "OSet r x \<in> set tr" if "(as(i := AIdle)) j = ADone r x"
      using that atom_okD(5) [OF ok, of j r x] by (simp split: if_splits)
    show "OSet r x \<in> set tr" if "EReturn j r x \<in> set (evs @ [EReturn i req res])"
      using that atom_okD(6) [OF ok, of j r x] set by auto
    show "\<exists>j. ECall j r \<in> set (evs @ [EReturn i req res])" if "OSet r x \<in> set tr"
      using atom_okD(7) [OF ok that] by auto
  qed (use atom_okD(1,8,9) [OF ok] in auto)
  then show ?case by blast
next
  case (atom_get evs cc as i t res cc')
  then obtain tr where tr: "atom_ok reg evs (live (tokenCache cc)) (live (keyCache cc)) (tokenCounter cc) as tr" by auto
  then have h: "hist_ok reg tr (live (tokenCache cc)) (live (keyCache cc)) (tokenCounter cc)" by (simp add: atom_ok_def)
  from ConfCache_Get_live [OF spec, of t cc] atom_get.hyps(3) obtain tc where c: "cc' = cc\<lparr>tokenCache := tc\<rparr>"
    "live tc = live (tokenCache cc)" and r: "res = (case live (tokenCache cc) (token_key t) of
      None \<Rightarrow> Val (Inl ErrNotFound) | Some (CConf c) \<Rightarrow> Val (Inr c) | Some (CToken _) \<Rightarrow> Panic)" by auto
  have "res = Val (Inl ErrNotFound) \<or>
      (\<exists>req c. issued tr req t \<and> parse_confs reg (pqConf req) = Val c \<and> res = Val (Inr c))"
    using r hist_okD(1) [OF h, of t] by (cases "live (tokenCache cc) (token_key t)") auto
  with tr c show ?case by (intro exI [of _ tr]) (auto simp: atom_ok_def)
next
  case (atom_expire evs cc as cc')
  then obtain tr where tr: "atom_ok reg evs (live (tokenCache cc)) (live (keyCache cc)) (tokenCounter cc) as tr" by auto
  with atom_expire.hyps(2) hist_ok_mono show ?case
    by (intro exI [of _ tr]) (auto simp: atom_ok_def expired_def)
qed

subsection \<open>A run of two goroutines\<close>

text \<open>Goroutine 0 calls \<open>Set\<close>, takes the lock, goroutine 1 calls it too and waits, goroutine 0
  goes through all the statements and returns token 1, and \<open>Get\<close> finds the configuration.\<close>

abbreviation sample_reg :: "bytes registry" where
  "sample_reg \<equiv> [(''p'', sample_opts)]"

definition sample_cc :: "u32 \<Rightarrow> (string \<Rightarrow> bytes cache_val option) \<Rightarrow> (string \<Rightarrow> bytes cache_val option) \<Rightarrow>
    (string \<Rightarrow> bytes cache_val option) ConfCache" where
  "sample_cc n tok key = \<lparr>tokenCache = tok, keyCache = key, tokenCounter = n\<rparr>"

definition sample_sys where
  "sample_sys cc l p0 p1 = \<lparr>sysCache = cc, sysLock = l, sysPc = (\<lambda>_. Idle)(0 := p0, 1 := p1)\<rparr>"

lemma sample_twist: "f(Suc 0 := q, 0 := r) = f(0 := r, Suc 0 := q)"
  by (rule fun_upd_twist) simp

lemma sample_key: "go_string_opt (pqKey sample_preq) = ''1''"
  by (simp add: sample_preq_def go_string_opt_def go_string_def char_of_def bit_0)

lemma sample_inside:
  assumes "conc_run T live reg evs (sample_sys cc l p0 p1)" "in_lock p0" "\<And>req res. p0 \<noteq> Leaving req res"
    and "set_stmt T reg p0 cc = (p0', cc')"
  shows "conc_run T live reg evs (sample_sys cc' l p0' p1)"
proof -
  have "set_step T reg 0 (sample_sys cc l p0 p1) = Some (sample_sys cc' l p0' p1)"
    using assms(2-4) by (cases p0) (auto simp: set_step_def sample_sys_def)
  from conc_set [OF assms(1) this] assms(3) show ?thesis
    by (cases p0) (auto simp: step_events_def sample_sys_def)
qed

lemma sample_locked:
  "conc_run map_ttl (\<lambda>s. s) sample_reg [ECall 0 sample_preq, ECall 1 sample_preq]
    (sample_sys (sample_cc 0 Map.empty Map.empty) (Some 0) (Locked sample_preq) (WaitLock sample_preq))"
proof -
  have "newConfCache map_ttl 60 = Some (sample_cc 0 Map.empty Map.empty)"
    by (simp add: newConfCache_def newTTLCache_def map_ttl_def sample_cc_def)
  from conc_new [OF this, where live = "\<lambda>s. s" and reg = sample_reg]
  have "conc_run map_ttl (\<lambda>s. s) sample_reg [] (sample_sys (sample_cc 0 Map.empty Map.empty) None Idle Idle)"
    by (simp add: sample_sys_def fun_upd_idem)
  from conc_call [OF this, of 0 sample_preq]
  have "conc_run map_ttl (\<lambda>s. s) sample_reg [ECall 0 sample_preq]
      (sample_sys (sample_cc 0 Map.empty Map.empty) None (WaitLock sample_preq) Idle)"
    by (simp add: sample_sys_def sample_twist)
  from conc_set [OF this, of 0 "sample_sys (sample_cc 0 Map.empty Map.empty) (Some 0) (Locked sample_preq) Idle"]
  have "conc_run map_ttl (\<lambda>s. s) sample_reg [ECall 0 sample_preq]
      (sample_sys (sample_cc 0 Map.empty Map.empty) (Some 0) (Locked sample_preq) Idle)"
    by (simp add: sample_sys_def set_step_def step_events_def sample_twist)
  from conc_call [OF this, of 1 sample_preq] show ?thesis by (simp add: sample_sys_def)
qed

lemma sample_conc_run:
  "conc_run map_ttl (\<lambda>s. s) sample_reg [ECall 0 sample_preq, ECall 1 sample_preq,
      EReturn 0 sample_preq (Val (Inr 1)), EGet 2 1 (Val (Inr [(''p'', [7])]))]
    (sample_sys (sample_cc 1 [token_key 1 \<mapsto> CConf [(''p'', [7])]] [''1'' \<mapsto> CToken 1]) None Idle (WaitLock sample_preq))"
    (is "conc_run _ _ _ _ ?st")
proof -
  let ?evs = "[ECall 0 sample_preq, ECall 1 sample_preq] :: bytes event list"
  let ?e = "[(''p'', [7])] :: (string \<times> bytes) list" and ?w = "WaitLock sample_preq :: bytes pc"
  note step = sample_inside [where l = "Some 0" and ?p1.0 = ?w and evs = ?evs]
  have "conc_run map_ttl (\<lambda>s. s) sample_reg ?evs (sample_sys (sample_cc 0 Map.empty Map.empty) (Some 0) (Missed sample_preq) ?w)"
    by (rule step [OF sample_locked]) (simp_all add: sample_key map_ttl_def sample_cc_def)
  then have "conc_run map_ttl (\<lambda>s. s) sample_reg ?evs
      (sample_sys (sample_cc 0 Map.empty Map.empty) (Some 0) (Parsed sample_preq ?e) ?w)"
    by (rule step) (simp_all add: sample_parse)
  then have "conc_run map_ttl (\<lambda>s. s) sample_reg ?evs
      (sample_sys (sample_cc 1 Map.empty Map.empty) (Some 0) (Counted sample_preq ?e 1) ?w)"
    by (rule step) (simp_all add: sample_cc_def)
  then have "conc_run map_ttl (\<lambda>s. s) sample_reg ?evs
      (sample_sys (sample_cc 1 [token_key 1 \<mapsto> CConf ?e] Map.empty) (Some 0) (TokenStored sample_preq 1) ?w)"
    by (rule step) (simp_all add: map_ttl_def sample_cc_def)
  then have "conc_run map_ttl (\<lambda>s. s) sample_reg ?evs (sample_sys (sample_cc 1 [token_key 1 \<mapsto> CConf ?e]
      [''1'' \<mapsto> CToken 1]) (Some 0) (Leaving sample_preq (Val (Inr 1))) ?w)"
    by (rule step) (simp_all add: sample_key map_ttl_def sample_cc_def)
  from conc_set [OF this, of 0 ?st]
  have "conc_run map_ttl (\<lambda>s. s) sample_reg (?evs @ [EReturn 0 sample_preq (Val (Inr 1))]) ?st"
    by (simp add: sample_sys_def set_step_def step_events_def sample_twist)
  from conc_get [OF this, of 2 1] show ?thesis
    by (simp add: sample_sys_def sample_cc_def ConfCache_Get_def map_ttl_def)
qed

subsection \<open>Properties\<close>

text \<open>C9: \<open>Set\<close> is atomic.  Whatever the interleaving of the statements of any number of calls of
  \<open>Set\<close> with each other, with calls of \<open>Get\<close> and with expiry, the calls, returns and results are those
  of a run in which every \<open>Set\<close> takes effect in one step between its call and its return.\<close>

theorem ConfCache_linearizable:
  assumes "ttl_spec T live" "conc_run T live reg evs st"
  shows "\<exists>cc as. atom_run T live reg evs cc as \<and> (\<forall>i. as i = acall_of (sysPc st i))"
  using conc_refines_atom [OF assms] by (auto simp: conc_sim_def)

theorem ConfCache_linearizable_witness:
  "\<exists>cc as. atom_run map_ttl (\<lambda>s. s) sample_reg [ECall 0 sample_preq, ECall 1 sample_preq,
      EReturn 0 sample_preq (Val (Inr 1)), EGet 2 1 (Val (Inr [(''p'', [7])]))] cc as \<and>
    as 0 = AIdle \<and> as 1 = ACalled sample_preq"
  using ConfCache_linearizable [OF map_ttl_spec sample_conc_run]
proof (elim exE conjE)
  fix cc as
  let ?evs = "[ECall 0 sample_preq, ECall 1 sample_preq, EReturn 0 sample_preq (Val (Inr 1)),
    EGet 2 1 (Val (Inr [(''p'', [7])]))] :: bytes event list"
  assume run: "atom_run map_ttl (\<lambda>s. s) sample_reg ?evs cc as"
    and as: "\<forall>i. as i = acall_of (sysPc (sample_sys (sample_cc 1 [token_key 1 \<mapsto> CConf [(''p'', [7])]]
      [''1'' \<mapsto> CToken 1]) None Idle (WaitLock sample_preq)) i)"
  have "as 0 = AIdle" "as 1 = ACalled sample_preq"
    using as [THEN spec, of 0] as [THEN spec, of 1] by (simp_all add: sample_sys_def)
  with run show ?thesis by (intro exI conjI)
qed

text \<open>C21: the mutex.  At any moment at most one goroutine is between the lock and the unlock of
  \<open>Set\<close>; when one is, at most six of its own steps release the lock and bring it to its return, also after a panic;
  and as long as some call is not finished some goroutine can go on.\<close>

theorem ConfCache_lock:
  assumes "conc_run T live reg evs st"
  shows "(\<forall>i j. in_lock (sysPc st i) \<and> in_lock (sysPc st j) \<longrightarrow> i = j) \<and>
    (\<forall>i. in_lock (sysPc st i) \<longrightarrow> (\<exists>k \<le> 6. \<exists>st'. run_set T reg i k st = Some st' \<and> sysLock st' = None \<and>
       sysPc st' i = Idle \<and> (\<forall>j. j \<noteq> i \<longrightarrow> sysPc st' j = sysPc st j))) \<and>
    ((\<exists>i. sysPc st i \<noteq> Idle) \<longrightarrow> (\<exists>j. set_step T reg j st \<noteq> None))"
proof -
  have ok: "lock_ok st" by (rule conc_lock_ok [OF assms])
  have "\<exists>k \<le> 6. \<exists>st'. run_set T reg i k st = Some st' \<and> sysLock st' = None \<and> sysPc st' i = Idle \<and>
      (\<forall>j. j \<noteq> i \<longrightarrow> sysPc st' j = sysPc st j)" if "in_lock (sysPc st i)" for i
  proof -
    have "sysLock st = Some i" using ok that by (simp add: lock_ok_def)
    from lock_released [OF ok this] lock_rank_le show ?thesis by (meson le_trans)
  qed
  moreover have "i = j" if "in_lock (sysPc st i)" "in_lock (sysPc st j)" for i j
    using ok that by (auto simp: lock_ok_def)
  ultimately show ?thesis using set_step_enabled [OF ok] by blast
qed

theorem ConfCache_lock_witness:
  "\<exists>k \<le> 6. \<exists>st'. run_set map_ttl sample_reg 0 k (sample_sys (sample_cc 0 Map.empty Map.empty) (Some 0)
      (Locked sample_preq) (WaitLock sample_preq)) = Some st' \<and> sysLock st' = None \<and>
    sysPc st' 0 = Idle \<and> sysPc st' 1 = WaitLock sample_preq"
proof -
  let ?st = "sample_sys (sample_cc 0 Map.empty Map.empty) (Some 0) (Locked sample_preq) (WaitLock sample_preq)"
  have "in_lock (sysPc ?st 0)" by (simp add: sample_sys_def)
  with ConfCache_lock [OF sample_locked, THEN conjunct2, THEN conjunct1]
  obtain k st' where "k \<le> 6" "run_set map_ttl sample_reg 0 k ?st = Some st'" "sysLock st' = None"
    "sysPc st' 0 = Idle" and j: "\<forall>j. j \<noteq> 0 \<longrightarrow> sysPc st' j = sysPc ?st j" by blast
  moreover have "sysPc st' 1 = WaitLock sample_preq" using j by (simp add: sample_sys_def)
  ultimately show ?thesis by blast
qed

text \<open>C5: tokens under concurrency.  In every interleaving with fewer than \<open>2 ^ 32 - 1\<close> calls, calls
  that return the same token had the same key; \<open>Get\<close> finds nothing, or the configuration of a
  request that some call was made with and whose key is that of every request the token was
  returned to; and a call of \<open>Set\<close> returns a token unless a plugin's \<open>ParseConf\<close> panics.\<close>

theorem ConfCache_concurrent_tokens:
  assumes "ttl_spec T live" "conc_run T live reg evs st" "length (filter is_call evs) < 2 ^ 32 - 1"
  shows "(\<forall>i j req req' t. EReturn i req (Val (Inr t)) \<in> set evs \<and> EReturn j req' (Val (Inr t)) \<in> set evs \<longrightarrow>
      go_string_opt (pqKey req) = go_string_opt (pqKey req')) \<and>
    (\<forall>i t res. EGet i t res \<in> set evs \<longrightarrow> res = Val (Inl ErrNotFound) \<or>
      (\<exists>j req c. ECall j req \<in> set evs \<and> parse_confs reg (pqConf req) = Val c \<and> res = Val (Inr c) \<and>
        (\<forall>k req'. EReturn k req' (Val (Inr t)) \<in> set evs \<longrightarrow>
          go_string_opt (pqKey req') = go_string_opt (pqKey req)))) \<and>
    (\<forall>i req res. EReturn i req res \<in> set evs \<longrightarrow>
      (\<exists>t. res = Val (Inr t)) \<or> res = Panic \<and> parse_confs reg (pqConf req) = Panic)"
proof -
  from conc_refines_atom [OF assms(1,2)] obtain a as where run: "atom_run T live reg evs a as" by blast
  from atom_run_ok [OF assms(1) run assms(3)] obtain tr where
    ok: "atom_ok reg evs (live (tokenCache a)) (live (keyCache a)) (tokenCounter a) as tr" by blast
  then have h: "hist_ok reg tr (live (tokenCache a)) (live (keyCache a)) (tokenCounter a)" by (simp add: atom_ok_def)
  have ret: "OSet req res \<in> set tr" if "EReturn i req res \<in> set evs" for i req res using ok that by (simp add: atom_ok_def)
  have call: "\<exists>i. ECall i req \<in> set evs" if "OSet req res \<in> set tr" for req res using ok that by (simp add: atom_ok_def)
  have same: "go_string_opt (pqKey req') = go_string_opt (pqKey req)"
    if "EReturn k req' (Val (Inr t)) \<in> set evs" "issued tr req t" for k req req' t
    using hist_okD(4) [OF h, of req' t req] ret [OF that(1)] that(2) by (simp add: issued_def)
  have get: "\<exists>j req c. ECall j req \<in> set evs \<and> parse_confs reg (pqConf req) = Val c \<and> res = Val (Inr c) \<and>
        (\<forall>k req'. EReturn k req' (Val (Inr t)) \<in> set evs \<longrightarrow> go_string_opt (pqKey req') = go_string_opt (pqKey req))"
    if "EGet i t res \<in> set evs" "res \<noteq> Val (Inl ErrNotFound)" for i t res
  proof -
    from ok that obtain req c where r: "issued tr req t" "parse_confs reg (pqConf req) = Val c" "res = Val (Inr c)"
      unfolding atom_ok_def by blast
    from r(1) call obtain j where "ECall j req \<in> set evs" by (auto simp: issued_def)
    with r same show ?thesis by blast
  qed
  have "(\<exists>t. res = Val (Inr t)) \<or> res = Panic \<and> parse_confs reg (pqConf req) = Panic"
    if "EReturn i req res \<in> set evs" for i req res using ok ret [OF that] unfolding atom_ok_def by blast
  moreover have "go_string_opt (pqKey req) = go_string_opt (pqKey req')"
    if "EReturn i req (Val (Inr t)) \<in> set evs" "EReturn j req' (Val (Inr t)) \<in> set evs" for i j req req' t
    using same [OF that(1)] ret [OF that(2)] by (simp add: issued_def)
  ultimately show ?thesis using get by blast
qed

theorem ConfCache_concurrent_tokens_witness:
  "\<exists>st evs. conc_run map_ttl (\<lambda>s. s) sample_reg evs st \<and> EGet 2 1 (Val (Inr [(''p'', [7])])) \<in> set evs \<and>
    (\<exists>j req. ECall j req \<in> set evs \<and> parse_confs sample_reg (pqConf req) = Val [(''p'', [7])] \<and>
      (\<forall>k req'. EReturn k req' (Val (Inr 1)) \<in> set evs \<longrightarrow>
        go_string_opt (pqKey req') = go_string_opt (pqKey req)))"
proof -
  let ?evs = "[ECall 0 sample_preq, ECall 1 sample_preq, EReturn 0 sample_preq (Val (Inr 1)),
    EGet 2 1 (Val (Inr [(''p'', [7])]))] :: bytes event list"
  have g: "EGet 2 1 (Val (Inr [(''p'', [7])])) \<in> set ?evs" by simp
  have n: "length (filter is_call ?evs) < 2 ^ 32 - 1" by simp
  note w = ConfCache_concurrent_tokens [OF map_ttl_spec sample_conc_run n, THEN conjunct2, THEN conjunct1,
    THEN spec, THEN spec, THEN spec, THEN mp, OF g]
  then obtain j req where "ECall j req \<in> set ?evs" "parse_confs sample_reg (pqConf req) = Val [(''p'', [7])]"
    "\<forall>k req'. EReturn k req' (Val (Inr 1)) \<in> set ?evs \<longrightarrow>
        go_string_opt (pqKey req') = go_string_opt (pqKey req)" by (elim disjE exE conjE) simp_all
  with sample_conc_run g show ?thesis by (intro exI conjI)
qed

end
