(* ===== verification/Pool_Blind.thy ===== *)
theory Pool_Blind
  imports Server
begin

section \<open>The shared pools cannot be observed\<close>

text \<open>
  The pools of requests, responses and builders (\<open>sync.Pool\<close>) are shared by all goroutines.  What
  they hold when a handler runs, and which object they hand out, depends on the other goroutines
  and on the garbage collector.  This theory shows that it does not matter: two runners with the
  same connection, cache and numbering of contexts, but with any clean pools and any oracle,
  dispatch a request alike.

  \<open>io_same\<close> relates the parts of the state that foreign code sees; \<open>req_same\<close> and \<open>resp_same\<close> the
  states of a filter.  They are relations in the sense of the contract \<open>api_relation\<close>, so every
  filter, and every chain of filters (\<open>chain_rel\<close>), keeps them.
\<close>

subsection \<open>Builders and questions\<close>

definition io_same :: "io \<Rightarrow> io \<Rightarrow> bool" where
  "io_same s t \<longleftrightarrow> ioConn t = ioConn s \<and> ioNextCtx t = ioNextCtx s \<and>
     builder_pool.pool_ok (ioBuilders s) \<and> builder_pool.pool_ok (ioBuilders t)"

lemma clean_builder: "builder_clean b \<Longrightarrow> b = NewBuilder"
  by (cases b) (simp add: builder_clean_def NewBuilder_def)

lemma GetBuilder_new:
  assumes "builder_pool.pool_ok (ioBuilders s)" "GetBuilder s = (b, s')"
  shows "b = NewBuilder"
proof -
  from assms(2) obtain p ps where "Pool_Get NewBuilder (ioBuilders s) (ioPicks s) = (b, p, ps)"
    by (auto simp: GetBuilder_def split: prod.splits)
  from builder_pool.Get_clean [OF assms(1) this] show ?thesis by (blast intro: clean_builder)
qed

lemma GetBuilder_same:
  assumes "io_same s t" "GetBuilder s = (b, s')"
  shows "\<exists>t'. GetBuilder t = (b, t') \<and> io_same s' t'"
proof -
  obtain b2 t' where t: "GetBuilder t = (b2, t')" by (cases "GetBuilder t")
  have "b = NewBuilder" "b2 = NewBuilder"
    using GetBuilder_new [OF _ assms(2)] GetBuilder_new [OF _ t] assms(1) by (simp_all add: io_same_def)
  with assms t GetBuilder_frame [OF assms(2)] GetBuilder_frame [OF t]
    io_frame_GetBuilder [OF assms(2)] io_frame_GetBuilder [OF t] show ?thesis
    by (auto simp: io_same_def io_frame_def)
qed

lemma PutBuilder_same: "io_same s t \<Longrightarrow> io_same (PutBuilder b s) (PutBuilder b' t)"
  by (simp add: io_same_def PutBuilder_def builder_pool.Put_ok)

lemma askExtraInfo_same:
  assumes "io_same s t" "askExtraInfo cd bound h bd info s = (res, h', bd', s')"
  shows "\<exists>t'. askExtraInfo cd bound h bd info t = (res, h', bd', t') \<and> io_same s' t'"
proof -
  have c: "ioConn t = ioConn s" using assms(1) by (simp add: io_same_def)
  have u: "io_same (s\<lparr>ioConn := c\<rparr>) (t\<lparr>ioConn := c\<rparr>)" for c using assms(1) by (simp add: io_same_def)
  show ?thesis
    using assms u unfolding askExtraInfo_def Let_def c
    by (auto split: prod.splits option.splits if_splits rt.splits)
qed

lemma Request_ask_same:
  assumes "io_same s t" "Request_askExtraInfo cd bd info r s = (res, bd', r', s')"
  shows "\<exists>t'. Request_askExtraInfo cd bd info r t = (res, bd', r', t') \<and> io_same s' t'"
  using assms(2) askExtraInfo_same [OF assms(1)]
  by (fastforce simp: Request_askExtraInfo_def split: prod.splits)

lemma Response_ask_same:
  assumes "io_same s t" "Response_askExtraInfo cd bd info r s = (res, bd', r', s')"
  shows "\<exists>t'. Response_askExtraInfo cd bd info r t = (res, bd', r', t') \<and> io_same s' t'"
  using assms(2) askExtraInfo_same [OF assms(1)]
  by (fastforce simp: Response_askExtraInfo_def split: prod.splits)

text \<open>A method with I/O that does not see the pools.\<close>

definition same_io :: "('r \<Rightarrow> io \<Rightarrow> (go_error + bytes option) rt \<times> 'r \<times> io) \<Rightarrow> bool" where
  "same_io f \<longleftrightarrow> (\<forall>r s t v r' s'. io_same s t \<longrightarrow> f r s = (v, r', s') \<longrightarrow>
     (\<exists>t'. f r t = (v, r', t') \<and> io_same s' t'))"

lemma same_io_ask:
  assumes "io_same s t"
    and "\<And>bd s1 t1 res bd' r' s2. GetBuilder s = (bd, s1) \<Longrightarrow> GetBuilder t = (bd, t1) \<Longrightarrow>
      ask bd s1 = (res, bd', r', s2) \<Longrightarrow> io_same s1 t1 \<Longrightarrow> \<exists>t2. ask bd t1 = (res, bd', r', t2) \<and> io_same s2 t2"
  obtains bd s1 t1 res bd' r' s2 t2 where "GetBuilder s = (bd, s1)" "GetBuilder t = (bd, t1)"
    "ask bd s1 = (res, bd', r', s2)" "ask bd t1 = (res, bd', r', t2)" "io_same s2 t2"
proof -
  obtain bd s1 where g: "GetBuilder s = (bd, s1)" by (cases "GetBuilder s")
  obtain res bd' r' s2 where a: "ask bd s1 = (res, bd', r', s2)" by (cases "ask bd s1")
  from GetBuilder_same [OF assms(1) g] obtain t1 where t1: "GetBuilder t = (bd, t1)" "io_same s1 t1" by blast
  from assms(2) [OF g t1(1) a t1(2)] obtain t2 where "ask bd t1 = (res, bd', r', t2)" "io_same s2 t2" by blast
  with g t1 a show ?thesis using that by blast
qed

lemma same_io_Var: "same_io (Request_Var cd name)"
  unfolding same_io_def
proof (intro allI impI)
  fix r s t v r' s' assume st: "io_same s t" and u: "Request_Var cd name r s = (v, r', s')"
  let ?m = "case reqVars r of None \<Rightarrow> [] | Some m \<Rightarrow> m"
  let ?r0 = "r\<lparr>reqVars := Some ?m\<rparr>"
  obtain bd s1 t1 res bd' r1 s2 t2 where g: "GetBuilder s = (bd, s1)" "GetBuilder t = (bd, t1)"
    "Request_askExtraInfo cd bd (InfoVar name) ?r0 s1 = (res, bd', r1, s2)"
    "Request_askExtraInfo cd bd (InfoVar name) ?r0 t1 = (res, bd', r1, t2)" "io_same s2 t2"
    by (rule same_io_ask [OF st, where ask = "\<lambda>bd s. Request_askExtraInfo cd bd (InfoVar name) ?r0 s"])
      (rule Request_ask_same)
  show "\<exists>t'. Request_Var cd name r t = (v, r', t') \<and> io_same s' t'"
    using u g(5) st PutBuilder_same [OF g(5)] unfolding Request_Var_def Let_def g(1,2) prod.case g(3,4)
    by (auto split: option.splits rt.splits sum.splits)
qed

lemma same_io_Body: "same_io (Request_Body cd)"
  unfolding same_io_def
proof (intro allI impI)
  fix r s t v r' s' assume st: "io_same s t" and u: "Request_Body cd r s = (v, r', s')"
  obtain bd s1 t1 res bd' r1 s2 t2 where g: "GetBuilder s = (bd, s1)" "GetBuilder t = (bd, t1)"
    "Request_askExtraInfo cd bd InfoReqBody r s1 = (res, bd', r1, s2)"
    "Request_askExtraInfo cd bd InfoReqBody r t1 = (res, bd', r1, t2)" "io_same s2 t2"
    by (rule same_io_ask [OF st, where ask = "\<lambda>bd s. Request_askExtraInfo cd bd InfoReqBody r s"])
      (rule Request_ask_same)
  show "\<exists>t'. Request_Body cd r t = (v, r', t') \<and> io_same s' t'"
    using u g(5) st unfolding Request_Body_def Let_def g(1,2) prod.case g(3,4)
    by (auto split: option.splits list.splits rt.splits sum.splits)
qed

lemma same_io_resp_Var: "same_io (Response_Var cd name)"
  unfolding same_io_def
proof (intro allI impI)
  fix r s t v r' s' assume st: "io_same s t" and u: "Response_Var cd name r s = (v, r', s')"
  let ?m = "case respVars r of None \<Rightarrow> [] | Some m \<Rightarrow> m"
  let ?r0 = "r\<lparr>respVars := Some ?m\<rparr>"
  obtain bd s1 t1 res bd' r1 s2 t2 where g: "GetBuilder s = (bd, s1)" "GetBuilder t = (bd, t1)"
    "Response_askExtraInfo cd bd (InfoVar name) ?r0 s1 = (res, bd', r1, s2)"
    "Response_askExtraInfo cd bd (InfoVar name) ?r0 t1 = (res, bd', r1, t2)" "io_same s2 t2"
    by (rule same_io_ask [OF st, where ask = "\<lambda>bd s. Response_askExtraInfo cd bd (InfoVar name) ?r0 s"])
      (rule Response_ask_same)
  show "\<exists>t'. Response_Var cd name r t = (v, r', t') \<and> io_same s' t'"
    using u g(5) st PutBuilder_same [OF g(5)] unfolding Response_Var_def Let_def g(1,2) prod.case g(3,4)
    by (auto split: option.splits rt.splits sum.splits)
qed

lemma same_io_ReadBody: "same_io (Response_ReadBody cd)"
  unfolding same_io_def
proof (intro allI impI)
  fix r s t v r' s' assume st: "io_same s t" and u: "Response_ReadBody cd r s = (v, r', s')"
  obtain bd s1 t1 res bd' r1 s2 t2 where g: "GetBuilder s = (bd, s1)" "GetBuilder t = (bd, t1)"
    "Response_askExtraInfo cd bd InfoRespBody r s1 = (res, bd', r1, s2)"
    "Response_askExtraInfo cd bd InfoRespBody r t1 = (res, bd', r1, t2)" "io_same s2 t2"
    by (rule same_io_ask [OF st, where ask = "\<lambda>bd s. Response_askExtraInfo cd bd InfoRespBody r s"])
      (rule Response_ask_same)
  show "\<exists>t'. Response_ReadBody cd r t = (v, r', t') \<and> io_same s' t'"
    using u g(5) st PutBuilder_same [OF g(5)] unfolding Response_ReadBody_def Let_def g(1,2) prod.case g(3,4)
    by (auto split: option.splits list.splits rt.splits sum.splits)
qed

subsection \<open>Filters\<close>

definition req_same :: "req_state \<Rightarrow> req_state \<Rightarrow> bool" where
  "req_same st st' \<longleftrightarrow> fst st' = fst st \<and> fst (snd st') = fst (snd st) \<and> io_same (snd (snd st)) (snd (snd st'))"

definition resp_same :: "resp_state \<Rightarrow> resp_state \<Rightarrow> bool" where
  "resp_same st st' \<longleftrightarrow> fst st' = fst st \<and> io_same (snd st) (snd st')"

lemma exec_req_same:
  "(\<exists>f. exec_req cd ro c = on_r f) \<or> (\<exists>f. exec_req cd ro c = on_w f) \<or>
   (\<exists>f. exec_req cd ro c = on_io f \<and> same_io f)"
  by (cases c; simp only: exec_req.simps;
      (rule disjI1, rule exI, rule refl
       | rule disjI2, rule disjI1, rule exI, rule refl
       | rule disjI2, rule disjI2, rule exI, rule conjI, rule refl, (rule same_io_Var same_io_Body)))

lemma exec_resp_same:
  "(\<exists>f. exec_resp cd c = on_resp f) \<or> (\<exists>f. exec_resp cd c = on_resp_io f \<and> same_io f)"
  by (cases c; simp only: exec_resp.simps;
      (rule disjI1, rule exI, rule refl
       | rule disjI2, rule exI, rule conjI, rule refl, (rule same_io_resp_Var same_io_ReadBody)))

lemma on_r_same:
  assumes "req_same st st'" "on_r f st = (v, st1)"
  shows "\<exists>st1'. on_r f st' = (v, st1') \<and> req_same st1 st1'"
  using assms by (cases st; cases st') (auto simp: on_r_def req_same_def split: prod.splits)

lemma on_w_same:
  assumes "req_same st st'" "on_w f st = (v, st1)"
  shows "\<exists>st1'. on_w f st' = (v, st1') \<and> req_same st1 st1'"
  using assms by (cases st; cases st') (auto simp: on_w_def req_same_def split: prod.splits)

lemma on_io_same:
  assumes "same_io f" "req_same st st'" "on_io f st = (v, st1)"
  shows "\<exists>st1'. on_io f st' = (v, st1') \<and> req_same st1 st1'"
proof -
  obtain w r s where st: "st = (w, r, s)" by (cases st)
  with assms(2) obtain t where st': "st' = (w, r, t)" "io_same s t" by (cases st') (auto simp: req_same_def)
  obtain x r1 s1 where r: "f r s = (x, r1, s1)" by (cases "f r s")
  from assms(1) [unfolded same_io_def, rule_format, OF st'(2) r] obtain t1 where
    "f r t = (x, r1, t1)" "io_same s1 t1" by blast
  with r st st' assms(3) show ?thesis by (auto simp: on_io_def req_same_def)
qed

lemma on_resp_same:
  assumes "resp_same st st'" "on_resp f st = (v, st1)"
  shows "\<exists>st1'. on_resp f st' = (v, st1') \<and> resp_same st1 st1'"
  using assms by (cases st; cases st') (auto simp: on_resp_def resp_same_def split: prod.splits)

lemma on_resp_io_same:
  assumes "same_io f" "resp_same st st'" "on_resp_io f st = (v, st1)"
  shows "\<exists>st1'. on_resp_io f st' = (v, st1') \<and> resp_same st1 st1'"
proof -
  obtain r s where st: "st = (r, s)" by (cases st)
  with assms(2) obtain t where st': "st' = (r, t)" "io_same s t" by (cases st') (auto simp: resp_same_def)
  obtain x r1 s1 where r: "f r s = (x, r1, s1)" by (cases "f r s")
  from assms(1) [unfolded same_io_def, rule_format, OF st'(2) r] obtain t1 where
    "f r t = (x, r1, t1)" "io_same s1 t1" by blast
  with r st st' assms(3) show ?thesis by (auto simp: on_resp_io_def resp_same_def)
qed

interpretation request_same: api_relation "exec_req cd ro" req_same for cd ro
proof
  fix st st' :: req_state and c v st1
  assume "req_same st st'" "exec_req cd ro c st = (v, st1)"
  then show "\<exists>t'. exec_req cd ro c st' = (v, t') \<and> req_same st1 t'"
    using exec_req_same [of cd ro c] by (elim disjE exE conjE) (metis on_r_same on_w_same on_io_same)+
qed

interpretation response_same: api_relation "exec_resp cd" resp_same for cd
proof
  fix st st' :: resp_state and c v st1
  assume "resp_same st st'" "exec_resp cd c st = (v, st1)"
  then show "\<exists>t'. exec_resp cd c st' = (v, t') \<and> resp_same st1 t'"
    using exec_resp_same [of cd c] by (elim disjE exE conjE) (metis on_resp_same on_resp_io_same)+
qed

lemma requestPhase_filter_same:
  assumes "req_same st st'" "requestPhase_filter cd ro reg conf st = (res, st1)"
  shows "\<exists>st1'. requestPhase_filter cd ro reg conf st' = (res, st1') \<and> req_same st1 st1'"
  by (rule request_chain.chain_rel [where R = req_same, OF _ _ assms])
    (unfold run_req_def, erule (1) request_same.run_rel, simp add: req_same_def)

lemma responsePhase_filter_same:
  assumes "resp_same st st'" "responsePhase_filter cd reg conf st = (res, st1)"
  shows "\<exists>st1'. responsePhase_filter cd reg conf st' = (res, st1') \<and> resp_same st1 st1'"
  by (rule response_chain.chain_rel [where R = resp_same, OF _ _ assms])
    (unfold run_resp_def, erule (1) response_same.run_rel, simp add: resp_same_def)

subsection \<open>Handlers\<close>

lemma requestPhase_builder_same:
  assumes "io_same s t" "requestPhase_builder ro rid w r s = (res, s')"
  shows "\<exists>t'. requestPhase_builder ro rid w r t = (res, t') \<and> io_same s' t'"
proof -
  obtain bd s1 where g: "GetBuilder s = (bd, s1)" by (cases "GetBuilder s")
  from GetBuilder_same [OF assms(1) g] obtain t1 where "GetBuilder t = (bd, t1)" "io_same s1 t1" by blast
  with assms(2) show ?thesis unfolding requestPhase_builder_def g Let_def
    by (auto split: prod.splits if_splits rt.splits bool.splits)
qed

lemma responsePhase_builder_same:
  assumes "io_same s t" "responsePhase_builder ro rid r s = (res, s')"
  shows "\<exists>t'. responsePhase_builder ro rid r t = (res, t') \<and> io_same s' t'"
proof -
  obtain bd s1 where g: "GetBuilder s = (bd, s1)" by (cases "GetBuilder s")
  from GetBuilder_same [OF assms(1) g] obtain t1 where "GetBuilder t = (bd, t1)" "io_same s1 t1" by blast
  with assms(2) show ?thesis unfolding responsePhase_builder_def g Let_def
    by (auto split: prod.splits if_splits rt.splits bool.splits)
qed

lemma reqCall_finish_same:
  assumes "req_same st st'" "reqCall_finish ro f st = (res, st1)"
  shows "\<exists>st1'. reqCall_finish ro f st' = (res, st1') \<and> req_same st1 st1'"
proof -
  obtain w r s where st: "st = (w, r, s)" by (cases st)
  with assms(1) obtain t where st': "st' = (w, r, t)" "io_same s t" by (cases st') (auto simp: req_same_def)
  have b: "\<exists>t'. requestPhase_builder ro n (Some w) (Some r) t = (x, t') \<and> io_same s' t'"
    if "requestPhase_builder ro n (Some w) (Some r) s = (x, s')" for n x s'
    using requestPhase_builder_same [OF st'(2) that] .
  from assms(2) st'(2) show ?thesis unfolding reqCall_finish_def st st'(1) prod.case
    by (auto simp: req_same_def split: rt.splits option.splits prod.splits dest!: b)
qed

lemma respCall_finish_same:
  assumes "resp_same st st'" "respCall_finish ro f st = (res, st1)"
  shows "\<exists>st1'. respCall_finish ro f st' = (res, st1') \<and> resp_same st1 st1'"
proof -
  obtain r s where st: "st = (r, s)" by (cases st)
  with assms(1) obtain t where st': "st' = (r, t)" "io_same s t" by (cases st') (auto simp: resp_same_def)
  have b: "\<exists>t'. responsePhase_builder ro n (Some r) t = (x, t') \<and> io_same s' t'"
    if "responsePhase_builder ro n (Some r) s = (x, s')" for n x s'
    using responsePhase_builder_same [OF st'(2) that] .
  from assms(2) st'(2) show ?thesis unfolding respCall_finish_def st st'(1) prod.case
    by (auto simp: resp_same_def split: rt.splits option.splits prod.splits dest!: b)
qed

lemma reqCall_main_same:
  assumes rel: "req_same st st'" and m: "reqCall_main cd ro T reg st cc = (res, st1, cc1)"
  shows "\<exists>st1'. reqCall_main cd ro T reg st' cc = (res, st1', cc1) \<and> req_same st1 st1'"
proof -
  have tok: "fst (snd st') = fst (snd st)" using rel by (simp add: req_same_def)
  have run: "\<exists>u2'. reqCall_finish ro f u' = (x, u2') \<and> requestPhase_filter cd ro reg conf st' = (f, u') \<and>
      req_same u2 u2'" if "requestPhase_filter cd ro reg conf st = (f, u)" "reqCall_finish ro f u = (x, u2)"
      "requestPhase_filter cd ro reg conf st' = (f', u')" for conf f u f' u' x u2
    using requestPhase_filter_same [OF rel that(1)] reqCall_finish_same [OF _ that(2), of u'] that(3) by auto
  show ?thesis
    using m rel unfolding reqCall_main_def tok Let_def
    by (cases st') (auto split: rt.splits sum.splits prod.splits dest: run)
qed

lemma respCall_main_same:
  assumes rel: "resp_same st st'" and m: "respCall_main cd ro T reg st cc = (res, st1, cc1)"
  shows "\<exists>st1'. respCall_main cd ro T reg st' cc = (res, st1', cc1) \<and> resp_same st1 st1'"
proof -
  have tok: "fst st' = fst st" using rel by (simp add: resp_same_def)
  have run: "\<exists>u2'. respCall_finish ro f u' = (x, u2') \<and> responsePhase_filter cd reg conf st' = (f, u') \<and>
      resp_same u2 u2'" if "responsePhase_filter cd reg conf st = (f, u)" "respCall_finish ro f u = (x, u2)"
      "responsePhase_filter cd reg conf st' = (f', u')" for conf f u f' u' x u2
    using responsePhase_filter_same [OF rel that(1)] respCall_finish_same [OF _ that(2), of u'] that(3) by auto
  show ?thesis
    using m rel unfolding respCall_main_def tok Let_def
    by (cases st') (auto split: rt.splits sum.splits prod.splits dest: run)
qed

text \<open>Runners that differ in the pools, their oracle and the record of cancelled contexts only.\<close>

definition runner_same :: "'k runner \<Rightarrow> 'k runner \<Rightarrow> bool" where
  "runner_same rn rn' \<longleftrightarrow> rnCache rn' = rnCache rn \<and> io_same (rnIo rn) (rnIo rn') \<and> pools_ok rn \<and> pools_ok rn'"

lemma runner_sameD:
  assumes "runner_same rn rn'"
  shows "rnCache rn' = rnCache rn" "io_same (rnIo rn) (rnIo rn')" "pools_ok rn" "pools_ok rn'"
    "ioConn (rnIo rn') = ioConn (rnIo rn)"
  using assms by (simp_all add: runner_same_def io_same_def)

lemma runner_same_io:
  "runner_same rn rn' \<Longrightarrow> io_same s t \<Longrightarrow> runner_same (rn\<lparr>rnIo := s\<rparr>) (rn'\<lparr>rnIo := t\<rparr>)"
  by (simp add: runner_same_def io_same_def pools_ok_def)

lemma runner_same_cache:
  "runner_same rn rn' \<Longrightarrow> runner_same (rn\<lparr>rnCache := cc\<rparr>) (rn'\<lparr>rnCache := cc\<rparr>)"
  by (simp add: runner_same_def pools_ok_def)

lemma runner_same_conn: "runner_same rn rn' \<Longrightarrow> runner_same (set_conn c rn) (set_conn c rn')"
  unfolding set_conn_def by (rule runner_same_io) (simp_all add: runner_same_def io_same_def)

lemma req_start_same: "io_same s t \<Longrightarrow> req_same (req_start q s) (req_start q t)"
  by (simp add: req_same_def req_start_def io_same_def)

lemma resp_start_same: "io_same s t \<Longrightarrow> resp_same (resp_start q s) (resp_start q t)"
  by (simp add: resp_same_def resp_start_def io_same_def)

lemma HTTPReqCall_same:
  assumes rel: "runner_same rn rn'" and h: "HTTPReqCall cd ro T reg buf rn = (res, rn1)"
  shows "\<exists>rn1'. HTTPReqCall cd ro T reg buf rn' = (res, rn1') \<and> runner_same rn1 rn1'"
proof (cases "GetRootAsHTTPReqCall cd buf")
  case (Val q)
  note io = runner_sameD(2) [OF rel]
  obtain m w r s cc where main: "reqCall_main cd ro T reg (req_start q (rnIo rn)) (rnCache rn) = (m, (w, r, s), cc)"
    by (cases "reqCall_main cd ro T reg (req_start q (rnIo rn)) (rnCache rn)") auto
  from reqCall_main_same [OF req_start_same [OF io] main] obtain t where
    main': "reqCall_main cd ro T reg (req_start q (rnIo rn')) (rnCache rn') = (m, (w, r, t), cc)" "io_same s t"
    by (auto simp: req_same_def runner_sameD(1) [OF rel])
  from HTTPReqCall_fresh [OF runner_sameD(3) [OF rel] Val main] h have
    a: "m = res" "rnCache rn1 = cc" "pools_ok rn1" "ioConn (rnIo rn1) = ioConn s" "ioNextCtx (rnIo rn1) = ioNextCtx s"
    by auto
  from HTTPReqCall_fresh [OF runner_sameD(4) [OF rel] Val main'(1)] obtain rn1' where
    b: "HTTPReqCall cd ro T reg buf rn' = (m, rn1')" "rnCache rn1' = cc" "pools_ok rn1'"
    "ioConn (rnIo rn1') = ioConn t" "ioNextCtx (rnIo rn1') = ioNextCtx t" by auto
  from a b main'(2) show ?thesis by (simp add: runner_same_def io_same_def pools_ok_def)
next
  case Panic
  obtain res' rn1' where h': "HTTPReqCall cd ro T reg buf rn' = (res', rn1')" by (cases "HTTPReqCall cd ro T reg buf rn'")
  have p: "x = Panic \<and> pools_ok u \<and> rnCache u = rnCache v \<and> ioConn (rnIo u) = ioConn (rnIo v) \<and>
      ioNextCtx (rnIo u) = ioNextCtx (rnIo v)"
    if hh: "HTTPReqCall cd ro T reg buf v = (x, u)" "pools_ok v" for v u :: "'a runner" and x
  proof -
    obtain r pool' picks where g: "Pool_Get newRequest (rnReqs v) (ioPicks (rnIo v)) = (r, pool', picks)"
      by (cases "Pool_Get newRequest (rnReqs v) (ioPicks (rnIo v))") auto
    with Panic hh(1) have "x = Panic" "u = v\<lparr>rnReqs := pool', rnIo := (rnIo v)\<lparr>ioPicks := picks\<rparr>\<rparr>"
      by (auto simp: HTTPReqCall_def CreateRequest_def Let_def)
    with hh(2) request_pool.Get_clean [OF _ g] show ?thesis by (simp add: pools_ok_def)
  qed
  from p [OF h runner_sameD(3) [OF rel]] p [OF h' runner_sameD(4) [OF rel]] h' rel show ?thesis
    by (simp add: runner_same_def io_same_def pools_ok_def)
qed

lemma HTTPRespCall_same:
  assumes rel: "runner_same rn rn'" and h: "HTTPRespCall cd ro T reg buf rn = (res, rn1)"
  shows "\<exists>rn1'. HTTPRespCall cd ro T reg buf rn' = (res, rn1') \<and> runner_same rn1 rn1'"
proof (cases "GetRootAsHTTPRespCall cd buf")
  case (Val q)
  note io = runner_sameD(2) [OF rel]
  obtain m r s cc where main: "respCall_main cd ro T reg (resp_start q (rnIo rn)) (rnCache rn) = (m, (r, s), cc)"
    by (cases "respCall_main cd ro T reg (resp_start q (rnIo rn)) (rnCache rn)") auto
  from respCall_main_same [OF resp_start_same [OF io] main] obtain t where
    main': "respCall_main cd ro T reg (resp_start q (rnIo rn')) (rnCache rn') = (m, (r, t), cc)" "io_same s t"
    by (auto simp: resp_same_def runner_sameD(1) [OF rel])
  from HTTPRespCall_fresh [OF runner_sameD(3) [OF rel] Val main] h have
    a: "m = res" "rnCache rn1 = cc" "pools_ok rn1" "rnIo rn1 = s" by auto
  from HTTPRespCall_fresh [OF runner_sameD(4) [OF rel] Val main'(1)] obtain rn1' where
    b: "HTTPRespCall cd ro T reg buf rn' = (m, rn1')" "rnCache rn1' = cc" "pools_ok rn1'" "rnIo rn1' = t" by auto
  from a b main'(2) show ?thesis by (simp add: runner_same_def)
next
  case Panic
  obtain res' rn1' where h': "HTTPRespCall cd ro T reg buf rn' = (res', rn1')" by (cases "HTTPRespCall cd ro T reg buf rn'")
  have p: "x = Panic \<and> pools_ok u \<and> rnCache u = rnCache v \<and> ioConn (rnIo u) = ioConn (rnIo v) \<and>
      ioNextCtx (rnIo u) = ioNextCtx (rnIo v)"
    if hh: "HTTPRespCall cd ro T reg buf v = (x, u)" "pools_ok v" for v u :: "'a runner" and x
  proof -
    obtain r pool' picks where g: "Pool_Get newResponse (rnResps v) (ioPicks (rnIo v)) = (r, pool', picks)"
      by (cases "Pool_Get newResponse (rnResps v) (ioPicks (rnIo v))") auto
    with Panic hh(1) have "x = Panic" "u = v\<lparr>rnResps := pool', rnIo := (rnIo v)\<lparr>ioPicks := picks\<rparr>\<rparr>"
      by (auto simp: HTTPRespCall_def CreateResponse_def Let_def)
    with hh(2) response_pool.Get_clean [OF _ g] show ?thesis by (simp add: pools_ok_def)
  qed
  from p [OF h runner_sameD(3) [OF rel]] p [OF h' runner_sameD(4) [OF rel]] h' rel show ?thesis
    by (simp add: runner_same_def io_same_def pools_ok_def)
qed

lemma PrepareConf_same:
  assumes "io_same s t" "PrepareConf cd T reg buf cc s = (res, cc', s')"
  shows "\<exists>t'. PrepareConf cd T reg buf cc t = (res, cc', t') \<and> io_same s' t'"
proof -
  obtain bd s1 where g: "GetBuilder s = (bd, s1)" by (cases "GetBuilder s")
  from GetBuilder_same [OF assms(1) g] obtain t1 where "GetBuilder t = (bd, t1)" "io_same s1 t1" by blast
  with assms show ?thesis unfolding PrepareConf_def g Let_def
    by (auto split: prod.splits rt.splits sum.splits)
qed

subsection \<open>Dispatch and connection\<close>

lemma ReportError_same:
  assumes "io_same s t" "ReportError err s = (bd, s')"
  shows "\<exists>t'. ReportError err t = (bd, t') \<and> io_same s' t'"
proof -
  obtain b s1 where g: "GetBuilder s = (b, s1)" by (cases "GetBuilder s")
  from GetBuilder_same [OF assms(1) g] obtain t1 where "GetBuilder t = (b, t1)" "io_same s1 t1" by blast
  with assms(2) g show ?thesis by (auto simp: ReportError_def)
qed

lemma checkIfDataTooLarge_same:
  assumes "io_same s t" "checkIfDataTooLarge cd bd s = (x, s')"
  shows "\<exists>t'. checkIfDataTooLarge cd bd t = (x, t') \<and> io_same s' t'"
proof -
  have r: "\<exists>t'. ReportError e (PutBuilder bd t) = (b, t') \<and> io_same u t'"
    if "ReportError e (PutBuilder bd s) = (b, u)" for e b u
    using ReportError_same [OF PutBuilder_same [OF assms(1)] that] .
  from assms show ?thesis unfolding checkIfDataTooLarge_def generateErrorReport_def Let_def
    by (auto split: rt.splits if_splits prod.splits dest!: r)
qed

lemma on_rn_io_same:
  assumes "runner_same rn rn'" "on_rn_io f rn = (x, rn1)"
    and "\<And>s t y s'. io_same s t \<Longrightarrow> f s = (y, s') \<Longrightarrow> \<exists>t'. f t = (y, t') \<and> io_same s' t'"
  shows "\<exists>rn1'. on_rn_io f rn' = (x, rn1') \<and> runner_same rn1 rn1'"
proof -
  from assms(2) obtain s where s: "f (rnIo rn) = (x, s)" "rn1 = rn\<lparr>rnIo := s\<rparr>" by (auto simp: on_rn_io_eq)
  from assms(3) [OF runner_sameD(2) [OF assms(1)] s(1)] obtain t where "f (rnIo rn') = (x, t)" "io_same s t" by blast
  with s(2) runner_same_io [OF assms(1)] show ?thesis by (auto simp: on_rn_io_eq)
qed

lemma handler_same:
  assumes "typeHandlerMap cd ro T reg ty = Some hl" "runner_same rn rn'" "hl buf rn = (res, rn1)"
  shows "\<exists>rn1'. hl buf rn' = (res, rn1') \<and> runner_same rn1 rn1'"
proof -
  have prep: "\<exists>t. PrepareConf cd T reg buf (rnCache rn') (rnIo rn') = (res, cc, t) \<and>
      runner_same (rn\<lparr>rnCache := cc, rnIo := s\<rparr>) (rn'\<lparr>rnCache := cc, rnIo := t\<rparr>)"
    if "PrepareConf cd T reg buf (rnCache rn) (rnIo rn) = (res, cc, s)" for cc s
    using PrepareConf_same [OF runner_sameD(2) [OF assms(2)] that]
      runner_same_io [OF runner_same_cache [OF assms(2)], of s _ cc] runner_sameD(1) [OF assms(2)] by auto
  from assms(1,3) show ?thesis
    by (auto simp: typeHandlerMap_def split: if_splits prod.splits
        dest!: prep HTTPReqCall_same [OF assms(2)] HTTPRespCall_same [OF assms(2)])
qed

lemma dispatchRPC_same:
  assumes rel: "runner_same rn rn'" and d: "dispatchRPC cd ro T reg ty inp rn = (res, rn1)"
  shows "\<exists>rn1'. dispatchRPC cd ro T reg ty inp rn' = (res, rn1') \<and> runner_same rn1 rn1'"
proof (cases "typeHandlerMap cd ro T reg ty")
  case None
  obtain bd u where u: "on_rn_io (generateErrorReport (UnknownType ty)) rn = (bd, u)"
    by (cases "on_rn_io (generateErrorReport (UnknownType ty)) rn")
  from on_rn_io_same [OF rel u] obtain u' where
    "on_rn_io (generateErrorReport (UnknownType ty)) rn' = (bd, u')" "runner_same u u'"
    unfolding generateErrorReport_def using ReportError_same by blast
  with d u None show ?thesis by (simp add: dispatchRPC_def)
next
  case (Some hl)
  obtain h u where h: "hl inp rn = (h, u)" by (cases "hl inp rn")
  from handler_same [OF Some rel h] obtain u' where u': "hl inp rn' = (h, u')" "runner_same u u'" by blast
  have rep: "\<exists>v'. on_rn_io (generateErrorReport e) u' = (bd, v') \<and> runner_same v v'"
    if "on_rn_io (generateErrorReport e) u = (bd, v)" for e bd v
    by (rule on_rn_io_same [OF u'(2) that]) (unfold generateErrorReport_def, rule ReportError_same)
  have chk: "\<exists>v'. on_rn_io (checkIfDataTooLarge cd b) u' = (x, v') \<and> runner_same v v'"
    if "on_rn_io (checkIfDataTooLarge cd b) u = (x, v)" for b x v
    by (rule on_rn_io_same [OF u'(2) that]) (rule checkIfDataTooLarge_same)
  from d Some h u' show ?thesis
    by (auto simp: dispatchRPC_def Let_def split: rt.splits sum.splits prod.splits if_splits dest!: rep chk)
qed

lemma handle_reply_same:
  assumes rel: "runner_same rn rn'"
  shows "case handle_reply cd bd ty rn of
      Inl (x, u) \<Rightarrow> \<exists>u'. handle_reply cd bd ty rn' = Inl (x, u') \<and> runner_same u u'
    | Inr u \<Rightarrow> \<exists>u'. handle_reply cd bd ty rn' = Inr u' \<and> runner_same u u'"
proof -
  have c: "runner_same (set_conn k rn) (set_conn k rn')" for k by (rule runner_same_conn [OF rel])
  have p: "runner_same ((set_conn k rn)\<lparr>rnIo := PutBuilder bd (rnIo (set_conn k rn))\<rparr>)
      ((set_conn k rn')\<lparr>rnIo := PutBuilder bd (rnIo (set_conn k rn'))\<rparr>)" for k
    by (rule runner_same_io [OF c]) (rule PutBuilder_same [OF runner_sameD(2) [OF c]])
  show ?thesis
    using c p rel unfolding handle_reply_def runner_sameD(5) [OF rel] Let_def
    by (auto split: rt.splits prod.splits option.splits)
qed

text \<open>What the shared pools hold at some moment, and the objects they hand out next.\<close>

record pools =
  plReqs :: "Request list"
  plReqResps :: "ReqResponse list"
  plResps :: "Response list"
  plBuilders :: "builder list"
  plPicks :: "nat option list"

definition pools_clean :: "pools \<Rightarrow> bool" where
  "pools_clean pl \<longleftrightarrow> request_pool.pool_ok (plReqs pl) \<and> reqresp_pool.pool_ok (plReqResps pl) \<and>
     response_pool.pool_ok (plResps pl) \<and> builder_pool.pool_ok (plBuilders pl)"

definition with_pools :: "pools \<Rightarrow> 'k runner \<Rightarrow> 'k runner" where
  "with_pools pl rn = rn\<lparr>rnReqs := plReqs pl, rnReqResps := plReqResps pl, rnResps := plResps pl,
     rnIo := (rnIo rn)\<lparr>ioBuilders := plBuilders pl, ioPicks := plPicks pl\<rparr>\<rparr>"

lemma with_pools_same:
  "runner_same rn rn' \<Longrightarrow> pools_clean pl \<Longrightarrow> runner_same rn (with_pools pl rn')"
  by (simp add: runner_same_def io_same_def pools_ok_def pools_clean_def with_pools_def)

lemma runner_same_refl: "pools_ok rn \<Longrightarrow> runner_same rn rn"
  by (simp add: runner_same_def io_same_def pools_ok_def)

text \<open>C16: the pools cannot be observed.  Whatever clean objects the shared pools of requests,
  responses and builders hold, and whichever of them they hand out, the dispatch of a request
  returns the same answer, sends the same bytes and leaves the same cache, and the pools are
  clean again afterwards.\<close>

theorem dispatchRPC_pool_blind:
  assumes "pools_ok rn" "pools_clean pl"
  shows "let (res, rn1) = dispatchRPC cd ro T reg ty inp rn;
             (res', rn1') = dispatchRPC cd ro T reg ty inp (with_pools pl rn)
         in res' = res \<and> ioConn (rnIo rn1') = ioConn (rnIo rn1) \<and> rnCache rn1' = rnCache rn1 \<and>
            pools_ok rn1 \<and> pools_ok rn1'"
proof -
  obtain res rn1 where d: "dispatchRPC cd ro T reg ty inp rn = (res, rn1)"
    by (cases "dispatchRPC cd ro T reg ty inp rn")
  from dispatchRPC_same [OF with_pools_same [OF runner_same_refl [OF assms(1)] assms(2)] d] obtain rn1' where
    "dispatchRPC cd ro T reg ty inp (with_pools pl rn) = (res, rn1')" "runner_same rn1 rn1'" by blast
  with d runner_sameD [OF this(2)] show ?thesis by simp
qed

theorem dispatchRPC_pool_blind_witness:
  "fst (dispatchRPC sample_codec (\<lambda>_. rev) map_ttl [(''p'', stop_opts)] RPCHTTPReqCall [1] sample_runner) =
   fst (dispatchRPC sample_codec (\<lambda>_. rev) map_ttl [(''p'', stop_opts)] RPCHTTPReqCall [1]
     (with_pools \<lparr>plReqs = [], plReqResps = [], plResps = [], plBuilders = [NewBuilder, NewBuilder],
        plPicks = [None]\<rparr> sample_runner))"
proof -
  let ?pl = "\<lparr>plReqs = [], plReqResps = [], plResps = [], plBuilders = [NewBuilder, NewBuilder], plPicks = [None]\<rparr>"
  have "pools_clean ?pl"
    by (simp add: pools_clean_def request_pool.pool_ok_def reqresp_pool.pool_ok_def response_pool.pool_ok_def
        builder_pool.pool_ok_def builder_clean_def NewBuilder_def)
  from dispatchRPC_pool_blind [OF sample_runner_ok this, of sample_codec "\<lambda>_. rev" map_ttl
      "[(''p'', stop_opts)]" RPCHTTPReqCall "[1]"] show ?thesis
    by (auto simp: Let_def split: prod.splits)
qed

end
