(* ===== verification/Dialogue.thy ===== *)
theory Dialogue
  imports Server
begin

section \<open>What APISIX and the plugins say to each other during a request\<close>

text \<open>
  A plugin that asks for a variable or for a body talks to APISIX on the connection its request
  came on: the runner sends an \<open>ExtraInfo\<close> frame in the middle of the handler and waits for the
  answer before the plugin goes on.  This theory gives the filters a meaning without a
  connection: \<open>req_spec\<close> and \<open>resp_spec\<close> are the methods when APISIX answers a question by a
  function \<open>ans\<close>, and they return the questions asked; \<open>run_spec\<close> and \<open>chain_spec\<close> extend this to
  a filter and to the list of plugins.

  \<open>follows\<close> is the refinement: on a connection which holds the answers to exactly these
  questions, in this order and split in any way, the code computes the same result, sends exactly
  the questions and consumes exactly the answers.  The locale \<open>dialogue_api\<close> lifts it from the methods
  to whole filters, \<open>dialogue_chain\<close> to the loop over the plugins; both phases interpret them.
  At the end the exchange is put between the frames of a connection served by \<open>handleConn\<close>.
\<close>

subsection \<open>Following a specification\<close>

definition ask_frame :: "codec \<Rightarrow> info \<Rightarrow> bytes" where
  "ask_frame cd i = frame (RPCExtraInfo, encode_msg cd (MsgExtraInfoReq i))"

definition asked :: "codec \<Rightarrow> info list \<Rightarrow> bytes" where
  "asked cd ks = concat (map (ask_frame cd) ks)"

text \<open>What APISIX answers: a frame for each question.\<close>

definition answered :: "(info \<Rightarrow> byte \<times> bytes) \<Rightarrow> info list \<Rightarrow> bytes" where
  "answered pay ks = concat (map (\<lambda>i. frame (pay i)) ks)"

definition answers_ok :: "codec \<Rightarrow> (info \<Rightarrow> byte \<times> bytes) \<Rightarrow> (info \<Rightarrow> bytes option) \<Rightarrow> info list \<Rightarrow> bool" where
  "answers_ok cd pay ans ks \<longleftrightarrow> (\<forall>i \<in> set ks. length (snd (pay i)) < 2 ^ 24 \<and>
     GetRootAsExtraInfoResp cd (snd (pay i)) = Val (ans i))"

lemma dialogue_append [simp]:
  "asked cd (ks @ ks') = asked cd ks @ asked cd ks'" "asked cd [] = []"
  "answered pay (ks @ ks') = answered pay ks @ answered pay ks'" "answered pay [] = []"
  "answers_ok cd pay ans (ks @ ks') \<longleftrightarrow> answers_ok cd pay ans ks \<and> answers_ok cd pay ans ks'"
  "answers_ok cd pay ans []"
  by (auto simp: asked_def answered_def answers_ok_def)

definition talked :: "codec \<Rightarrow> info list \<Rightarrow> bytes \<Rightarrow> conn \<Rightarrow> conn \<Rightarrow> bool" where
  "talked cd ks rest c c' \<longleftrightarrow> wr_clean c' \<and> avail c' = rest \<and> sent c' = sent c @ asked cd ks"

definition follows ::
  "codec \<Rightarrow> (info \<Rightarrow> byte \<times> bytes) \<Rightarrow> (info \<Rightarrow> bytes option) \<Rightarrow> ('x \<Rightarrow> 'st \<Rightarrow> bool) \<Rightarrow> ('st \<Rightarrow> conn) \<Rightarrow>
   ('x \<Rightarrow> 'a \<times> 'x \<times> info list) \<Rightarrow> ('st \<Rightarrow> 'a \<times> 'st) \<Rightarrow> bool" where
  "follows cd pay ans rel conn_of f g \<longleftrightarrow> (\<forall>x st v x' ks rest.
     rel x st \<longrightarrow> f x = (v, x', ks) \<longrightarrow> answers_ok cd pay ans ks \<longrightarrow> wr_clean (conn_of st) \<longrightarrow>
     avail (conn_of st) = answered pay ks @ rest \<longrightarrow>
     (\<exists>st'. g st = (v, st') \<and> rel x' st' \<and> talked cd ks rest (conn_of st) (conn_of st')))"

lemma followsI:
  assumes "\<And>x st v x' ks rest. rel x st \<Longrightarrow> f x = (v, x', ks) \<Longrightarrow> answers_ok cd pay ans ks \<Longrightarrow>
    wr_clean (conn_of st) \<Longrightarrow> avail (conn_of st) = answered pay ks @ rest \<Longrightarrow>
    \<exists>st'. g st = (v, st') \<and> rel x' st' \<and> talked cd ks rest (conn_of st) (conn_of st')"
  shows "follows cd pay ans rel conn_of f g"
  using assms unfolding follows_def by blast

lemma followsD:
  assumes "follows cd pay ans rel conn_of f g" "rel x st" "f x = (v, x', ks)" "answers_ok cd pay ans ks"
    and "wr_clean (conn_of st)" "avail (conn_of st) = answered pay ks @ rest"
  obtains st' where "g st = (v, st')" "rel x' st'" "talked cd ks rest (conn_of st) (conn_of st')"
  using assms unfolding follows_def by blast

lemma follows_return: "follows cd pay ans rel conn_of (\<lambda>x. (v, x, [])) (\<lambda>st. (v, st))"
  by (rule followsI) (simp add: talked_def)

text \<open>Two steps one after the other, the second one only when the first did not panic and the
  state calls for it.\<close>

lemma follows_then:
  assumes first: "follows cd pay ans rel conn_of f g" and "\<And>a. follows cd pay ans rel conn_of (f' a) (g' a)"
    and stop: "\<And>x st. rel x st \<Longrightarrow> stop x = stop' st"
  shows "follows cd pay ans rel conn_of
    (\<lambda>x. case f x of (Panic, x', ks) \<Rightarrow> (Panic, x', ks)
         | (Val a, x', ks) \<Rightarrow> if stop x' then (w, x', ks) else (case f' a x' of (v, x'', ks') \<Rightarrow> (v, x'', ks @ ks')))
    (\<lambda>st. case g st of (Panic, st') \<Rightarrow> (Panic, st')
          | (Val a, st') \<Rightarrow> if stop' st' then (w, st') else g' a st')"
proof (rule followsI)
  fix x st v x' ks rest
  assume rel: "rel x st" and e: "(case f x of (Panic, x', ks) \<Rightarrow> (Panic, x', ks)
      | (Val a, x', ks) \<Rightarrow> if stop x' then (w, x', ks) else
          (case f' a x' of (v, x'', ks') \<Rightarrow> (v, x'', ks @ ks'))) = (v, x', ks)"
    and ok: "answers_ok cd pay ans ks" and wr: "wr_clean (conn_of st)"
    and av: "avail (conn_of st) = answered pay ks @ rest"
  obtain r x1 k1 where f: "f x = (r, x1, k1)" by (cases "f x") auto
  show "\<exists>st'. (case g st of (Panic, st') \<Rightarrow> (Panic, st')
      | (Val a, st') \<Rightarrow> if stop' st' then (w, st') else g' a st') = (v, st') \<and>
    rel x' st' \<and> talked cd ks rest (conn_of st) (conn_of st')"
  proof (cases "\<exists>a. r = Val a \<and> \<not> stop x1")
    case False
    with e f have k: "k1 = ks" "x1 = x'" by (cases r; auto)+
    from followsD [OF first rel f [unfolded k] ok wr av] obtain st1 where
      g: "g st = (r, st1)" "rel x' st1" "talked cd ks rest (conn_of st) (conn_of st1)" by blast
    from False e f g stop [OF g(2)] k show ?thesis by (cases r; intro exI [of _ st1]) auto
  next
    case True
    then obtain a where a: "r = Val a" "\<not> stop x1" by blast
    obtain v2 x2 k2 where f': "f' a x1 = (v2, x2, k2)" by (cases "f' a x1") auto
    from e f f' a have k: "v2 = v" "x2 = x'" "ks = k1 @ k2" by auto
    from ok k have oks: "answers_ok cd pay ans k1" "answers_ok cd pay ans k2" by auto
    have "avail (conn_of st) = answered pay k1 @ answered pay k2 @ rest" using av k by simp
    from followsD [OF first rel f oks(1) wr this] obtain st1 where
      g: "g st = (r, st1)" "rel x1 st1" "talked cd k1 (answered pay k2 @ rest) (conn_of st) (conn_of st1)" by blast
    then have "wr_clean (conn_of st1)" "avail (conn_of st1) = answered pay k2 @ rest" by (simp_all add: talked_def)
    from followsD [OF assms(2) g(2) f' oks(2) this] obtain st2 where
      g': "g' a st1 = (v2, st2)" "rel x2 st2" "talked cd k2 rest (conn_of st1) (conn_of st2)" by blast
    from g g' a stop [OF g(2)] k show ?thesis by (intro exI [of _ st2]) (auto simp: talked_def)
  qed
qed

subsection \<open>Filters and lists of plugins\<close>

primrec run_spec :: "('call \<Rightarrow> 'x \<Rightarrow> api_ret rt \<times> 'x \<times> info list) \<Rightarrow> 'call prog \<Rightarrow> 'x \<Rightarrow> unit rt \<times> 'x \<times> info list" where
  "run_spec spec Done = (\<lambda>x. (Val (), x, []))"
| "run_spec spec Crash = (\<lambda>x. (Panic, x, []))"
| "run_spec spec (Call c k) = (\<lambda>x.
     case spec c x of
       (Panic, x', ks) \<Rightarrow> (Panic, x', ks)
     | (Val v, x', ks) \<Rightarrow> (case run_spec spec (k v) x' of (r, x'', ks') \<Rightarrow> (r, x'', ks @ ks')))"

fun chain_spec ::
  "(string \<Rightarrow> 'p option) \<Rightarrow> ('p \<Rightarrow> 'c \<Rightarrow> 'x \<Rightarrow> unit rt \<times> 'x \<times> info list) \<Rightarrow> ('x \<Rightarrow> bool) \<Rightarrow>
   (string \<times> 'c) list \<Rightarrow> 'x \<Rightarrow> go_error option rt \<times> 'x \<times> info list" where
  "chain_spec fnd flt chg [] x = (Val None, x, [])"
| "chain_spec fnd flt chg ((name, v) # conf) x =
     (case fnd name of
        None \<Rightarrow> chain_spec fnd flt chg conf x
      | Some p \<Rightarrow>
          (case flt p v x of
             (Panic, x', ks) \<Rightarrow> (Panic, x', ks)
           | (Val u, x', ks) \<Rightarrow>
               if chg x' then (Val None, x', ks)
               else (case chain_spec fnd flt chg conf x' of (r, x'', ks') \<Rightarrow> (r, x'', ks @ ks'))))"

locale dialogue_api =
  fixes cd :: codec and pay :: "info \<Rightarrow> byte \<times> bytes" and ans :: "info \<Rightarrow> bytes option"
    and rel :: "'x \<Rightarrow> 'st \<Rightarrow> bool" and conn_of :: "'st \<Rightarrow> conn"
    and spec :: "'call \<Rightarrow> 'x \<Rightarrow> api_ret rt \<times> 'x \<times> info list"
    and exec :: "'call \<Rightarrow> 'st \<Rightarrow> api_ret rt \<times> 'st"
  assumes exec_follows: "follows cd pay ans rel conn_of (spec c) (exec c)"
begin

lemma run_follows: "follows cd pay ans rel conn_of (run_spec spec p) (run_prog exec p)"
proof (induction p)
  case (Call c k)
  have ih: "follows cd pay ans rel conn_of (run_spec spec (k v)) (run_prog exec (k v))" for v
    by (rule Call.IH [OF rangeI])
  from follows_then [where stop = "\<lambda>_. False" and stop' = "\<lambda>_. False" and w = Panic and
      f' = "\<lambda>v. run_spec spec (k v)" and g' = "\<lambda>v. run_prog exec (k v)", OF exec_follows [of c] ih]
  show ?case by (simp cong del: rt.case_cong_weak)
qed (simp_all add: follows_return)

end

locale dialogue_chain = filter_chain find apply_filter changed chain
  for find :: "string \<Rightarrow> 'p option" and apply_filter :: "'p \<Rightarrow> 'c \<Rightarrow> 'st \<Rightarrow> unit rt \<times> 'st"
    and changed :: "'st \<Rightarrow> bool" and chain :: "(string \<times> 'c) list \<Rightarrow> 'st \<Rightarrow> go_error option rt \<times> 'st" +
  fixes cd :: codec and pay :: "info \<Rightarrow> byte \<times> bytes" and ans :: "info \<Rightarrow> bytes option"
    and rel :: "'x \<Rightarrow> 'st \<Rightarrow> bool" and conn_of :: "'st \<Rightarrow> conn"
    and flt :: "'p \<Rightarrow> 'c \<Rightarrow> 'x \<Rightarrow> unit rt \<times> 'x \<times> info list" and spec_changed :: "'x \<Rightarrow> bool"
  assumes filter_follows: "follows cd pay ans rel conn_of (flt p v) (apply_filter p v)"
    and changed_follows: "rel x st \<Longrightarrow> spec_changed x = changed st"
begin

lemma chain_follows: "follows cd pay ans rel conn_of (chain_spec find flt spec_changed conf) (chain conf)"
proof (induction conf)
  case Nil
  from follows_return show ?case by (simp add: chain_Nil)
next
  case (Cons c conf)
  obtain name v where c: "c = (name, v)" by (cases c)
  show ?case
  proof (cases "find name")
    case None
    with Cons c show ?thesis by (simp add: chain_Cons follows_def)
  next
    case (Some p)
    from follows_then [where w = "Val None" and f' = "\<lambda>_. chain_spec find flt spec_changed conf" and
        g' = "\<lambda>_. chain conf", OF filter_follows [of p v] Cons changed_follows] Some c show ?thesis
      by (simp add: chain_Cons follows_def)
  qed
qed

end

subsection \<open>The request phase\<close>

text \<open>\<open>Var\<close> and \<open>Body\<close> when APISIX answers by \<open>ans\<close>; the other methods have no I/O.\<close>

definition Var_spec :: "(info \<Rightarrow> bytes option) \<Rightarrow> string \<Rightarrow> (string, bytes option) gomap option \<Rightarrow>
    bytes option \<times> (string, bytes option) gomap option \<times> info list" where
  "Var_spec ans name vars =
     (let m = (case vars of None \<Rightarrow> [] | Some m \<Rightarrow> m)
      in case map_of m name of
           Some v \<Rightarrow> (v, Some m, [])
         | None \<Rightarrow> (let v = ans (InfoVar name) in (v, Some (AList.update name v m), [InfoVar name])))"

definition Body_spec :: "(info \<Rightarrow> bytes option) \<Rightarrow> info \<Rightarrow> bytes option \<Rightarrow> bytes option \<times> info list" where
  "Body_spec ans which body = (case body of Some (b # bs) \<Rightarrow> (body, []) | _ \<Rightarrow> (ans which, [which]))"

definition no_io :: io where
  "no_io = \<lparr>ioConn = \<lparr>rd = [], wr = [], sent = [], closed = False\<rparr>, ioBuilders = [], ioPicks = [],
     ioNextCtx = 0, ioCancelled = []\<rparr>"

fun req_spec ::
  "codec \<Rightarrow> range_orders \<Rightarrow> (info \<Rightarrow> bytes option) \<Rightarrow> req_call \<Rightarrow> ReqResponse \<times> Request \<Rightarrow>
   api_ret rt \<times> (ReqResponse \<times> Request) \<times> info list" where
  "req_spec cd ro ans (CallVar name) (w, r) =
     (case Var_spec ans name (reqVars r) of
        (v, m, ks) \<Rightarrow> (Val (RResult (Inr v)), (w, r\<lparr>reqVars := m\<rparr>), ks))"
| "req_spec cd ro ans CallBody (w, r) =
     (case Body_spec ans InfoReqBody (reqBody r) of
        (v, ks) \<Rightarrow> (Val (RResult (Inr v)), (w, r\<lparr>reqBody := v\<rparr>), ks))"
| "req_spec cd ro ans c (w, r) =
     (case exec_req cd ro c (w, r, no_io) of (v, w', r', s) \<Rightarrow> (v, (w', r'), []))"

definition requestPhase_spec ::
  "codec \<Rightarrow> range_orders \<Rightarrow> (info \<Rightarrow> bytes option) \<Rightarrow> 'c registry \<Rightarrow> (string \<times> 'c) list \<Rightarrow>
   ReqResponse \<times> Request \<Rightarrow> go_error option rt \<times> (ReqResponse \<times> Request) \<times> info list" where
  "requestPhase_spec cd ro ans reg =
     chain_spec (findPlugin reg) (\<lambda>p v. run_spec (req_spec cd ro ans) (RequestFilter p v))
       (\<lambda>x. ReqResponse_HasChange (fst x))"

lemma ask_follows:
  assumes "GetBuilder s = (bd, s1)" "answers_ok cd pay ans [i]" "wr_clean (ioConn s)"
    and "avail (ioConn s) = answered pay [i] @ rest"
  obtains h' bd' s2 where "askExtraInfo cd True h bd i s1 = (Val (Inr (ans i)), h', bd', s2)"
    "talked cd [i] rest (ioConn s) (ioConn s2)"
proof -
  obtain ty p where p: "pay i = (ty, p)" by (cases "pay i")
  have c: "ioConn s1 = ioConn s" using GetBuilder_frame [OF assms(1)] by simp
  have "wr_clean (ioConn s1)" "avail (ioConn s1) = put_header ty (length p) @ p @ rest" "length p < 2 ^ 24"
    "GetRootAsExtraInfoResp cd p = Val (ans i)"
    using assms p by (simp_all add: c answered_def frame_def answers_ok_def)
  from askExtraInfo_exchange [OF this, of h bd i] show thesis
    using that by (auto simp: talked_def asked_def ask_frame_def frame_def c)
qed

definition rel_req :: "ReqResponse \<times> Request \<Rightarrow> req_state \<Rightarrow> bool" where
  "rel_req x st \<longleftrightarrow> fst st = fst x \<and> req_equiv (snd x) (fst (snd st)) \<and> reqConn (snd x)"

definition conn_req :: "req_state \<Rightarrow> conn" where
  "conn_req st = ioConn (snd (snd st))"

lemma Var_spec_cases:
  assumes "Var_spec ans name vars = (v, m, ks)"
  obtains (hit) "map_of (case vars of None \<Rightarrow> [] | Some m \<Rightarrow> m) name = Some v" "ks = []"
      "m = Some (case vars of None \<Rightarrow> [] | Some m \<Rightarrow> m)"
    | (ask) "map_of (case vars of None \<Rightarrow> [] | Some m \<Rightarrow> m) name = None" "ks = [InfoVar name]" "v = ans (InfoVar name)"
      "m = Some (AList.update name v (case vars of None \<Rightarrow> [] | Some m \<Rightarrow> m))"
  using assms by (cases "map_of (case vars of None \<Rightarrow> [] | Some m \<Rightarrow> m) name") (auto simp: Var_spec_def Let_def)

lemma Body_spec_cases:
  assumes "Body_spec ans which body = (v, ks)"
  obtains (hit) b bs where "body = Some (b # bs)" "v = body" "ks = []"
    | (ask) "body = None \<or> body = Some []" "v = ans which" "ks = [which]"
  using assms by (cases body; cases "the body") (auto simp: Body_spec_def)

lemma req_equiv_upd:
  "req_equiv r r' \<Longrightarrow> req_equiv (r\<lparr>reqVars := m\<rparr>) (r'\<lparr>reqVars := m\<rparr>)"
  "req_equiv r r' \<Longrightarrow> req_equiv (r\<lparr>reqBody := b\<rparr>) (r'\<lparr>reqBody := b\<rparr>)"
  "req_equiv r r' \<Longrightarrow> req_equiv r (r'\<lparr>extraInfoHeader := h\<rparr>)"
  by (simp_all add: req_equiv_def)

lemma Request_Var_follows:
  assumes eq: "req_equiv r r'" and conn: "reqConn r" and sp: "Var_spec ans name (reqVars r) = (v, m, ks)"
    and ok: "answers_ok cd pay ans ks" and wr: "wr_clean (ioConn s)" and av: "avail (ioConn s) = answered pay ks @ rest"
  shows "\<exists>r1 s1. Request_Var cd name r' s = (Val (Inr v), r1, s1) \<and> req_equiv (r\<lparr>reqVars := m\<rparr>) r1 \<and>
    talked cd ks rest (ioConn s) (ioConn s1)"
  using sp
proof (cases rule: Var_spec_cases)
  case hit
  moreover have "reqVars r' = reqVars r" using eq by (simp add: req_equiv_def)
  ultimately show ?thesis using wr av eq by (simp add: Request_Var_def Let_def talked_def req_equiv_upd)
next
  case ask
  have v: "reqVars r' = reqVars r" "reqConn r'" using eq conn by (simp_all add: req_equiv_def)
  obtain bd s1 where g: "GetBuilder s = (bd, s1)" by (cases "GetBuilder s")
  from ask_follows [OF g ok [unfolded ask(2)] wr av [unfolded ask(2)], of "extraInfoHeader r'"] obtain h bd' s2 where
    a: "askExtraInfo cd True (extraInfoHeader r') bd (InfoVar name) s1 = (Val (Inr v), h, bd', s2)"
      "talked cd ks rest (ioConn s) (ioConn s2)" unfolding ask(2,3) by blast
  then show ?thesis
    using ask v g req_equiv_upd(1) [OF req_equiv_upd(3) [OF eq, of h], of m]
    by (simp add: Request_Var_def Let_def Request_askExtraInfo_def)
qed

lemma Request_Body_follows:
  assumes eq: "req_equiv r r'" and conn: "reqConn r" and sp: "Body_spec ans InfoReqBody (reqBody r) = (v, ks)"
    and ok: "answers_ok cd pay ans ks" and wr: "wr_clean (ioConn s)" and av: "avail (ioConn s) = answered pay ks @ rest"
  shows "\<exists>r1 s1. Request_Body cd r' s = (Val (Inr v), r1, s1) \<and> req_equiv (r\<lparr>reqBody := v\<rparr>) r1 \<and>
    talked cd ks rest (ioConn s) (ioConn s1)"
  using sp
proof (cases rule: Body_spec_cases)
  case (hit b bs)
  moreover have "reqBody r' = reqBody r" using eq by (simp add: req_equiv_def)
  ultimately show ?thesis using wr av eq by (simp add: Request_Body_def talked_def req_equiv_def)
next
  case ask
  have v: "reqBody r' = reqBody r" "reqConn r'" using eq conn by (simp_all add: req_equiv_def)
  obtain bd s1 where g: "GetBuilder s = (bd, s1)" by (cases "GetBuilder s")
  from ask_follows [OF g ok [unfolded ask(3)] wr av [unfolded ask(3)], of "extraInfoHeader r'"] obtain h bd' s2 where
    a: "askExtraInfo cd True (extraInfoHeader r') bd InfoReqBody s1 = (Val (Inr v), h, bd', s2)"
      "talked cd ks rest (ioConn s) (ioConn s2)" unfolding ask(2,3) by blast
  then show ?thesis
    using ask(1) v g req_equiv_upd(2) [OF req_equiv_upd(3) [OF eq, of h], of v]
    by (auto simp: Request_Body_def Let_def Request_askExtraInfo_def)
qed

text \<open>The other methods.\<close>

lemma exec_req_local:
  assumes "\<And>name. c \<noteq> CallVar name" "c \<noteq> CallBody" "exec_req cd ro c (w, r, s) = (v, w', r', s')"
  shows "s' = s" "exec_req cd ro c (w, r, t) = (v, w', r', t)"
proof -
  have "(\<exists>f. exec_req cd ro c = on_r f) \<or> (\<exists>f. exec_req cd ro c = on_w f)"
    using assms(1,2) by (cases c; simp only: exec_req.simps; blast)
  then show "s' = s" "exec_req cd ro c (w, r, t) = (v, w', r', t)"
    using assms(3) by (auto simp: on_r_def on_w_def split: prod.splits)
qed

lemma exec_req_follows: "follows cd pay ans rel_req conn_req (req_spec cd ro ans c) (exec_req cd ro c)"
proof (rule followsI)
  fix x st v x' ks rest
  assume rel: "rel_req x st" and e: "req_spec cd ro ans c x = (v, x', ks)" and ok: "answers_ok cd pay ans ks"
    and wr: "wr_clean (conn_req st)" and av: "avail (conn_req st) = answered pay ks @ rest"
  obtain w r where x: "x = (w, r)" by (cases x)
  from rel x obtain r' s where st: "st = (w, r', s)" and eq: "req_equiv r r'" and conn: "reqConn r"
    by (cases st) (auto simp: rel_req_def)
  have wr': "wr_clean (ioConn s)" and av': "avail (ioConn s) = answered pay ks @ rest"
    using wr av st by (simp_all add: conn_req_def)
  show "\<exists>st'. exec_req cd ro c st = (v, st') \<and> rel_req x' st' \<and> talked cd ks rest (conn_req st) (conn_req st')"
  proof (cases "(\<exists>name. c = CallVar name) \<or> c = CallBody")
    case True
    then consider (var) name where "c = CallVar name" | (body) "c = CallBody" by blast
    then show ?thesis
    proof cases
      case var
      then obtain y m where y: "Var_spec ans name (reqVars r) = (y, m, ks)" "v = Val (RResult (Inr y))"
        "x' = (w, r\<lparr>reqVars := m\<rparr>)" using e x by (auto split: prod.splits)
      from Request_Var_follows [OF eq conn y(1) ok wr' av'] y(2,3) var st conn show ?thesis
        by (auto simp: on_io_def rel_req_def conn_req_def)
    next
      case body
      then obtain y where y: "Body_spec ans InfoReqBody (reqBody r) = (y, ks)" "v = Val (RResult (Inr y))"
        "x' = (w, r\<lparr>reqBody := y\<rparr>)" using e x by (auto split: prod.splits)
      from Request_Body_follows [OF eq conn y(1) ok wr' av'] y(2,3) body st conn show ?thesis
        by (auto simp: on_io_def rel_req_def conn_req_def)
    qed
  next
    case False
    then have c: "\<And>name. c \<noteq> CallVar name" "c \<noteq> CallBody" by auto
    have "req_spec cd ro ans c (w, r) = (case exec_req cd ro c (w, r, no_io) of (v, w', r', s) \<Rightarrow> (v, (w', r'), []))"
    proof (cases c)
      case (CallVar name)
      with c(1) [of name] show ?thesis by contradiction
    qed (use c(2) in simp_all)
    with e x obtain w1 r1 s1 where e1: "exec_req cd ro c (w, r, no_io) = (v, w1, r1, s1)"
      and x': "x' = (w1, r1)" "ks = []" by (auto split: prod.splits)
    from exec_req_local(2) [OF c e1] have e2: "exec_req cd ro c (w, r, s) = (v, w1, r1, s)" .
    have "req_rel (w, r, s) st" using st eq by (simp add: req_rel_def)
    from request_blind.exec_rel [OF this e2] obtain r2 where
      e3: "exec_req cd ro c st = (v, w1, r2, s)" "req_equiv r1 r2" by (auto simp: req_rel_def)
    have "reqConn r1 = reqConn r"
      using e2 c by (cases c) (auto simp: on_r_def on_w_def api_defs upd_header_def get_header_of_def upd_args_def
          upd_respHeader_def Request_Args_def Request_SetPath_def Request_SetBody_def
          split: prod.splits option.splits rt.splits)
    with e3 x' st conn wr av show ?thesis by (auto simp: rel_req_def conn_req_def talked_def)
  qed
qed

interpretation request_talk: dialogue_api cd pay ans rel_req conn_req "req_spec cd ro ans" "exec_req cd ro"
  for cd pay ans ro
  by unfold_locales (rule exec_req_follows)

interpretation request_talks: dialogue_chain "findPlugin reg"
  "\<lambda>p v st. run_req cd ro (RequestFilter p v) st" "\<lambda>st. ReqResponse_HasChange (fst st)"
  "requestPhase_filter cd ro reg" cd pay ans rel_req conn_req
  "\<lambda>p v. run_spec (req_spec cd ro ans) (RequestFilter p v)" "\<lambda>x. ReqResponse_HasChange (fst x)"
  for cd pay ans ro reg
  by unfold_locales (simp_all add: run_req_def request_talk.run_follows rel_req_def)

subsection \<open>The response phase\<close>

fun resp_spec ::
  "codec \<Rightarrow> (info \<Rightarrow> bytes option) \<Rightarrow> resp_call \<Rightarrow> Response \<Rightarrow> api_ret rt \<times> Response \<times> info list" where
  "resp_spec cd ans (RCallVar name) r =
     (case Var_spec ans name (respVars r) of (v, m, ks) \<Rightarrow> (Val (RResult (Inr v)), r\<lparr>respVars := m\<rparr>, ks))"
| "resp_spec cd ans RCallReadBody r =
     (case Body_spec ans InfoRespBody (originBody r) of
        (v, ks) \<Rightarrow> (Val (RResult (Inr v)), r\<lparr>originBody := v\<rparr>, ks))"
| "resp_spec cd ans c r = (case exec_resp cd c (r, no_io) of (v, r', s) \<Rightarrow> (v, r', []))"

definition responsePhase_spec ::
  "codec \<Rightarrow> (info \<Rightarrow> bytes option) \<Rightarrow> 'c registry \<Rightarrow> (string \<times> 'c) list \<Rightarrow> Response \<Rightarrow>
   go_error option rt \<times> Response \<times> info list" where
  "responsePhase_spec cd ans reg =
     chain_spec (findPlugin reg) (\<lambda>p v. run_spec (resp_spec cd ans) (ResponseFilter p v)) Response_HasChange"

definition rel_resp :: "Response \<Rightarrow> resp_state \<Rightarrow> bool" where
  "rel_resp r st \<longleftrightarrow> resp_equiv r (fst st) \<and> respConn r"

definition conn_resp :: "resp_state \<Rightarrow> conn" where
  "conn_resp st = ioConn (snd st)"

lemma resp_equiv_header: "resp_equiv r r' \<Longrightarrow> resp_equiv r (r'\<lparr>respInfoHeader := h\<rparr>)"
  by (auto simp: resp_equiv_def)

lemma resp_equiv_fields:
  "resp_equiv r r' \<Longrightarrow> respVars r' = respVars r \<and> originBody r' = originBody r \<and> respConn r' = respConn r"
  by (auto simp: resp_equiv_def)

lemma Response_Var_follows:
  assumes eq: "resp_equiv r r'" and conn: "respConn r" and sp: "Var_spec ans name (respVars r) = (v, m, ks)"
    and ok: "answers_ok cd pay ans ks" and wr: "wr_clean (ioConn s)" and av: "avail (ioConn s) = answered pay ks @ rest"
  shows "\<exists>r1 s1. Response_Var cd name r' s = (Val (Inr v), r1, s1) \<and> resp_equiv (r\<lparr>respVars := m\<rparr>) r1 \<and>
    talked cd ks rest (ioConn s) (ioConn s1)"
  using sp
proof (cases rule: Var_spec_cases)
  case hit
  with resp_equiv_fields [OF eq] wr av show ?thesis
    by (simp add: Response_Var_def Let_def talked_def resp_equiv_upd [OF eq])
next
  case ask
  obtain bd s1 where g: "GetBuilder s = (bd, s1)" by (cases "GetBuilder s")
  from ask_follows [OF g ok [unfolded ask(2)] wr av [unfolded ask(2)], of "respInfoHeader r'"] obtain h bd' s2 where
    a: "askExtraInfo cd True (respInfoHeader r') bd (InfoVar name) s1 = (Val (Inr v), h, bd', s2)"
      "talked cd ks rest (ioConn s) (ioConn s2)" unfolding ask(2,3) by blast
  then show ?thesis
    using ask resp_equiv_fields [OF eq] conn g resp_equiv_upd(1) [OF resp_equiv_header [OF eq, of h], of m]
    by (simp add: Response_Var_def Let_def Response_askExtraInfo_def)
qed

lemma Response_ReadBody_follows:
  assumes eq: "resp_equiv r r'" and conn: "respConn r" and sp: "Body_spec ans InfoRespBody (originBody r) = (v, ks)"
    and ok: "answers_ok cd pay ans ks" and wr: "wr_clean (ioConn s)" and av: "avail (ioConn s) = answered pay ks @ rest"
  shows "\<exists>r1 s1. Response_ReadBody cd r' s = (Val (Inr v), r1, s1) \<and> resp_equiv (r\<lparr>originBody := v\<rparr>) r1 \<and>
    talked cd ks rest (ioConn s) (ioConn s1)"
  using sp
proof (cases rule: Body_spec_cases)
  case (hit b bs)
  have "r\<lparr>originBody := originBody r\<rparr> = r" by (cases r) simp
  then have e: "resp_equiv (r\<lparr>originBody := v\<rparr>) r'" unfolding hit(2) using eq by simp
  have "Response_ReadBody cd r' s = (Val (Inr v), r', s)"
    using hit resp_equiv_fields [OF eq] by (simp add: Response_ReadBody_def)
  with e hit(3) wr av show ?thesis by (intro exI [of _ r'] exI [of _ s]) (simp add: talked_def)
next
  case ask
  obtain bd s1 where g: "GetBuilder s = (bd, s1)" by (cases "GetBuilder s")
  from ask_follows [OF g ok [unfolded ask(3)] wr av [unfolded ask(3)], of "respInfoHeader r'"] obtain h bd' s2 where
    a: "askExtraInfo cd True (respInfoHeader r') bd InfoRespBody s1 = (Val (Inr v), h, bd', s2)"
      "talked cd ks rest (ioConn s) (ioConn s2)" unfolding ask(2,3) by blast
  then show ?thesis
    using ask(1) resp_equiv_fields [OF eq] conn g resp_equiv_upd(2) [OF resp_equiv_header [OF eq, of h], of v]
    by (auto simp: Response_ReadBody_def Let_def Response_askExtraInfo_def)
qed

lemma exec_resp_follows: "follows cd pay ans rel_resp conn_resp (resp_spec cd ans c) (exec_resp cd c)"
proof (rule followsI)
  fix r st v x' ks rest
  assume rel: "rel_resp r st" and e: "resp_spec cd ans c r = (v, x', ks)" and ok: "answers_ok cd pay ans ks"
    and wr: "wr_clean (conn_resp st)" and av: "avail (conn_resp st) = answered pay ks @ rest"
  from rel obtain r' s where st: "st = (r', s)" and eq: "resp_equiv r r'" and conn: "respConn r"
    by (cases st) (auto simp: rel_resp_def)
  have wr': "wr_clean (ioConn s)" and av': "avail (ioConn s) = answered pay ks @ rest"
    using wr av st by (simp_all add: conn_resp_def)
  consider (var) name where "c = RCallVar name" | (body) "c = RCallReadBody" | (other) f where
    "exec_resp cd c = on_resp f" "blind_resp f" "\<And>name. c \<noteq> RCallVar name" "c \<noteq> RCallReadBody"
    "resp_spec cd ans c r = (case exec_resp cd c (r, no_io) of (v, r', s) \<Rightarrow> (v, r', []))"
    by (cases c) auto
  then show "\<exists>st'. exec_resp cd c st = (v, st') \<and> rel_resp x' st' \<and> talked cd ks rest (conn_resp st) (conn_resp st')"
  proof cases
    case var
    then obtain y m where y: "Var_spec ans name (respVars r) = (y, m, ks)" "v = Val (RResult (Inr y))"
      "x' = r\<lparr>respVars := m\<rparr>" using e by (auto split: prod.splits)
    from Response_Var_follows [OF eq conn y(1) ok wr' av'] y(2,3) var st conn show ?thesis
      by (auto simp: on_resp_io_def rel_resp_def conn_resp_def)
  next
    case body
    then obtain y where y: "Body_spec ans InfoRespBody (originBody r) = (y, ks)" "v = Val (RResult (Inr y))"
      "x' = r\<lparr>originBody := y\<rparr>" using e by (auto split: prod.splits)
    from Response_ReadBody_follows [OF eq conn y(1) ok wr' av'] y(2,3) body st conn show ?thesis
      by (auto simp: on_resp_io_def rel_resp_def conn_resp_def)
  next
    case other
    from eq obtain h where h: "r' = r\<lparr>respInfoHeader := h\<rparr>" by (auto simp: resp_equiv_def)
    have f: "f r = (v, x')" "ks = []" using other(1,5) e by (auto simp: on_resp_def split: prod.splits)
    with other(1,2) h have e2: "exec_resp cd c st = (v, x'\<lparr>respInfoHeader := h\<rparr>, s)"
      by (simp add: st on_resp_def blind_resp_def)
    have "exec_resp cd c (r, s) = (v, x', s)" using other(1) f(1) by (simp add: on_resp_def)
    then have "respConn x' = respConn r"
      using other(3,4) by (cases c) (auto simp: on_resp_def api_defs resp_upd_header_def resp_get_header_def
          split: prod.splits option.splits rt.splits if_splits)
    with e2 f conn wr av show ?thesis by (auto simp: rel_resp_def conn_resp_def talked_def resp_equiv_def st)
  qed
qed

interpretation response_talk: dialogue_api cd pay ans rel_resp conn_resp "resp_spec cd ans" "exec_resp cd"
  for cd pay ans
  by unfold_locales (rule exec_resp_follows)

interpretation response_talks: dialogue_chain "findPlugin reg"
  "\<lambda>p v st. run_resp cd (ResponseFilter p v) st" "\<lambda>st. Response_HasChange (fst st)"
  "responsePhase_filter cd reg" cd pay ans rel_resp conn_resp
  "\<lambda>p v. run_spec (resp_spec cd ans) (ResponseFilter p v)" Response_HasChange
  for cd pay ans reg
  by unfold_locales (auto simp: run_resp_def response_talk.run_follows rel_resp_def resp_equiv_def Response_HasChange_def)

subsection \<open>No variable is asked twice\<close>

fun asked_names :: "info list \<Rightarrow> string list" where
  "asked_names [] = []"
| "asked_names (InfoVar name # ks) = name # asked_names ks"
| "asked_names (i # ks) = asked_names ks"

lemma asked_names_append [simp]: "asked_names (ks @ ks') = asked_names ks @ asked_names ks'"
  by (induction ks rule: asked_names.induct) simp_all

text \<open>The names asked on the way from \<open>x\<close> to \<open>x'\<close> are different, were not cached in \<open>x\<close> and are in \<open>x'\<close>.\<close>

definition once :: "('x \<Rightarrow> string set) \<Rightarrow> 'x \<Rightarrow> info list \<Rightarrow> 'x \<Rightarrow> bool" where
  "once V x ks x' \<longleftrightarrow> distinct (asked_names ks) \<and> set (asked_names ks) \<inter> V x = {} \<and>
     V x \<union> set (asked_names ks) \<subseteq> V x'"

lemma once_refl: "once V x [] x"
  by (simp add: once_def)

lemma once_trans: "once V x ks x' \<Longrightarrow> once V x' ks' x'' \<Longrightarrow> once V x (ks @ ks') x''"
  unfolding once_def by auto

locale asks_once =
  fixes spec :: "'call \<Rightarrow> 'x \<Rightarrow> api_ret rt \<times> 'x \<times> info list" and V :: "'x \<Rightarrow> string set"
  assumes spec_once: "spec c x = (v, x', ks) \<Longrightarrow> once V x ks x'"
begin

lemma run_once: "run_spec spec p x = (r, x', ks) \<Longrightarrow> once V x ks x'"
proof (induction p arbitrary: x r x' ks)
  case (Call c k)
  obtain v x1 k1 where s: "spec c x = (v, x1, k1)" by (cases "spec c x") auto
  from spec_once [OF s] have o1: "once V x k1 x1" .
  show ?case
  proof (cases v)
    case Panic
    with Call.prems s o1 show ?thesis by auto
  next
    case (Val a)
    obtain r2 x2 k2 where r: "run_spec spec (k a) x1 = (r2, x2, k2)" by (cases "run_spec spec (k a) x1") auto
    from Call.IH [OF rangeI r] o1 Call.prems s r Val show ?thesis by (auto intro: once_trans)
  qed
qed (auto simp: once_refl)

lemma chain_once:
  "chain_spec fnd (\<lambda>p v. run_spec spec (flt p v)) chg conf x = (r, x', ks) \<Longrightarrow> once V x ks x'"
proof (induction conf arbitrary: x r x' ks)
  case (Cons c conf)
  obtain name v where c: "c = (name, v)" by (cases c)
  show ?case
  proof (cases "fnd name")
    case None
    with Cons c show ?thesis by auto
  next
    case (Some p)
    obtain r1 x1 k1 where f: "run_spec spec (flt p v) x = (r1, x1, k1)" by (cases "run_spec spec (flt p v) x") auto
    obtain r2 x2 k2 where g: "chain_spec fnd (\<lambda>p v. run_spec spec (flt p v)) chg conf x1 = (r2, x2, k2)"
      by (cases "chain_spec fnd (\<lambda>p v. run_spec spec (flt p v)) chg conf x1") auto
    from run_once [OF f] Cons.IH [OF g] Cons.prems c Some f g show ?thesis
      by (cases r1) (auto split: if_splits intro: once_trans)
  qed
qed (simp add: once_refl)

end

definition cached_names :: "(string, bytes option) gomap option \<Rightarrow> string set" where
  "cached_names vars = dom (map_of (case vars of None \<Rightarrow> [] | Some m \<Rightarrow> m))"

lemma Var_spec_once: "Var_spec ans name vars = (v, m, ks) \<Longrightarrow> once cached_names vars ks m"
  by (erule Var_spec_cases) (auto simp: once_def cached_names_def update_conv')

lemma Body_spec_once: "Body_spec ans which b = (v, ks) \<Longrightarrow> which \<in> {InfoReqBody, InfoRespBody} \<Longrightarrow> asked_names ks = []"
  by (erule Body_spec_cases) auto

interpretation request_once: asks_once "req_spec cd ro ans" "\<lambda>x. cached_names (reqVars (snd x))" for cd ro ans
proof
  fix c x v x' ks
  assume e: "req_spec cd ro ans c x = (v, x', ks)"
  obtain w r where x: "x = (w, r)" by (cases x)
  show "once (\<lambda>x. cached_names (reqVars (snd x))) x ks x'"
  proof (cases c)
    case (CallVar name)
    with e x show ?thesis by (auto simp: once_def dest!: Var_spec_once split: prod.splits)
  next
    case CallBody
    with e x show ?thesis by (auto simp: once_def dest!: Body_spec_once split: prod.splits)
  qed (use e x in \<open>auto simp: once_def on_r_def on_w_def api_defs upd_header_def get_header_of_def upd_args_def
          upd_respHeader_def Request_Args_def Request_SetPath_def Request_SetBody_def
          split: prod.splits option.splits rt.splits\<close>)
qed

interpretation response_once: asks_once "resp_spec cd ans" "\<lambda>r. cached_names (respVars r)" for cd ans
proof
  fix c x v x' ks
  assume e: "resp_spec cd ans c x = (v, x', ks)"
  show "once (\<lambda>r. cached_names (respVars r)) x ks x'"
  proof (cases c)
    case (RCallVar name)
    with e show ?thesis by (auto simp: once_def dest!: Var_spec_once split: prod.splits)
  next
    case RCallReadBody
    with e show ?thesis by (auto simp: once_def dest!: Body_spec_once split: prod.splits)
  qed (use e in \<open>auto simp: once_def on_resp_def api_defs resp_upd_header_def resp_get_header_def
          split: prod.splits option.splits rt.splits if_splits\<close>)
qed

subsection \<open>The handlers\<close>

lemma requestPhase_builder_conn: "requestPhase_builder ro rid w r s = (res, s') \<Longrightarrow> ioConn s' = ioConn s"
  by (auto simp: requestPhase_builder_def Let_def dest: GetBuilder_frame split: prod.splits if_splits rt.splits bool.splits)

lemma responsePhase_builder_conn: "responsePhase_builder ro rid r s = (res, s') \<Longrightarrow> ioConn s' = ioConn s"
  by (auto simp: responsePhase_builder_def Let_def dest: GetBuilder_frame split: prod.splits if_splits rt.splits bool.splits)

lemma reqCall_main_conn:
  assumes "Request_ConfToken (fst (snd st)) = Val token" "GetRuleConf T token cc = (Val (Inr conf), cc')"
    and "requestPhase_filter cd ro reg conf st = (f, st1)" "reqCall_main cd ro T reg st cc = (res, st', cc'')"
  shows "conn_req st' = conn_req st1"
  using assms
  by (auto simp: reqCall_main_def reqCall_finish_def conn_req_def dest: requestPhase_builder_conn
      split: rt.splits option.splits prod.splits)

lemma respCall_main_conn:
  assumes "Response_ConfToken (fst st) = Val token" "GetRuleConf T token cc = (Val (Inr conf), cc')"
    and "responsePhase_filter cd reg conf st = (f, st1)" "respCall_main cd ro T reg st cc = (res, st', cc'')"
  shows "conn_resp st' = conn_resp st1"
  using assms
  by (auto simp: respCall_main_def respCall_finish_def conn_resp_def dest: responsePhase_builder_conn
      split: rt.splits option.splits prod.splits)

lemma answer_kind_equiv:
  assumes "req_equiv r r'"
  shows "answer_kind ro rid w r' act = answer_kind ro rid w r act"
proof -
  have "Request_hasChanges r' = Request_hasChanges r" using assms by (simp add: Request_hasChanges_def req_equiv_def)
  then show ?thesis by (simp only: answer_kind_def Request_FetchChanges_equiv [OF assms])
qed

text \<open>The answer to a call is that of the specification, and the plugins' questions are on the wire.\<close>

lemma HTTPReqCall_talks:
  assumes ok: "pools_ok rn" "ranges_ok ro" "GetRootAsHTTPReqCall cd buf = Val q"
    and conf: "GetRuleConf T (hqConfToken q) (rnCache rn) = (Val (Inr conf), cc)"
    and spec: "requestPhase_spec cd ro ans reg conf (newReqResponse, fresh_request q (ioNextCtx (rnIo rn))) =
      (Val e, (w, r), ks)"
    and ans: "answers_ok cd pay ans ks" and wr: "wr_clean (ioConn (rnIo rn))"
    and av: "avail (ioConn (rnIo rn)) = answered pay ks @ rest"
  shows "\<exists>bd act rn'. HTTPReqCall cd ro T reg buf rn = (Val (Inr bd), rn') \<and>
    bdMsg bd = Some (MsgHTTPReqResp (hqId q) act) \<and> answer_kind ro (hqId q) w r act \<and> rnCache rn' = cc \<and>
    talked cd ks rest (ioConn (rnIo rn)) (ioConn (rnIo rn'))"
proof -
  let ?x = "(newReqResponse, fresh_request q (ioNextCtx (rnIo rn)))" and ?st = "req_start q (rnIo rn)"
  have rel: "rel_req ?x ?st" and c: "conn_req ?st = ioConn (rnIo rn)"
    by (simp_all add: rel_req_def req_start_def req_equiv_def fresh_request_def conn_req_def)
  from followsD [OF request_talks.chain_follows rel spec [unfolded requestPhase_spec_def] ans wr [folded c] av [folded c]]
  obtain st1 where f: "requestPhase_filter cd ro reg conf ?st = (Val e, st1)" "rel_req (w, r) st1"
    "talked cd ks rest (conn_req ?st) (conn_req st1)" by blast
  then obtain r' s where st1: "st1 = (w, r', s)" "req_equiv r r'" by (cases st1) (auto simp: rel_req_def)
  from reqCall_main_answer [OF ok(2) conf f(1) [unfolded st1]] obtain bd s' act where
    m: "reqCall_main cd ro T reg ?st (rnCache rn) = (Val (Inr bd), (w, r', s'), cc)"
    "bdMsg bd = Some (MsgHTTPReqResp (hqId q) act)" "answer_kind ro (hqId q) w r' act" by blast
  have tok: "Request_ConfToken (fst (snd ?st)) = Val (hqConfToken q)"
    by (simp add: req_start_def fresh_request_def Request_ConfToken_def with_r_def)
  from reqCall_main_conn [OF tok conf f(1) m(1)] have "ioConn s' = conn_req st1" by (simp add: conn_req_def)
  with HTTPReqCall_fresh [OF ok(1,3) m(1)] m(2,3) f(3) c answer_kind_equiv [OF st1(2)] show ?thesis by auto
qed

definition response_message :: "range_orders \<Rightarrow> u32 \<Rightarrow> Response \<Rightarrow> msg option" where
  "response_message ro rid r =
     (case (case respHeader r of
              None \<Rightarrow> Val None
            | Some h \<Rightarrow> map_rt (\<lambda>es. Some (build_vector es)) (HeaderBuild (ro RDeleteField) (ro RHdr) h)) of
        Panic \<Rightarrow> None
      | Val hdrs \<Rightarrow> Some (MsgHTTPRespResp rid
          (if statusCode r \<noteq> 0 then Some (word_of_int (statusCode r)) else None) hdrs
          (case respBody r of None \<Rightarrow> None | Some b \<Rightarrow> if b = [] then None else Some b)))"

lemma HTTPRespCall_talks:
  assumes ok: "pools_ok rn" "ranges_ok ro" "GetRootAsHTTPRespCall cd buf = Val q"
    and conf: "GetRuleConf T (hpConfToken q) (rnCache rn) = (Val (Inr conf), cc)"
    and spec: "responsePhase_spec cd ans reg conf (fresh_response q) = (Val e, r, ks)"
    and ans: "answers_ok cd pay ans ks" and wr: "wr_clean (ioConn (rnIo rn))"
    and av: "avail (ioConn (rnIo rn)) = answered pay ks @ rest"
  shows "\<exists>bd m rn'. HTTPRespCall cd ro T reg buf rn = (Val (Inr bd), rn') \<and>
    bdMsg bd = Some m \<and> response_message ro (hpId q) r = Some m \<and> rnCache rn' = cc \<and>
    talked cd ks rest (ioConn (rnIo rn)) (ioConn (rnIo rn'))"
proof -
  let ?st = "resp_start q (rnIo rn)"
  have rel: "rel_resp (fresh_response q) ?st" and c: "conn_resp ?st = ioConn (rnIo rn)"
    by (auto simp: rel_resp_def resp_start_def resp_equiv_def fresh_response_def conn_resp_def newResponse_def)
  from followsD [OF response_talks.chain_follows rel spec [unfolded responsePhase_spec_def] ans wr [folded c] av [folded c]]
  obtain st1 where f: "responsePhase_filter cd reg conf ?st = (Val e, st1)" "rel_resp r st1"
    "talked cd ks rest (conn_resp ?st) (conn_resp st1)" by blast
  then obtain h s where st1: "st1 = (r\<lparr>respInfoHeader := h\<rparr>, s)"
    by (cases st1) (auto simp: rel_resp_def resp_equiv_def)
  from respCall_main_answer [OF ok(2) conf f(1) [unfolded st1]] obtain bd s' hdrs where
    m: "respCall_main cd ro T reg ?st (rnCache rn) = (Val (Inr bd), (r\<lparr>respInfoHeader := h\<rparr>, s'), cc)"
    "bdMsg bd = Some (MsgHTTPRespResp (hpId q)
      (if statusCode r \<noteq> 0 then Some (word_of_int (statusCode r)) else None) hdrs
      (case respBody r of None \<Rightarrow> None | Some b \<Rightarrow> if b = [] then None else Some b))"
    "case respHeader r of None \<Rightarrow> hdrs = None
     | Some h \<Rightarrow> \<exists>es. HeaderBuild (ro RDeleteField) (ro RHdr) h = Val es \<and> hdrs = Some (build_vector es)"
    by (auto cong del: if_weak_cong)
  have tok: "Response_ConfToken (fst ?st) = Val (hpConfToken q)"
    by (simp add: resp_start_def fresh_response_def Response_ConfToken_def with_resp_def)
  from respCall_main_conn [OF tok conf f(1) m(1)] have "ioConn s' = conn_resp st1" by (simp add: conn_resp_def)
  moreover have "bdMsg bd = response_message ro (hpId q) r"
    using m(2,3) by (cases "respHeader r") (auto simp: response_message_def)
  moreover obtain m0 where "bdMsg bd = Some m0" using m(2) by blast
  ultimately show ?thesis using HTTPRespCall_fresh [OF ok(1,3) m(1)] f(3) c
    by (intro exI [of _ bd] exI [of _ m0]) auto
qed

subsection \<open>The turns of a connection\<close>

definition request_turn :: "codec \<Rightarrow> (info \<Rightarrow> byte \<times> bytes) \<Rightarrow> info list \<Rightarrow> bytes \<Rightarrow> (action option \<Rightarrow> bool) \<Rightarrow> u32 \<Rightarrow> turn" where
  "request_turn cd pay ks buf good rid = \<lparr>tRequest = (RPCHTTPReqCall, buf), tAnswers = answered pay ks,
     tAsks = asked cd ks,
     tReply = (\<lambda>g. \<exists>act. good act \<and> g = (RPCHTTPReqCall, encode_msg cd (MsgHTTPReqResp rid act)))\<rparr>"

lemma request_serves:
  assumes ok: "ranges_ok ro" "GetRootAsHTTPReqCall cd buf = Val q"
    and conf: "\<And>cc. I cc \<Longrightarrow> \<exists>cc'. GetRuleConf T (hqConfToken q) cc = (Val (Inr conf), cc') \<and> I cc'"
    and spec: "\<And>n. \<exists>e w r. requestPhase_spec cd ro ans reg conf (newReqResponse, fresh_request q n) = (Val e, (w, r), ks) \<and>
      (\<forall>act. answer_kind ro (hqId q) w r act \<longrightarrow> good act)"
    and ans: "answers_ok cd pay ans ks" and small: "\<And>act. good act \<Longrightarrow> length (encode_msg cd (MsgHTTPReqResp (hqId q) act)) < MaxDataSize"
  shows "serves cd ro T reg I (request_turn cd pay ks buf good (hqId q))"
  unfolding serves_def
proof (intro allI impI)
  fix rn :: "'a runner" and rest
  let ?t = "request_turn cd pay ks buf good (hqId q)"
  assume rn: "runner_ok rn" "I (rnCache rn)" "wr_clean (ioConn (rnIo rn))" "avail (ioConn (rnIo rn)) = tAnswers ?t @ rest"
  from conf [OF rn(2)] obtain cc' where c: "GetRuleConf T (hqConfToken q) (rnCache rn) = (Val (Inr conf), cc')" "I cc'"
    by blast
  from spec [of "ioNextCtx (rnIo rn)"] obtain e w r where
    sp: "requestPhase_spec cd ro ans reg conf (newReqResponse, fresh_request q (ioNextCtx (rnIo rn))) = (Val e, (w, r), ks)"
    and good: "\<And>act. answer_kind ro (hqId q) w r act \<Longrightarrow> good act" by blast
  have p: "pools_ok rn" using rn(1) by (simp add: runner_ok_def)
  have av: "avail (ioConn (rnIo rn)) = answered pay ks @ rest" using rn(4) by (simp add: request_turn_def)
  from HTTPReqCall_talks [OF p ok c(1) sp ans rn(3) av] obtain bd act rn' where
    h: "HTTPReqCall cd ro T reg buf rn = (Val (Inr bd), rn')" "bdMsg bd = Some (MsgHTTPReqResp (hqId q) act)"
    "answer_kind ro (hqId q) w r act" "rnCache rn' = cc'" "talked cd ks rest (ioConn (rnIo rn)) (ioConn (rnIo rn'))"
    by blast
  have "typeHandlerMap cd ro T reg RPCHTTPReqCall = Some (HTTPReqCall cd ro T reg)"
    by (simp add: typeHandlerMap_def rpc_defs)
  from dispatch_answer [OF this h(1,2) small [OF good [OF h(3)]]] h c(2) good
  show "\<exists>bd rty m rn'. dispatchRPC cd ro T reg (fst (tRequest ?t)) (snd (tRequest ?t)) rn = (Val (bd, rty), rn') \<and>
      bdMsg bd = Some m \<and> tReply ?t (rty, encode_msg cd m) \<and> I (rnCache rn') \<and>
      wr_clean (ioConn (rnIo rn')) \<and> avail (ioConn (rnIo rn')) = rest \<and>
      sent (ioConn (rnIo rn')) = sent (ioConn (rnIo rn)) @ tAsks ?t"
    by (auto simp: request_turn_def talked_def)
qed

definition response_turn :: "codec \<Rightarrow> (info \<Rightarrow> byte \<times> bytes) \<Rightarrow> info list \<Rightarrow> bytes \<Rightarrow> msg \<Rightarrow> turn" where
  "response_turn cd pay ks buf m = \<lparr>tRequest = (RPCHTTPRespCall, buf), tAnswers = answered pay ks,
     tAsks = asked cd ks, tReply = (\<lambda>g. g = (RPCHTTPRespCall, encode_msg cd m))\<rparr>"

lemma response_serves:
  assumes ok: "ranges_ok ro" "GetRootAsHTTPRespCall cd buf = Val q"
    and conf: "\<And>cc. I cc \<Longrightarrow> \<exists>cc'. GetRuleConf T (hpConfToken q) cc = (Val (Inr conf), cc') \<and> I cc'"
    and spec: "responsePhase_spec cd ans reg conf (fresh_response q) = (Val e, r, ks)"
    and m: "response_message ro (hpId q) r = Some m"
    and ans: "answers_ok cd pay ans ks" and small: "length (encode_msg cd m) < MaxDataSize"
  shows "serves cd ro T reg I (response_turn cd pay ks buf m)"
  unfolding serves_def
proof (intro allI impI)
  fix rn :: "'a runner" and rest
  let ?t = "response_turn cd pay ks buf m"
  assume rn: "runner_ok rn" "I (rnCache rn)" "wr_clean (ioConn (rnIo rn))" "avail (ioConn (rnIo rn)) = tAnswers ?t @ rest"
  from conf [OF rn(2)] obtain cc' where c: "GetRuleConf T (hpConfToken q) (rnCache rn) = (Val (Inr conf), cc')" "I cc'"
    by blast
  have p: "pools_ok rn" using rn(1) by (simp add: runner_ok_def)
  have av: "avail (ioConn (rnIo rn)) = answered pay ks @ rest" using rn(4) by (simp add: response_turn_def)
  from HTTPRespCall_talks [OF p ok c(1) spec ans rn(3) av] m obtain bd rn' where
    h: "HTTPRespCall cd ro T reg buf rn = (Val (Inr bd), rn')" "bdMsg bd = Some m"
    "rnCache rn' = cc'" "talked cd ks rest (ioConn (rnIo rn)) (ioConn (rnIo rn'))" by auto
  have "typeHandlerMap cd ro T reg RPCHTTPRespCall = Some (HTTPRespCall cd ro T reg)"
    by (simp add: typeHandlerMap_def rpc_defs)
  from dispatch_answer [OF this h(1,2) small] h c(2)
  show "\<exists>bd rty m rn'. dispatchRPC cd ro T reg (fst (tRequest ?t)) (snd (tRequest ?t)) rn = (Val (bd, rty), rn') \<and>
      bdMsg bd = Some m \<and> tReply ?t (rty, encode_msg cd m) \<and> I (rnCache rn') \<and>
      wr_clean (ioConn (rnIo rn')) \<and> avail (ioConn (rnIo rn')) = rest \<and>
      sent (ioConn (rnIo rn')) = sent (ioConn (rnIo rn)) @ tAsks ?t"
    by (auto simp: response_turn_def talked_def)
qed

subsection \<open>A plugin that asks\<close>

text \<open>It fetches a variable, the body and the variable again, and answers with the body; in the
  response phase it replaces the body by its reverse.\<close>

definition ask_opts :: "bytes pluginOpts" where
  "ask_opts = \<lparr>ParseConf = (\<lambda>b. Val (case b of None \<Rightarrow> Inl (OtherError ''empty'') | Some x \<Rightarrow> Inr x)),
     RequestFilter = (\<lambda>_. Call (CallVar ''v'') (\<lambda>_. Call CallBody (\<lambda>b. Call (CallVar ''v'') (\<lambda>_.
       case b of RResult (Inr (Some x)) \<Rightarrow> Call (CallWrite x) (\<lambda>_. Done) | _ \<Rightarrow> Done)))),
     ResponseFilter = (\<lambda>_. Call RCallReadBody (\<lambda>b.
       case b of RResult (Inr (Some x)) \<Rightarrow> Call (RCallWrite (rev x)) (\<lambda>_. Done) | _ \<Rightarrow> Done))\<rparr>"

fun ask_pay :: "info \<Rightarrow> byte \<times> bytes" where
  "ask_pay (InfoVar name) = (RPCExtraInfo, [5])"
| "ask_pay InfoReqBody = (RPCExtraInfo, [6, 7])"
| "ask_pay InfoRespBody = (RPCExtraInfo, [8, 9])"

abbreviation ask_ans :: "info \<Rightarrow> bytes option" where
  "ask_ans i \<equiv> Some (snd (ask_pay i))"

fun talk_encode :: "msg \<Rightarrow> bytes" where
  "talk_encode (MsgExtraInfoReq (InfoVar name)) = [1]"
| "talk_encode (MsgExtraInfoReq InfoReqBody) = [2]"
| "talk_encode (MsgExtraInfoReq InfoRespBody) = [3]"
| "talk_encode (MsgHTTPReqResp rid (Some (ActionStop stop))) = [4, 4]"
| "talk_encode (MsgHTTPRespResp rid status hdrs (Some b)) = 5 # b"
| "talk_encode m = []"

definition talk_codec :: codec where
  "talk_codec = sample_codec\<lparr>encode_msg := talk_encode\<rparr>"

lemma talk_codec_simps [simp]:
  "encode_msg talk_codec = talk_encode" "GetRootAsExtraInfoResp talk_codec p = Val (Some p)"
  "GetRootAsHTTPReqCall talk_codec [1] = Val sample_hreq" "GetRootAsHTTPRespCall talk_codec [1] = Val sample_hresp"
  by (simp_all add: talk_codec_def sample_codec_def)

lemma ask_answers_ok: "answers_ok talk_codec ask_pay ask_ans ks"
proof -
  have "length (snd (ask_pay i)) < 2 ^ 24" for i by (cases i) simp_all
  then show ?thesis by (simp add: answers_ok_def)
qed

lemma ask_request_spec:
  "\<exists>w r. requestPhase_spec talk_codec ro ask_ans [(''p'', ask_opts)]
      [(''x'', [1]), (''p'', [7]), (''p'', [8])] (newReqResponse, fresh_request q n) =
    (Val None, (w, r), [InfoVar ''v'', InfoReqBody]) \<and> ReqResponse_HasChange w \<and> rrBody w = Some [6, 7]"
  by (simp add: requestPhase_spec_def findPlugin_def ask_opts_def Var_spec_def Body_spec_def on_w_def
      fresh_request_def newRequest_def newReqResponse_def ReqResponse_Write_def ReqResponse_HasChange_def buffer_Write_def Let_def)

lemma ask_response_spec:
  "\<exists>r. responsePhase_spec talk_codec ask_ans [(''p'', ask_opts)]
      [(''x'', [1]), (''p'', [7]), (''p'', [8])] (fresh_response q) = (Val None, r, [InfoRespBody]) \<and>
    respBody r = Some [9, 8] \<and> respHeader r = None \<and> statusCode r = 0"
  by (simp add: responsePhase_spec_def findPlugin_def ask_opts_def Body_spec_def on_resp_def
      fresh_response_def newResponse_def Response_Write_def Response_HasChange_def buffer_Write_def)

abbreviation ask_reg :: "bytes registry" where
  "ask_reg \<equiv> [(''p'', ask_opts)]"

abbreviation ask_conf :: "(string \<times> bytes) list" where
  "ask_conf \<equiv> [(''x'', [1]), (''p'', [7]), (''p'', [8])]"

text \<open>A turn whose plugin asks twice, and one whose plugin asks once.\<close>

definition ask_request_turn :: turn where
  "ask_request_turn = request_turn talk_codec ask_pay [InfoVar ''v'', InfoReqBody] [1]
     (\<lambda>act. \<exists>s. act = Some (ActionStop s)) (hqId sample_hreq)"

definition ask_response_turn :: turn where
  "ask_response_turn = response_turn talk_codec ask_pay [InfoRespBody] [1] (MsgHTTPRespResp 9 None None (Some [9, 8]))"

lemma sample_ids: "hqConfToken sample_hreq = 1" "hpConfToken sample_hresp = 1" "hqId sample_hreq = 9" "hpId sample_hresp = 9"
  by (simp_all add: sample_hreq_def sample_hresp_def)

lemma ask_request_serves:
  assumes "\<And>cc. I cc \<Longrightarrow> \<exists>cc'. GetRuleConf map_ttl 1 cc = (Val (Inr ask_conf), cc') \<and> I cc'"
  shows "serves talk_codec (\<lambda>_. rev) map_ttl ask_reg I ask_request_turn"
  unfolding ask_request_turn_def
proof (rule request_serves [OF ranges_ok_rev, where ans = ask_ans and conf = ask_conf])
  let ?stop = "\<lambda>act. \<exists>s. act = Some (ActionStop s)"
  fix n
  from ask_request_spec [of "\<lambda>_. rev" sample_hreq n] obtain w r where
    "requestPhase_spec talk_codec (\<lambda>_. rev) ask_ans ask_reg ask_conf (newReqResponse, fresh_request sample_hreq n) =
      (Val None, (w, r), [InfoVar ''v'', InfoReqBody])" "ReqResponse_HasChange w" by blast
  then show "\<exists>e w r. requestPhase_spec talk_codec (\<lambda>_. rev) ask_ans ask_reg ask_conf
      (newReqResponse, fresh_request sample_hreq n) = (Val e, (w, r), [InfoVar ''v'', InfoReqBody]) \<and>
    (\<forall>act. answer_kind (\<lambda>_. rev) (hqId sample_hreq) w r act \<longrightarrow> ?stop act)"
    by (auto simp: answer_kind_def)
qed (use assms ask_answers_ok in \<open>auto simp: sample_ids MaxDataSize_def push_bit_eq_mult\<close>)

lemma ask_response_serves:
  assumes "\<And>cc. I cc \<Longrightarrow> \<exists>cc'. GetRuleConf map_ttl 1 cc = (Val (Inr ask_conf), cc') \<and> I cc'"
  shows "serves talk_codec (\<lambda>_. rev) map_ttl ask_reg I ask_response_turn"
proof -
  obtain r where r: "responsePhase_spec talk_codec ask_ans ask_reg ask_conf (fresh_response sample_hresp) =
      (Val None, r, [InfoRespBody])" "respBody r = Some [9, 8]" "respHeader r = None" "statusCode r = 0"
    using ask_response_spec by blast
  then have m: "response_message (\<lambda>_. rev) (hpId sample_hresp) r = Some (MsgHTTPRespResp 9 None None (Some [9, 8]))"
    by (simp add: response_message_def sample_ids)
  show ?thesis
    unfolding ask_response_turn_def
    by (rule response_serves [OF ranges_ok_rev _ _ r(1) m ask_answers_ok])
      (use assms in \<open>simp_all add: sample_ids MaxDataSize_def push_bit_eq_mult\<close>)
qed

lemmas ask_turn_defs = ask_request_turn_def ask_response_turn_def request_turn_def response_turn_def

lemma ask_turns_input:
  "concat (map (\<lambda>t. frame (tRequest t) @ tAnswers t) [ask_request_turn, ask_response_turn]) =
    [2, 0, 0, 1, 1, 3, 0, 0, 1, 5, 3, 0, 0, 2, 6, 7, 4, 0, 0, 1, 1, 3, 0, 0, 2, 8, 9]"
  by (simp add: ask_turn_defs answered_def frame_def put_header_def PutUint32_def rpc_defs)

lemma ask_turns_output:
  assumes "list_all2 tReply [ask_request_turn, ask_response_turn] replies"
  shows "concat (map2 (\<lambda>t g. tAsks t @ frame g) [ask_request_turn, ask_response_turn] replies) =
    [3, 0, 0, 1, 1, 3, 0, 0, 1, 2, 2, 0, 0, 2, 4, 4, 3, 0, 0, 1, 3, 4, 0, 0, 3, 5, 9, 8]"
  using assms by (auto simp: list_all2_Cons1 ask_turn_defs asked_def ask_frame_def frame_def put_header_def PutUint32_def rpc_defs)

lemma ask_turns_length: "t \<in> set [ask_request_turn, ask_response_turn] \<Longrightarrow> length (snd (tRequest t)) < 2 ^ 24"
  by (auto simp: ask_turn_defs)

subsection \<open>Properties\<close>

text \<open>C8: plugins that ask, in the request phase.  When APISIX answers the plugins' questions by \<open>ans\<close>,
  its answers are on the connection in the order of the questions, split in any way, and it
  takes what it is sent, then running the plugins over the connection gives the result of the
  specification, leaves the response and (up to the header buffer) the request it leaves, sends exactly one
  frame per question and consumes exactly the answers; and no variable is asked for twice or after it was cached.\<close>

theorem requestPhase_dialogue:
  assumes spec: "requestPhase_spec cd ro ans reg conf (w, r) = (v, (w', r'), ks)" and conn: "reqConn r"
    and ans: "answers_ok cd pay ans ks" and wr: "wr_clean (ioConn s)" and av: "avail (ioConn s) = answered pay ks @ rest"
  shows "(\<exists>r1 s1. requestPhase_filter cd ro reg conf (w, r, s) = (v, (w', r1, s1)) \<and> req_equiv r' r1 \<and>
      sent (ioConn s1) = sent (ioConn s) @ asked cd ks \<and> avail (ioConn s1) = rest) \<and>
    distinct (asked_names ks) \<and> set (asked_names ks) \<inter> cached_names (reqVars r) = {}"
proof
  have rel: "rel_req (w, r) (w, r, s)" using conn by (simp add: rel_req_def req_equiv_def)
  have c: "conn_req (w, r, s) = ioConn s" by (simp add: conn_req_def)
  from followsD [OF request_talks.chain_follows rel spec [unfolded requestPhase_spec_def] ans wr [folded c] av [folded c]]
  obtain st1 where "requestPhase_filter cd ro reg conf (w, r, s) = (v, st1)" "rel_req (w', r') st1"
    "talked cd ks rest (ioConn s) (conn_req st1)" unfolding c by blast
  then show "\<exists>r1 s1. requestPhase_filter cd ro reg conf (w, r, s) = (v, (w', r1, s1)) \<and> req_equiv r' r1 \<and>
      sent (ioConn s1) = sent (ioConn s) @ asked cd ks \<and> avail (ioConn s1) = rest"
    by (cases st1) (auto simp: rel_req_def talked_def conn_req_def)
  from request_once.chain_once [OF spec [unfolded requestPhase_spec_def]]
  show "distinct (asked_names ks) \<and> set (asked_names ks) \<inter> cached_names (reqVars r) = {}" by (simp add: once_def)
qed

theorem requestPhase_dialogue_witness:
  "\<exists>w r1 s1. requestPhase_filter talk_codec (\<lambda>_. rev) [(''p'', ask_opts)] [(''p'', [7])]
      (newReqResponse, newRequest\<lparr>reqConn := True\<rparr>,
       no_io\<lparr>ioConn := \<lparr>rd = [RdData [3, 0], RdData [0, 1, 5, 3, 0, 0, 2, 6], RdData [7, 42]], wr = [WrOk 1],
         sent = [], closed = False\<rparr>\<rparr>) = (Val None, (w, r1, s1)) \<and> rrBody w = Some [6, 7] \<and>
    sent (ioConn s1) = [3, 0, 0, 1, 1, 3, 0, 0, 1, 2] \<and> avail (ioConn s1) = [42]"
proof -
  let ?c = "\<lparr>rd = [RdData [3, 0], RdData [0, 1, 5, 3, 0, 0, 2, 6], RdData [7, 42]], wr = [WrOk 1],
    sent = [], closed = False\<rparr>"
  let ?ks = "[InfoVar ''v'', InfoReqBody]"
  obtain w r where sp: "requestPhase_spec talk_codec (\<lambda>_. rev) ask_ans [(''p'', ask_opts)] [(''p'', [7])]
      (newReqResponse, newRequest\<lparr>reqConn := True\<rparr>) = (Val None, (w, r), ?ks)" "rrBody w = Some [6, 7]"
    by (simp add: requestPhase_spec_def findPlugin_def ask_opts_def Var_spec_def Body_spec_def on_w_def
        newRequest_def newReqResponse_def ReqResponse_Write_def ReqResponse_HasChange_def buffer_Write_def Let_def)
  have av: "avail (ioConn (no_io\<lparr>ioConn := ?c\<rparr>)) = answered ask_pay ?ks @ [42]"
    by (simp add: avail_def answered_def frame_def put_header_def PutUint32_def rpc_defs)
  have "asked talk_codec ?ks = [3, 0, 0, 1, 1, 3, 0, 0, 1, 2]"
    by (simp add: asked_def ask_frame_def frame_def put_header_def PutUint32_def rpc_defs)
  with requestPhase_dialogue [OF sp(1) _ ask_answers_ok _ av] sp(2) show ?thesis
    by (auto simp: wr_clean_def)
qed

text \<open>C23: plugins that ask, in the response phase.  The same for the response filters, \<open>Var\<close> and
  \<open>ReadBody\<close> of the response.\<close>

theorem responsePhase_dialogue:
  assumes spec: "responsePhase_spec cd ans reg conf r = (v, r', ks)" and conn: "respConn r"
    and ans: "answers_ok cd pay ans ks" and wr: "wr_clean (ioConn s)" and av: "avail (ioConn s) = answered pay ks @ rest"
  shows "(\<exists>h s1. responsePhase_filter cd reg conf (r, s) = (v, (r'\<lparr>respInfoHeader := h\<rparr>, s1)) \<and>
      sent (ioConn s1) = sent (ioConn s) @ asked cd ks \<and> avail (ioConn s1) = rest) \<and>
    distinct (asked_names ks) \<and> set (asked_names ks) \<inter> cached_names (respVars r) = {}"
proof
  have "resp_equiv r r" by (cases r) (auto simp: resp_equiv_def)
  then have rel: "rel_resp r (r, s)" using conn by (simp add: rel_resp_def)
  have c: "conn_resp (r, s) = ioConn s" by (simp add: conn_resp_def)
  from followsD [OF response_talks.chain_follows rel spec [unfolded responsePhase_spec_def] ans wr [folded c] av [folded c]]
  obtain st1 where "responsePhase_filter cd reg conf (r, s) = (v, st1)" "rel_resp r' st1"
    "talked cd ks rest (ioConn s) (conn_resp st1)" unfolding c by blast
  then show "\<exists>h s1. responsePhase_filter cd reg conf (r, s) = (v, (r'\<lparr>respInfoHeader := h\<rparr>, s1)) \<and>
      sent (ioConn s1) = sent (ioConn s) @ asked cd ks \<and> avail (ioConn s1) = rest"
    by (cases st1) (auto simp: rel_resp_def resp_equiv_def talked_def conn_resp_def)
  from response_once.chain_once [OF spec [unfolded responsePhase_spec_def]]
  show "distinct (asked_names ks) \<and> set (asked_names ks) \<inter> cached_names (respVars r) = {}" by (simp add: once_def)
qed

theorem responsePhase_dialogue_witness:
  "\<exists>r1 s1. responsePhase_filter talk_codec [(''p'', ask_opts)] [(''p'', [7])]
      (newResponse\<lparr>respConn := True\<rparr>,
       no_io\<lparr>ioConn := \<lparr>rd = [RdData [3, 0, 0, 2], RdData [8], RdData [9, 42]], wr = [], sent = [], closed = False\<rparr>\<rparr>) =
      (Val None, (r1, s1)) \<and> respBody r1 = Some [9, 8] \<and>
    sent (ioConn s1) = [3, 0, 0, 1, 3] \<and> avail (ioConn s1) = [42]"
proof -
  let ?c = "\<lparr>rd = [RdData [3, 0, 0, 2], RdData [8], RdData [9, 42]], wr = [], sent = [], closed = False\<rparr>"
  obtain r where sp: "responsePhase_spec talk_codec ask_ans [(''p'', ask_opts)] [(''p'', [7])]
      (newResponse\<lparr>respConn := True\<rparr>) = (Val None, r, [InfoRespBody])" "respBody r = Some [9, 8]"
    by (simp add: responsePhase_spec_def findPlugin_def ask_opts_def Body_spec_def on_resp_def
        newResponse_def Response_Write_def Response_HasChange_def buffer_Write_def)
  have av: "avail (ioConn (no_io\<lparr>ioConn := ?c\<rparr>)) = answered ask_pay [InfoRespBody] @ [42]"
    by (simp add: avail_def answered_def frame_def put_header_def PutUint32_def rpc_defs)
  have "asked talk_codec [InfoRespBody] = [3, 0, 0, 1, 3]"
    by (simp add: asked_def ask_frame_def frame_def put_header_def PutUint32_def rpc_defs)
  with responsePhase_dialogue [OF sp(1) _ ask_answers_ok _ av] sp(2) show ?thesis
    by (auto simp: wr_clean_def)
qed

text \<open>C7: a whole connection.  When APISIX sends a sequence of requests, each followed by its answers
  to the questions the plugins ask while the request is handled, however it splits them, takes
  everything it is sent and then closes, \<open>handleConn\<close> sends for each request, in order, the
  questions asked and then one reply that is right for the request, and nothing else.  The shared
  cache may change between the requests in any way that keeps the invariant the handlers rely on.\<close>

theorem handleConn_dialogue:
  assumes "avail (ioConn (rnIo rn)) = concat (map (\<lambda>t. frame (tRequest t) @ tAnswers t) ts)"
    and "wr_clean (ioConn (rnIo rn))" "runner_ok rn"
    and "I (rnCache rn)" and "\<And>i cc. I cc \<Longrightarrow> I (env i cc)"
    and "\<And>t. t \<in> set ts \<Longrightarrow> length (snd (tRequest t)) < 2 ^ 24"
    and "\<And>i t. t \<in> set ts \<Longrightarrow> serves cd (ros i) T reg I t"
  shows "\<exists>replies. list_all2 tReply ts replies \<and>
    sent (ioConn (rnIo (handleConn cd ros T reg env rn))) =
      sent (ioConn (rnIo rn)) @ concat (map2 (\<lambda>t g. tAsks t @ frame g) ts replies)"
proof -
  from handle_loop_serves [where I = I and i = 0 and env = env and ros = ros, OF assms]
  obtain replies rn' where "handle_loop cd ros T reg env 0 rn = (Val (), rn')" "list_all2 tReply ts replies"
    "sent (ioConn (rnIo rn')) = sent (ioConn (rnIo rn)) @ concat (map2 (\<lambda>t g. tAsks t @ frame g) ts replies)" by blast
  then show ?thesis by (auto simp: handleConn_def conn_Close_def)
qed

text \<open>A request whose plugin asks twice and a response whose plugin asks once, on one connection.\<close>

theorem handleConn_dialogue_witness:
  "sent (ioConn (rnIo (handleConn talk_codec (\<lambda>_ _. rev) map_ttl [(''p'', ask_opts)] (\<lambda>_ cc. cc)
      (set_conn \<lparr>rd = [RdData [2, 0, 0, 1, 1, 3, 0, 0, 1, 5, 3, 0], RdData [0, 2, 6, 7, 4, 0, 0, 1, 1, 3, 0, 0, 2, 8, 9]],
        wr = [WrOk 1], sent = [], closed = False\<rparr> sample_runner)))) =
    [3, 0, 0, 1, 1, 3, 0, 0, 1, 2, 2, 0, 0, 2, 4, 4, 3, 0, 0, 1, 3, 4, 0, 0, 3, 5, 9, 8]"
proof -
  let ?c = "\<lparr>rd = [RdData [2, 0, 0, 1, 1, 3, 0, 0, 1, 5, 3, 0], RdData [0, 2, 6, 7, 4, 0, 0, 1, 1, 3, 0, 0, 2, 8, 9]],
    wr = [WrOk 1], sent = [], closed = False\<rparr>"
  let ?I = "\<lambda>cc. cc = rnCache sample_runner" and ?ts = "[ask_request_turn, ask_response_turn]"
  have "\<exists>replies. list_all2 tReply ?ts replies \<and>
      sent (ioConn (rnIo (handleConn talk_codec (\<lambda>_ _. rev) map_ttl ask_reg (\<lambda>_ cc. cc) (set_conn ?c sample_runner)))) =
      sent (ioConn (rnIo (set_conn ?c sample_runner))) @ concat (map2 (\<lambda>t g. tAsks t @ frame g) ?ts replies)"
  proof (rule handleConn_dialogue [where I = ?I])
    show "avail (ioConn (rnIo (set_conn ?c sample_runner))) = concat (map (\<lambda>t. frame (tRequest t) @ tAnswers t) ?ts)"
      by (simp only: ask_turns_input) (simp add: avail_def)
    have "\<exists>cc'. GetRuleConf map_ttl 1 cc = (Val (Inr ask_conf), cc') \<and> ?I cc'" if "?I cc" for cc
      using sample_GetRuleConf that by simp
    then show "serves talk_codec ((\<lambda>_ _. rev) i) map_ttl ask_reg ?I t" if "t \<in> set ?ts" for i t
      using that ask_request_serves [of ?I] ask_response_serves [of ?I] by auto
  qed (use sample_runner_ok' ask_turns_length in \<open>auto simp: wr_clean_def\<close>)
  then obtain replies where "list_all2 tReply ?ts replies"
    "sent (ioConn (rnIo (handleConn talk_codec (\<lambda>_ _. rev) map_ttl ask_reg (\<lambda>_ cc. cc) (set_conn ?c sample_runner)))) =
      concat (map2 (\<lambda>t g. tAsks t @ frame g) ?ts replies)" by auto
  then show ?thesis by (simp only: ask_turns_output)
qed

end
