(* ===== verification/Server_Concurrent.thy ===== *)
theory Server_Concurrent
  imports Pool_Blind Dialogue
begin

section \<open>Several connections at once (internal/server/server.go)\<close>

text \<open>
  \<open>Run\<close> starts one goroutine \<open>handleConn\<close> per accepted connection.  They share the
  configuration cache and the object pools.  Here they all run at once: a world holds the shared
  cache and, for each connection, its own state and how far its goroutine is; a schedule is the list of
  steps in the order in which they happen, and says for each step what the shared pools hold.

  A round of the loop of \<open>handleConn\<close> takes three steps: reading a frame, the one operation on the
  cache that its handler makes, and the rest (the plugins run, the reply is sent).  That a
  handler makes one operation on the cache, and depends on the cache through its result only, is
  \<open>dispatch_one_access\<close>; that the operation is atomic is the mutex of \<open>Conf_Concurrent\<close>.
  \<open>Clock\<close> steps let entries of the cache expire.

  The main theorems: whatever the others do, a connection sees a run of \<open>handleConn\<close> of its own;
  each goroutine ends after a number of steps bounded by what its peer sends; and the shared
  cache goes through a history of calls in the sense of \<open>Conf\<close>.
\<close>

subsection \<open>One operation on the cache per request\<close>

text \<open>The operation a handler makes, with its result, and the cache after it; none if the frame does
  not decode or has another type.\<close>

definition cache_access ::
  "codec \<Rightarrow> ('k, 'c) ttl_ops \<Rightarrow> 'c registry \<Rightarrow> byte \<Rightarrow> bytes \<Rightarrow> 'k ConfCache \<Rightarrow> 'c conf_event list \<times> 'k ConfCache" where
  "cache_access cd T reg ty buf cc =
     (if ty = RPCPrepareConf then
        (case GetRootAsPrepareConf cd buf of Panic \<Rightarrow> ([], cc)
         | Val req \<Rightarrow> (case ConfCache_Set T reg req cc of (a, cc') \<Rightarrow> ([OSet req a], cc')))
      else if ty = RPCHTTPReqCall then
        (case GetRootAsHTTPReqCall cd buf of Panic \<Rightarrow> ([], cc)
         | Val q \<Rightarrow> (case GetRuleConf T (hqConfToken q) cc of (a, cc') \<Rightarrow> ([OGet (hqConfToken q) a], cc')))
      else if ty = RPCHTTPRespCall then
        (case GetRootAsHTTPRespCall cd buf of Panic \<Rightarrow> ([], cc)
         | Val q \<Rightarrow> (case GetRuleConf T (hpConfToken q) cc of (a, cc') \<Rightarrow> ([OGet (hpConfToken q) a], cc')))
      else ([], cc))"

lemma reqCall_main_access:
  assumes "Request_ConfToken (fst (snd st)) = Val t"
    and "reqCall_main cd ro T reg st cc = (res, st', cc')"
  shows "cc' = snd (GetRuleConf T t cc)"
    and "fst (GetRuleConf T t dd) = fst (GetRuleConf T t cc) \<Longrightarrow>
      reqCall_main cd ro T reg st dd = (res, st', snd (GetRuleConf T t dd))"
  using assms by (auto simp: reqCall_main_def Let_def split: rt.splits sum.splits prod.splits)

lemma respCall_main_access:
  assumes "Response_ConfToken (fst st) = Val t"
    and "respCall_main cd ro T reg st cc = (res, st', cc')"
  shows "cc' = snd (GetRuleConf T t cc)"
    and "fst (GetRuleConf T t dd) = fst (GetRuleConf T t cc) \<Longrightarrow>
      respCall_main cd ro T reg st dd = (res, st', snd (GetRuleConf T t dd))"
  using assms by (auto simp: respCall_main_def Let_def split: rt.splits sum.splits prod.splits)

text \<open>A function on runners whose only use of the cache is one operation with answer \<open>f\<close>.\<close>

definition one_access :: "('k ConfCache \<Rightarrow> 'a \<times> 'k ConfCache) \<Rightarrow> ('k runner \<Rightarrow> 'b \<times> 'k runner) \<Rightarrow> bool" where
  "one_access f h \<longleftrightarrow> (\<forall>rn res rn'. h rn = (res, rn') \<longrightarrow> rnCache rn' = snd (f (rnCache rn)) \<and>
     (\<forall>dd. fst (f dd) = fst (f (rnCache rn)) \<longrightarrow> h (rn\<lparr>rnCache := dd\<rparr>) = (res, rn'\<lparr>rnCache := snd (f dd)\<rparr>)))"

lemma HTTPReqCall_access:
  "one_access (cache_access cd T reg RPCHTTPReqCall buf) (HTTPReqCall cd ro T reg buf)"
  unfolding one_access_def
proof (intro allI impI)
  fix rn :: "'a runner" and res rn' assume h: "HTTPReqCall cd ro T reg buf rn = (res, rn')"
  show "rnCache rn' = snd (cache_access cd T reg RPCHTTPReqCall buf (rnCache rn)) \<and>
    (\<forall>dd. fst (cache_access cd T reg RPCHTTPReqCall buf dd) = fst (cache_access cd T reg RPCHTTPReqCall buf (rnCache rn)) \<longrightarrow>
      HTTPReqCall cd ro T reg buf (rn\<lparr>rnCache := dd\<rparr>) =
        (res, rn'\<lparr>rnCache := snd (cache_access cd T reg RPCHTTPReqCall buf dd)\<rparr>))"
  proof (cases "GetRootAsHTTPReqCall cd buf")
    case Panic
    with h show ?thesis
      by (auto simp: HTTPReqCall_def CreateRequest_def cache_access_def rpc_defs Let_def split: prod.splits)
  next
    case (Val q)
    obtain r0 reqs s where c: "CreateRequest cd buf (rnReqs rn) (rnIo rn) = (Val r0, reqs, s)" "req_r r0 = Some q"
      using Val by (cases "Pool_Get newRequest (rnReqs rn) (ioPicks (rnIo rn))") (simp add: CreateRequest_def Let_def)
    obtain w ws picks where cw: "CreateReqResponse (rnReqResps rn) (ioPicks s) = (w, ws, picks)"
      by (cases "CreateReqResponse (rnReqResps rn) (ioPicks s)") auto
    let ?st = "(w, Request_BindConn True r0, s\<lparr>ioPicks := picks\<rparr>)"
    have tok: "Request_ConfToken (fst (snd ?st)) = Val (hqConfToken q)"
      using c(2) by (simp add: Request_ConfToken_def with_r_def Request_BindConn_def)
    obtain m w' r' s' cc where main: "reqCall_main cd ro T reg ?st (rnCache rn) = (m, (w', r', s'), cc)"
      by (cases "reqCall_main cd ro T reg ?st (rnCache rn)") auto
    obtain u reqs' s'' where ru: "ReuseRequest r' reqs s' = (u, reqs', s'')" by (cases "ReuseRequest r' reqs s'")
    have a: "cache_access cd T reg RPCHTTPReqCall buf dd =
        ([OGet (hqConfToken q) (fst (GetRuleConf T (hqConfToken q) dd))], snd (GetRuleConf T (hqConfToken q) dd))" for dd
      using Val by (simp add: cache_access_def rpc_defs split: prod.split)
    note acc = reqCall_main_access [OF tok main]
    show ?thesis
    proof (intro conjI allI impI)
      show "rnCache rn' = snd (cache_access cd T reg RPCHTTPReqCall buf (rnCache rn))"
        using h acc(1) by (auto simp: HTTPReqCall_def c(1) cw main ru a Let_def)
      fix dd assume "fst (cache_access cd T reg RPCHTTPReqCall buf dd) =
        fst (cache_access cd T reg RPCHTTPReqCall buf (rnCache rn))"
      then have "reqCall_main cd ro T reg ?st dd = (m, (w', r', s'), snd (GetRuleConf T (hqConfToken q) dd))"
        using acc(2) by (simp add: a)
      then show "HTTPReqCall cd ro T reg buf (rn\<lparr>rnCache := dd\<rparr>) =
          (res, rn'\<lparr>rnCache := snd (cache_access cd T reg RPCHTTPReqCall buf dd)\<rparr>)"
        using h by (auto simp: HTTPReqCall_def c(1) cw main ru a Let_def)
    qed
  qed
qed

lemma HTTPRespCall_access:
  "one_access (cache_access cd T reg RPCHTTPRespCall buf) (HTTPRespCall cd ro T reg buf)"
  unfolding one_access_def
proof (intro allI impI)
  fix rn :: "'a runner" and res rn' assume h: "HTTPRespCall cd ro T reg buf rn = (res, rn')"
  show "rnCache rn' = snd (cache_access cd T reg RPCHTTPRespCall buf (rnCache rn)) \<and>
    (\<forall>dd. fst (cache_access cd T reg RPCHTTPRespCall buf dd) = fst (cache_access cd T reg RPCHTTPRespCall buf (rnCache rn)) \<longrightarrow>
      HTTPRespCall cd ro T reg buf (rn\<lparr>rnCache := dd\<rparr>) =
        (res, rn'\<lparr>rnCache := snd (cache_access cd T reg RPCHTTPRespCall buf dd)\<rparr>))"
  proof (cases "GetRootAsHTTPRespCall cd buf")
    case Panic
    with h show ?thesis
      by (auto simp: HTTPRespCall_def CreateResponse_def cache_access_def rpc_defs Let_def split: prod.splits)
  next
    case (Val q)
    obtain r0 resps s where c: "CreateResponse cd buf (rnResps rn) (rnIo rn) = (Val r0, resps, s)" "resp_r r0 = Some q"
      using Val by (cases "Pool_Get newResponse (rnResps rn) (ioPicks (rnIo rn))") (simp add: CreateResponse_def)
    let ?st = "(Response_BindConn True r0, s)"
    have tok: "Response_ConfToken (fst ?st) = Val (hpConfToken q)"
      using c(2) by (simp add: Response_ConfToken_def with_resp_def Response_BindConn_def)
    obtain m r' s' cc where main: "respCall_main cd ro T reg ?st (rnCache rn) = (m, (r', s'), cc)"
      by (cases "respCall_main cd ro T reg ?st (rnCache rn)") auto
    have a: "cache_access cd T reg RPCHTTPRespCall buf dd =
        ([OGet (hpConfToken q) (fst (GetRuleConf T (hpConfToken q) dd))], snd (GetRuleConf T (hpConfToken q) dd))" for dd
      using Val by (simp add: cache_access_def rpc_defs split: prod.split)
    note acc = respCall_main_access [OF tok main]
    show ?thesis
    proof (intro conjI allI impI)
      show "rnCache rn' = snd (cache_access cd T reg RPCHTTPRespCall buf (rnCache rn))"
        using h acc(1) by (auto simp: HTTPRespCall_def c(1) main a Let_def)
      fix dd assume "fst (cache_access cd T reg RPCHTTPRespCall buf dd) =
        fst (cache_access cd T reg RPCHTTPRespCall buf (rnCache rn))"
      then have "respCall_main cd ro T reg ?st dd = (m, (r', s'), snd (GetRuleConf T (hpConfToken q) dd))"
        using acc(2) by (simp add: a)
      then show "HTTPRespCall cd ro T reg buf (rn\<lparr>rnCache := dd\<rparr>) =
          (res, rn'\<lparr>rnCache := snd (cache_access cd T reg RPCHTTPRespCall buf dd)\<rparr>)"
        using h by (auto simp: HTTPRespCall_def c(1) main a Let_def)
    qed
  qed
qed

lemma PrepareConf_access:
  "one_access (cache_access cd T reg RPCPrepareConf buf)
    (\<lambda>rn. case PrepareConf cd T reg buf (rnCache rn) (rnIo rn) of (res, cc, s) \<Rightarrow> (res, rn\<lparr>rnCache := cc, rnIo := s\<rparr>))"
  unfolding one_access_def PrepareConf_def cache_access_def Let_def
  by (auto split: rt.splits sum.splits prod.splits)

lemma handler_access:
  assumes "typeHandlerMap cd ro T reg ty = Some hl"
  shows "one_access (cache_access cd T reg ty buf) (hl buf)"
  using assms HTTPReqCall_access [of cd T reg buf ro] HTTPRespCall_access [of cd T reg buf ro]
    PrepareConf_access [of cd T reg buf]
  by (auto simp: typeHandlerMap_def split: if_splits)

lemma on_rn_io_cache:
  "on_rn_io f (rn\<lparr>rnCache := dd\<rparr>) = (case on_rn_io f rn of (x, rn') \<Rightarrow> (x, rn'\<lparr>rnCache := dd\<rparr>))"
  "on_rn_io f rn = (x, rn') \<Longrightarrow> rnCache rn' = rnCache rn"
  by (auto simp: on_rn_io_def split: prod.splits)

text \<open>What follows the handler keeps this.\<close>

lemma one_access_then:
  assumes "one_access f h"
    and "\<And>x rn dd. g x (rn\<lparr>rnCache := dd\<rparr>) = (case g x rn of (y, rn') \<Rightarrow> (y, rn'\<lparr>rnCache := dd\<rparr>))"
    and "\<And>x rn y rn'. g x rn = (y, rn') \<Longrightarrow> rnCache rn' = rnCache rn"
  shows "one_access f (\<lambda>rn. case h rn of (x, rn') \<Rightarrow> g x rn')"
  unfolding one_access_def
proof (intro allI impI)
  fix rn res rn' assume r: "(case h rn of (x, u) \<Rightarrow> g x u) = (res, rn')"
  obtain x u where u: "h rn = (x, u)" by (cases "h rn")
  with r have g: "g x u = (res, rn')" by simp
  from assms(1) [unfolded one_access_def, rule_format, OF u] have
    c: "rnCache u = snd (f (rnCache rn))" and
    d: "\<And>dd. fst (f dd) = fst (f (rnCache rn)) \<Longrightarrow> h (rn\<lparr>rnCache := dd\<rparr>) = (x, u\<lparr>rnCache := snd (f dd)\<rparr>)" by auto
  show "rnCache rn' = snd (f (rnCache rn)) \<and>
     (\<forall>dd. fst (f dd) = fst (f (rnCache rn)) \<longrightarrow>
       (case h (rn\<lparr>rnCache := dd\<rparr>) of (x, u) \<Rightarrow> g x u) = (res, rn'\<lparr>rnCache := snd (f dd)\<rparr>))"
    using assms(3) [OF g] c d by (simp add: assms(2) g)
qed

text \<open>The part of \<open>dispatchRPC\<close> after the handler has returned.\<close>

definition after_handler :: "codec \<Rightarrow> byte \<Rightarrow> (go_error + builder) rt \<Rightarrow> 'k runner \<Rightarrow> (builder \<times> byte) rt \<times> 'k runner" where
  "after_handler cd ty res rn =
     (case res of
        Panic \<Rightarrow> (Panic, rn)
      | Val (Inl err) \<Rightarrow> (let (bd, rn') = on_rn_io (generateErrorReport err) rn in (Val (bd, RPCError), rn'))
      | Val (Inr bd) \<Rightarrow>
          (case on_rn_io (checkIfDataTooLarge cd bd) rn of
             (Panic, rn') \<Rightarrow> (Panic, rn')
           | (Val (replaced, ok), rn') \<Rightarrow>
               (if \<not> ok then (Val (replaced, RPCError), rn') else (Val (bd, ty), rn'))))"

lemma dispatchRPC_handler:
  "typeHandlerMap cd ro T reg ty = Some hl \<Longrightarrow>
    dispatchRPC cd ro T reg ty buf rn = (case hl buf rn of (res, rn') \<Rightarrow> after_handler cd ty res rn')"
  by (simp add: dispatchRPC_def after_handler_def Let_def split: prod.splits rt.splits sum.splits)

lemma after_handler_cache:
  "after_handler cd ty res (rn\<lparr>rnCache := dd\<rparr>) =
    (case after_handler cd ty res rn of (y, rn') \<Rightarrow> (y, rn'\<lparr>rnCache := dd\<rparr>))"
  "after_handler cd ty res rn = (y, rn') \<Longrightarrow> rnCache rn' = rnCache rn"
  by (auto simp: after_handler_def on_rn_io_cache Let_def dest: on_rn_io_cache(2)
      split: rt.splits sum.splits prod.splits if_splits)

lemma dispatch_access: "one_access (cache_access cd T reg ty buf) (dispatchRPC cd ro T reg ty buf)"
proof (cases "typeHandlerMap cd ro T reg ty")
  case None
  then have "cache_access cd T reg ty buf = Pair []"
    by (auto simp: typeHandlerMap_def cache_access_def split: if_splits)
  with None show ?thesis
    by (auto simp: one_access_def dispatchRPC_def on_rn_io_cache Let_def dest: on_rn_io_cache(2) split: prod.splits)
next
  case (Some hl)
  have "dispatchRPC cd ro T reg ty buf = (\<lambda>rn. case hl buf rn of (x, rn') \<Rightarrow> after_handler cd ty x rn')"
    using dispatchRPC_handler [OF Some] by (intro ext)
  then show ?thesis
    using one_access_then [OF handler_access [OF Some, of buf], of "after_handler cd ty"] after_handler_cache by metis
qed

subsection \<open>Rounds in steps\<close>

text \<open>A round of the loop: reading the frame, then serving it.\<close>

definition recv_frame :: "'k runner \<Rightarrow> (byte \<times> bytes) option \<times> 'k runner" where
  "recv_frame rn =
     (let (header, n, err, c1) = ReadBytes (ioConn (rnIo rn)) (replicate HeaderLen 0)
      in if ReadErr n err HeaderLen then (None, set_conn c1 rn)
         else
           (let (ty, len) = get_header header;
                (buf, n, err, c2) = ReadBytes c1 (replicate len 0)
            in if ReadErr n err len then (None, set_conn c2 rn) else (Some (ty, buf), set_conn c2 rn)))"

definition serve_frame ::
  "codec \<Rightarrow> range_orders \<Rightarrow> ('k, 'c) ttl_ops \<Rightarrow> 'c registry \<Rightarrow> byte \<Rightarrow> bytes \<Rightarrow> 'k runner \<Rightarrow>
   (unit rt \<times> 'k runner) + 'k runner" where
  "serve_frame cd ro T reg ty buf rn =
     (case dispatchRPC cd ro T reg ty buf rn of
        (Panic, rn1) \<Rightarrow> Inl (Panic, rn1)
      | (Val (bd, respTy), rn1) \<Rightarrow> handle_reply cd bd respTy rn1)"

lemma handle_round_steps:
  "handle_round cd ro T reg env rn =
     (case recv_frame rn of
        (None, rn1) \<Rightarrow> Inl (Val (), rn1)
      | (Some (ty, buf), rn1) \<Rightarrow> serve_frame cd ro T reg ty buf (rn1\<lparr>rnCache := env (rnCache rn1)\<rparr>))"
  by (simp add: handle_round_def recv_frame_def serve_frame_def Let_def split: prod.split)

lemma recv_frame_ok:
  assumes "avail (ioConn (rnIo rn)) = frame (ty, p) @ rest" "length p < 2 ^ 24"
  obtains c where "recv_frame rn = (Some (ty, p), set_conn c rn)"
proof -
  let ?hd = "put_header ty (length p)"
  have "length (replicate HeaderLen (0 :: byte)) \<le> length (avail (ioConn (rnIo rn)))"
    using assms(1) by (simp add: frame_def)
  then obtain c1 where c1: "ReadBytes (ioConn (rnIo rn)) (replicate HeaderLen 0) = (?hd, HeaderLen, None, c1)"
    "avail c1 = p @ rest"
    by (rule ReadBytes_ok) (use assms(1) in \<open>auto simp: frame_def\<close>)
  have "length (replicate (length p) (0 :: byte)) \<le> length (avail c1)" using c1(2) by simp
  then obtain c2 where "ReadBytes c1 (replicate (length p) 0) = (p, length p, None, c2)"
    by (rule ReadBytes_ok) (use c1(2) in auto)
  with c1(1) assms(2) have "recv_frame rn = (Some (ty, p), set_conn c2 rn)"
    by (simp add: recv_frame_def ReadErr_def get_put_header Let_def)
  then show thesis by (rule that)
qed

subsection \<open>The world\<close>

text \<open>Where a goroutine is: about to read, about to use the cache for the frame it has read, about to
  do the rest with the cache as it found it, or gone.\<close>

datatype 'k at = Reading | Called byte bytes | Working byte bytes "'k ConfCache" | Gone

record 'k world =
  wCache :: "'k ConfCache"
  wRunner :: "nat \<Rightarrow> 'k runner"
  wAt :: "nat \<Rightarrow> 'k at"

definition set_local :: "nat \<Rightarrow> 'k runner \<Rightarrow> 'k at \<Rightarrow> 'k world \<Rightarrow> 'k world" where
  "set_local i rn a w = w\<lparr>wRunner := (wRunner w)(i := rn), wAt := (wAt w)(i := a)\<rparr>"

text \<open>Leaving the loop: the deferred \<open>c.Close()\<close> and \<open>recoverPanic()\<close>.\<close>

definition leave :: "nat \<Rightarrow> 'k runner \<Rightarrow> 'k world \<Rightarrow> 'k world" where
  "leave i rn w = set_local i (set_conn (conn_Close (ioConn (rnIo rn))) rn) Gone w"

definition conn_step ::
  "codec \<Rightarrow> ('k, 'c) ttl_ops \<Rightarrow> 'c registry \<Rightarrow> nat \<Rightarrow> range_orders \<Rightarrow> pools \<Rightarrow> 'k world \<Rightarrow> 'k world" where
  "conn_step cd T reg i ro pl w =
     (case wAt w i of
        Reading \<Rightarrow>
          (case recv_frame (wRunner w i) of
             (None, rn) \<Rightarrow> leave i rn w
           | (Some (ty, buf), rn) \<Rightarrow> set_local i rn (Called ty buf) w)
      | Called ty buf \<Rightarrow>
          set_local i (wRunner w i) (Working ty buf (wCache w))
            (w\<lparr>wCache := snd (cache_access cd T reg ty buf (wCache w))\<rparr>)
      | Working ty buf cc \<Rightarrow>
          (case serve_frame cd ro T reg ty buf (with_pools pl ((wRunner w i)\<lparr>rnCache := cc\<rparr>)) of
             Inl (res, rn) \<Rightarrow> leave i rn w
           | Inr rn \<Rightarrow> set_local i rn Reading w)
      | Gone \<Rightarrow> w)"

datatype 'k label = Go nat range_orders pools | Clock "'k ConfCache \<Rightarrow> 'k ConfCache"

fun world_step :: "codec \<Rightarrow> ('k, 'c) ttl_ops \<Rightarrow> 'c registry \<Rightarrow> 'k label \<Rightarrow> 'k world \<Rightarrow> 'k world" where
  "world_step cd T reg (Go i ro pl) w = conn_step cd T reg i ro pl w"
| "world_step cd T reg (Clock f) w = w\<lparr>wCache := f (wCache w)\<rparr>"

definition world_run :: "codec \<Rightarrow> ('k, 'c) ttl_ops \<Rightarrow> 'c registry \<Rightarrow> 'k label list \<Rightarrow> 'k world \<Rightarrow> 'k world" where
  "world_run cd T reg sched w = fold (world_step cd T reg) sched w"

lemma world_run_simps [simp]:
  "world_run cd T reg [] w = w"
  "world_run cd T reg (l # ls) w = world_run cd T reg ls (world_step cd T reg l w)"
  by (simp_all add: world_run_def)

text \<open>The runner before any connection, and the connections it is going to accept.  A connection that is
  accepted later is one whose steps come later.\<close>

definition start_world :: "'k runner \<Rightarrow> (nat \<Rightarrow> conn) \<Rightarrow> 'k world" where
  "start_world rn conns = \<lparr>wCache = rnCache rn, wRunner = \<lambda>i. set_conn (conns i) rn, wAt = \<lambda>_. Reading\<rparr>"

lemma start_world_simps [simp]:
  "wCache (start_world rn conns) = rnCache rn" "wRunner (start_world rn conns) i = set_conn (conns i) rn"
  "wAt (start_world rn conns) i = Reading"
  by (simp_all add: start_world_def)

fun goes :: "nat \<Rightarrow> 'k label \<Rightarrow> bool" where
  "goes i (Go j ro pl) \<longleftrightarrow> j = i"
| "goes i (Clock f) \<longleftrightarrow> False"

definition own_steps :: "nat \<Rightarrow> 'k label list \<Rightarrow> nat" where
  "own_steps i sched = length (filter (goes i) sched)"

lemma own_steps_simps [simp]:
  "own_steps i [] = 0" "own_steps i (l # ls) = (if goes i l then 1 else 0) + own_steps i ls"
  by (simp_all add: own_steps_def)

text \<open>A step of another goroutine, or of the clock, leaves a connection alone.\<close>

lemma set_local_other [simp]:
  "j \<noteq> i \<Longrightarrow> wRunner (set_local i rn a w) j = wRunner w j" "j \<noteq> i \<Longrightarrow> wAt (set_local i rn a w) j = wAt w j"
  "wRunner (set_local i rn a w) i = rn" "wAt (set_local i rn a w) i = a" "wCache (set_local i rn a w) = wCache w"
  by (simp_all add: set_local_def)

lemma leave_simps [simp]:
  "j \<noteq> i \<Longrightarrow> wRunner (leave i rn w) j = wRunner w j" "j \<noteq> i \<Longrightarrow> wAt (leave i rn w) j = wAt w j"
  "wRunner (leave i rn w) i = set_conn (conn_Close (ioConn (rnIo rn))) rn" "wAt (leave i rn w) i = Gone"
  "wCache (leave i rn w) = wCache w"
  by (simp_all add: leave_def)

lemma world_step_other:
  assumes "\<not> goes i l"
  shows "wRunner (world_step cd T reg l w) i = wRunner w i" "wAt (world_step cd T reg l w) i = wAt w i"
  using assms
  by (cases l; auto simp: conn_step_def split: at.split option.split prod.split sum.split)+

lemma world_step_cache:
  "wCache (world_step cd T reg (Go i ro pl) w) =
    (case wAt w i of Called ty buf \<Rightarrow> snd (cache_access cd T reg ty buf (wCache w)) | _ \<Rightarrow> wCache w)"
  by (simp add: conn_step_def split: at.split option.split prod.split sum.split)

subsection \<open>Every goroutine ends\<close>

lemma recv_frame_left:
  assumes "recv_frame rn = (Some f, rn')"
  shows "input_left rn' < input_left rn"
proof -
  obtain header n err c1 where r1: "ReadBytes (ioConn (rnIo rn)) (replicate HeaderLen 0) = (header, n, err, c1)"
    by (cases "ReadBytes (ioConn (rnIo rn)) (replicate HeaderLen 0)") auto
  obtain ty len where gh: "get_header header = (ty, len)" by (cases "get_header header")
  obtain buf n2 err2 c2 where r2: "ReadBytes c1 (replicate len 0) = (buf, n2, err2, c2)"
    by (cases "ReadBytes c1 (replicate len 0)") auto
  from assms have e: "\<not> ReadErr n err HeaderLen" and rn': "rn' = set_conn c2 rn"
    by (auto simp: recv_frame_def r1 gh r2 split: if_splits)
  have "rd_left c1 < input_left rn"
    using ReadBytes_progress [of "ioConn (rnIo rn)" "replicate HeaderLen 0" header n c1] r1 ReadErr_None [OF e]
    by (simp add: HeaderLen_def input_left_def)
  with ReadBytes_frame [OF r2] rn' show ?thesis by simp
qed

lemma serve_frame_left: "serve_frame cd ro T reg ty buf rn = Inr rn' \<Longrightarrow> input_left rn' \<le> input_left rn"
  by (auto simp: serve_frame_def dest!: handle_reply_input dispatchRPC_input split: rt.splits prod.splits)

lemma input_left_pools [simp]:
  "input_left (with_pools pl rn) = input_left rn" "input_left (rn\<lparr>rnCache := cc\<rparr>) = input_left rn"
  by (simp_all add: input_left_def with_pools_def)

text \<open>The number of steps a goroutine can still take.\<close>

definition steps_left :: "'k world \<Rightarrow> nat \<Rightarrow> nat" where
  "steps_left w i =
     (case wAt w i of
        Reading \<Rightarrow> 3 * input_left (wRunner w i) + 1
      | Called ty buf \<Rightarrow> 3 * input_left (wRunner w i) + 3
      | Working ty buf cc \<Rightarrow> 3 * input_left (wRunner w i) + 2
      | Gone \<Rightarrow> 0)"

lemma steps_left_other: "\<not> goes i l \<Longrightarrow> steps_left (world_step cd T reg l w) i = steps_left w i"
  by (simp add: steps_left_def world_step_other split: at.split)

lemma steps_left_own: "steps_left (conn_step cd T reg i ro pl w) i \<le> steps_left w i - 1"
proof (cases "wAt w i")
  case Reading
  show ?thesis
  proof (cases "recv_frame (wRunner w i)")
    case (Pair x rn)
    show ?thesis
    proof (cases x)
      case (Some f)
      with Pair have "input_left rn < input_left (wRunner w i)" using recv_frame_left by metis
      with Reading Pair Some show ?thesis by (cases f) (simp add: conn_step_def steps_left_def)
    qed (use Reading Pair in \<open>simp add: conn_step_def steps_left_def\<close>)
  qed
next
  case (Working ty buf cc)
  let ?rn = "with_pools pl ((wRunner w i)\<lparr>rnCache := cc\<rparr>)"
  show ?thesis
  proof (cases "serve_frame cd ro T reg ty buf ?rn")
    case (Inr rn)
    from serve_frame_left [OF this] Working Inr show ?thesis by (simp add: conn_step_def steps_left_def)
  qed (use Working in \<open>auto simp: conn_step_def steps_left_def\<close>)
qed (simp_all add: conn_step_def steps_left_def)

lemma world_run_steps: "steps_left (world_run cd T reg sched w) i \<le> steps_left w i - own_steps i sched"
proof (induction sched arbitrary: w)
  case (Cons l ls)
  show ?case
  proof (cases "goes i l")
    case True
    then obtain ro pl where l: "l = Go i ro pl" by (cases l) auto
    show ?thesis
      using Cons.IH [of "world_step cd T reg l w"] steps_left_own [of cd T reg i ro pl w] by (simp add: l)
  next
    case False
    with Cons.IH [of "world_step cd T reg l w"] steps_left_other [OF False, of cd T reg w] show ?thesis by simp
  qed
qed simp

definition gone_closed :: "'k world \<Rightarrow> bool" where
  "gone_closed w \<longleftrightarrow> (\<forall>i. wAt w i = Gone \<longrightarrow> closed (ioConn (rnIo (wRunner w i))))"

lemma gone_closed_step:
  assumes "gone_closed w"
  shows "gone_closed (world_step cd T reg l w)"
proof -
  have g: "gone_closed (set_local i rn a w')" if "wRunner w' = wRunner w" "wAt w' = wAt w"
    "a = Gone \<Longrightarrow> closed (ioConn (rnIo rn))" for i rn a w'
    using assms that by (auto simp: gone_closed_def set_local_def)
  have lv: "gone_closed (leave i rn w)" for i rn
    unfolding leave_def by (rule g) (simp_all add: conn_Close_def)
  have st: "a \<noteq> Gone \<Longrightarrow> gone_closed (set_local i rn a (w\<lparr>wCache := cc\<rparr>))" for i rn a cc
    by (rule g) simp_all
  show ?thesis
  proof (cases l)
    case (Go i ro pl)
    with assms g [of w] lv st show ?thesis
      by (auto simp: conn_step_def split: at.split option.split prod.split sum.split)
  next
    case (Clock f)
    with assms show ?thesis by (simp add: gone_closed_def)
  qed
qed

lemma gone_closed_run: "gone_closed w \<Longrightarrow> gone_closed (world_run cd T reg sched w)"
  by (induction sched arbitrary: w) (auto intro: gone_closed_step)

lemma start_gone_closed: "gone_closed (start_world rn conns)"
  by (simp add: gone_closed_def)

lemma connections_gone:
  assumes "3 * rd_left (conns i) + 1 \<le> own_steps i sched"
  shows "wAt (world_run cd T reg sched (start_world rn conns)) i = Gone"
proof -
  have "steps_left (start_world rn conns) i = 3 * rd_left (conns i) + 1" by (simp add: steps_left_def)
  with assms world_run_steps [of cd T reg sched "start_world rn conns" i] show ?thesis
    by (auto simp: steps_left_def split: at.splits)
qed

subsection \<open>What one connection sees\<close>

text \<open>The state of the goroutine in its own run of \<open>handleConn\<close> and in the world agree up to the
  pools and the cache.\<close>

definition peers :: "'k runner \<Rightarrow> 'k runner \<Rightarrow> bool" where
  "peers rn rn' \<longleftrightarrow> io_same (rnIo rn) (rnIo rn') \<and> pools_ok rn \<and> pools_ok rn'"

lemma peers_at: "peers rn rn' \<Longrightarrow> runner_same (rn\<lparr>rnCache := cc\<rparr>) (rn'\<lparr>rnCache := cc\<rparr>)"
  by (simp add: peers_def runner_same_def pools_ok_def)

lemma same_peers: "runner_same rn rn' \<Longrightarrow> peers rn rn'"
  by (simp add: peers_def runner_same_def)

lemma peers_conn: "peers rn rn' \<Longrightarrow> ioConn (rnIo rn') = ioConn (rnIo rn)"
  by (simp add: peers_def io_same_def)

lemma peers_set_conn: "peers rn rn' \<Longrightarrow> peers (set_conn c rn) (set_conn c rn')"
  by (simp add: peers_def io_same_def pools_ok_def set_conn_def)

lemma recv_frame_peers:
  assumes "peers rn rn'" "recv_frame rn' = (x, u')"
  obtains u where "recv_frame rn = (x, u)" "peers u u'"
proof -
  from assms(2) have "\<exists>c. u' = set_conn c rn' \<and> recv_frame rn = (x, set_conn c rn)"
    unfolding recv_frame_def peers_conn [OF assms(1)] Let_def by (auto split: prod.splits if_splits)
  with that peers_set_conn [OF assms(1)] show thesis by blast
qed

lemma serve_frame_same:
  assumes rel: "runner_same rn rn'"
  shows "case serve_frame cd ro T reg ty buf rn of
      Inl (x, u) \<Rightarrow> \<exists>u'. serve_frame cd ro T reg ty buf rn' = Inl (x, u') \<and> runner_same u u'
    | Inr u \<Rightarrow> \<exists>u'. serve_frame cd ro T reg ty buf rn' = Inr u' \<and> runner_same u u'"
proof -
  obtain res v where d: "dispatchRPC cd ro T reg ty buf rn = (res, v)" by (cases "dispatchRPC cd ro T reg ty buf rn")
  from dispatchRPC_same [OF rel d] obtain v' where
    v': "dispatchRPC cd ro T reg ty buf rn' = (res, v')" "runner_same v v'" by blast
  show ?thesis
  proof (cases res)
    case (Val br)
    obtain bd rty where "br = (bd, rty)" by (cases br)
    with Val d v'(1) have "serve_frame cd ro T reg ty buf rn = handle_reply cd bd rty v"
      "serve_frame cd ro T reg ty buf rn' = handle_reply cd bd rty v'" by (simp_all add: serve_frame_def)
    with handle_reply_same [OF v'(2), of cd bd rty] show ?thesis by (simp only:)
  qed (use d v' in \<open>simp add: serve_frame_def\<close>)
qed

text \<open>A history of rounds: the iteration orders and the cache of each.  It explains a state \<open>rn\<close> when a
  loop whose rounds go that way comes to \<open>rn\<close>.\<close>

type_synonym 'k rounds = "(range_orders \<times> 'k ConfCache) list"

definition along :: "'k rounds \<Rightarrow> (nat \<Rightarrow> range_orders) \<Rightarrow> (nat \<Rightarrow> 'k ConfCache \<Rightarrow> 'k ConfCache) \<Rightarrow> bool" where
  "along hs ros env \<longleftrightarrow> (\<forall>j < length hs. ros j = fst (hs ! j) \<and> env j = (\<lambda>_. snd (hs ! j)))"

definition explains ::
  "codec \<Rightarrow> ('k, 'c) ttl_ops \<Rightarrow> 'c registry \<Rightarrow> 'k runner \<Rightarrow> 'k rounds \<Rightarrow> 'k runner \<Rightarrow> bool" where
  "explains cd T reg rn0 hs rn \<longleftrightarrow> (\<forall>ros env. along hs ros env \<longrightarrow>
     handle_loop cd ros T reg env 0 rn0 = handle_loop cd ros T reg env (length hs) rn)"

text \<open>The same for a goroutine that is gone, with the connection it leaves.\<close>

definition explains_gone ::
  "codec \<Rightarrow> ('k, 'c) ttl_ops \<Rightarrow> 'c registry \<Rightarrow> 'k runner \<Rightarrow> 'k rounds \<Rightarrow> conn \<Rightarrow> bool" where
  "explains_gone cd T reg rn0 hs c \<longleftrightarrow> (\<forall>ros env. along hs ros env \<longrightarrow>
     ioConn (rnIo (handleConn cd ros T reg env rn0)) = c)"

lemma explains_Nil: "explains cd T reg rn0 [] rn0"
  by (simp add: explains_def)

lemma along_snoc: "along (hs @ [(ro, cc)]) ros env \<Longrightarrow> along hs ros env \<and> ros (length hs) = ro \<and> env (length hs) = (\<lambda>_. cc)"
  by (auto simp: along_def nth_append all_conj_distrib less_Suc_eq)

lemma explains_round:
  assumes "explains cd T reg rn0 hs rn"
    and "handle_round cd ro T reg (\<lambda>_. cc) rn = Inr rn'"
  shows "explains cd T reg rn0 (hs @ [(ro, cc)]) rn'"
  using assms by (auto simp: explains_def handle_loop.simps [of _ _ _ _ _ "length hs" rn] dest!: along_snoc)

lemma explains_leave:
  assumes "explains cd T reg rn0 hs rn" "handle_round cd ro T reg (\<lambda>_. cc) rn = Inl (x, rn')"
  shows "explains_gone cd T reg rn0 (hs @ [(ro, cc)]) (conn_Close (ioConn (rnIo rn')))"
  using assms
  by (auto simp: explains_def explains_gone_def handleConn_def handle_loop.simps [of _ _ _ _ _ "length hs" rn]
      dest!: along_snoc)

lemma explains_eof:
  assumes "explains cd T reg rn0 hs rn" "recv_frame rn = (None, rn')"
  shows "explains_gone cd T reg rn0 hs (conn_Close (ioConn (rnIo rn')))"
  using assms
  by (auto simp: explains_def explains_gone_def handleConn_def handle_loop.simps [of _ _ _ _ _ "length hs" rn]
      handle_round_steps)

text \<open>What is assumed of a schedule: iteration orders with the property \<open>R\<close> and clean pools.\<close>

fun label_ok :: "(range_orders \<Rightarrow> bool) \<Rightarrow> 'k label \<Rightarrow> bool" where
  "label_ok R (Go i ro pl) \<longleftrightarrow> R ro \<and> pools_clean pl"
| "label_ok R (Clock f) \<longleftrightarrow> True"

text \<open>The shared cache satisfies \<open>I\<close> throughout.\<close>

fun cache_stays ::
  "codec \<Rightarrow> ('k, 'c) ttl_ops \<Rightarrow> 'c registry \<Rightarrow> ('k ConfCache \<Rightarrow> bool) \<Rightarrow> 'k label list \<Rightarrow> 'k world \<Rightarrow> bool" where
  "cache_stays cd T reg I [] w \<longleftrightarrow> I (wCache w)"
| "cache_stays cd T reg I (l # ls) w \<longleftrightarrow> I (wCache w) \<and> cache_stays cd T reg I ls (world_step cd T reg l w)"

lemma cache_stays_here: "cache_stays cd T reg I sched w \<Longrightarrow> I (wCache w)"
  by (cases sched) auto

text \<open>A property of the cache that every operation and the clock keep stays.\<close>

lemma cache_staysI:
  assumes "\<And>ty buf cc. I cc \<Longrightarrow> I (snd (cache_access cd T reg ty buf cc))"
    and "\<And>f cc. Clock f \<in> set sched \<Longrightarrow> I cc \<Longrightarrow> I (f cc)"
  shows "I (wCache w) \<Longrightarrow> cache_stays cd T reg I sched w"
  using assms(2)
proof (induction sched arbitrary: w)
  case (Cons l ls)
  have "I (wCache (world_step cd T reg l w))"
  proof (cases l)
    case (Go i ro pl)
    with Cons.prems(1) assms(1) world_step_cache [of cd T reg i ro pl w] show ?thesis by (simp split: at.splits)
  next
    case (Clock f)
    with Cons.prems show ?thesis by simp
  qed
  with Cons.IH [of "world_step cd T reg l w"] Cons.prems show ?case by simp
qed simp

text \<open>The configuration of a token stays: no other call stores under it before the counter wraps, so it lasts until it
  expires.\<close>

lemma ConfCache_Set_keeps:
  assumes spec: "ttl_spec T live" and set: "ConfCache_Set T reg req cc = (res, cc')" and t: "t \<noteq> tokenCounter cc + 1"
  shows "live (tokenCache cc') (token_key t) = live (tokenCache cc) (token_key t) \<and>
    tokenCounter cc' \<in> {tokenCounter cc, tokenCounter cc + 1}"
proof -
  let ?k = "go_string_opt (pqKey req)"
  show ?thesis
  proof (cases "?k = [] \<or> live (keyCache cc) ?k = None")
    case True
    with ConfCache_Set_miss [OF spec refl True] ConfCache_Set_panic [OF spec refl True] set t show ?thesis
      by (cases "parse_confs reg (pqConf req)") fastforce+
  next
    case False
    then obtain v where v: "?k \<noteq> []" "live (keyCache cc) ?k = Some v" by auto
    with ttl_Get [OF spec, of ?k "keyCache cc"] obtain kc where "ttlGet T ?k (keyCache cc) = (Inr v, kc)" by auto
    with v(1) set show ?thesis by (cases v) (auto simp: ConfCache_Set_def)
  qed
qed

definition holds_token ::
  "('k \<Rightarrow> string \<Rightarrow> 'c cache_val option) \<Rightarrow> u32 \<Rightarrow> (string \<times> 'c) list \<Rightarrow> nat \<Rightarrow> 'k ConfCache \<Rightarrow> bool" where
  "holds_token live t conf n cc \<longleftrightarrow> live (tokenCache cc) (token_key t) = Some (CConf conf) \<and>
     unat t \<le> unat (tokenCounter cc) \<and> unat (tokenCounter cc) \<le> n"

lemma cache_access_holds:
  assumes spec: "ttl_spec T live" and h: "holds_token live t conf n cc" and n: "Suc n < 2 ^ 32"
  shows "holds_token live t conf (Suc n) (snd (cache_access cd T reg ty buf cc))"
proof -
  have c: "unat (tokenCounter cc + 1) = Suc (unat (tokenCounter cc))"
    using h n by (subst unat_word_ariths) (simp add: holds_token_def)
  with h have t: "t \<noteq> tokenCounter cc + 1" by (auto simp: holds_token_def)
  have s: "holds_token live t conf (Suc n) cc'" if "ConfCache_Set T reg req cc = (res, cc')" for req res cc'
    using ConfCache_Set_keeps [OF spec that t] h c by (auto simp: holds_token_def)
  have g: "holds_token live t conf (Suc n) cc'" if "GetRuleConf T u cc = (res, cc')" for u res cc'
    using ConfCache_Get_live [OF spec, of u cc] that h by (auto simp: holds_token_def GetRuleConf_def)
  have "holds_token live t conf (Suc n) cc" using h by (simp add: holds_token_def)
  with s g show ?thesis by (simp add: cache_access_def split: rt.split prod.split)
qed

lemma token_stays:
  assumes "ttl_spec T live" "holds_token live t conf n (wCache w)" "n + length sched < 2 ^ 32"
    and "\<And>f cc. Clock f \<in> set sched \<Longrightarrow> tokenCounter (f cc) = tokenCounter cc \<and>
      live (tokenCache (f cc)) (token_key t) = live (tokenCache cc) (token_key t)"
  shows "cache_stays cd T reg (\<lambda>cc. live (tokenCache cc) (token_key t) = Some (CConf conf)) sched w"
  using assms(2-)
proof (induction sched arbitrary: w n)
  case Nil
  then show ?case by (simp add: holds_token_def)
next
  case (Cons l ls)
  have h: "holds_token live t conf (Suc n) (wCache w)" using Cons.prems(1) by (simp add: holds_token_def)
  have "holds_token live t conf (Suc n) (wCache (world_step cd T reg l w))"
  proof (cases l)
    case (Go i ro pl)
    show ?thesis unfolding Go world_step_cache
      using h cache_access_holds [OF assms(1) Cons.prems(1)] Cons.prems(2) by (cases "wAt w i") simp_all
  next
    case (Clock f)
    with Cons.prems(3) [of f] h show ?thesis by (simp add: holds_token_def)
  qed
  with Cons.IH [of "Suc n" "world_step cd T reg l w"] Cons.prems show ?case by (simp add: holds_token_def)
qed

definition view ::
  "codec \<Rightarrow> ('k, 'c) ttl_ops \<Rightarrow> 'c registry \<Rightarrow> (range_orders \<Rightarrow> bool) \<Rightarrow> ('k ConfCache \<Rightarrow> bool) \<Rightarrow>
   'k runner \<Rightarrow> 'k rounds \<Rightarrow> 'k runner \<Rightarrow> 'k at \<Rightarrow> bool" where
  "view cd T reg R I rn0 hs here a \<longleftrightarrow> (\<forall>h \<in> set hs. R (fst h) \<and> I (snd h)) \<and>
     (case a of
        Reading \<Rightarrow> \<exists>rn. explains cd T reg rn0 hs rn \<and> peers rn here
      | Called ty buf \<Rightarrow> \<exists>rn rn1. explains cd T reg rn0 hs rn \<and> recv_frame rn = (Some (ty, buf), rn1) \<and> peers rn1 here
      | Working ty buf cc \<Rightarrow> I cc \<and>
          (\<exists>rn rn1. explains cd T reg rn0 hs rn \<and> recv_frame rn = (Some (ty, buf), rn1) \<and> peers rn1 here)
      | Gone \<Rightarrow> explains_gone cd T reg rn0 hs (ioConn (rnIo here)))"

lemma view_start: "pools_ok rn \<Longrightarrow> view cd T reg R I rn [] rn Reading"
  using explains_Nil same_peers [OF runner_same_refl] by (fastforce simp: view_def)

lemma view_read:
  assumes view: "view cd T reg R I rn0 hs (wRunner w i) Reading" and at: "wAt w i = Reading"
  shows "view cd T reg R I rn0 hs (wRunner (conn_step cd T reg i ro pl w) i) (wAt (conn_step cd T reg i ro pl w) i)"
proof -
  from view obtain rn where rn: "explains cd T reg rn0 hs rn" "peers rn (wRunner w i)"
    and hs: "\<forall>h \<in> set hs. R (fst h) \<and> I (snd h)" by (auto simp: view_def)
  obtain x u' where r: "recv_frame (wRunner w i) = (x, u')" by (cases "recv_frame (wRunner w i)")
  from recv_frame_peers [OF rn(2) r] obtain u where u: "recv_frame rn = (x, u)" "peers u u'" .
  show ?thesis
  proof (cases x)
    case None
    from explains_eof [OF rn(1)] u None have "explains_gone cd T reg rn0 hs (conn_Close (ioConn (rnIo u')))"
      using peers_conn [OF u(2)] by simp
    with at r None hs show ?thesis by (simp add: conn_step_def view_def)
  next
    case (Some f)
    with at r hs rn(1) u show ?thesis by (cases f) (auto simp: conn_step_def view_def)
  qed
qed

lemma view_access:
  assumes "view cd T reg R I rn0 hs (wRunner w i) (Called ty buf)" "wAt w i = Called ty buf" "I (wCache w)"
  shows "view cd T reg R I rn0 hs (wRunner (conn_step cd T reg i ro pl w) i) (wAt (conn_step cd T reg i ro pl w) i)"
  using assms by (simp add: view_def conn_step_def)

lemma view_serve:
  assumes view: "view cd T reg R I rn0 hs (wRunner w i) (Working ty buf cc)" and at: "wAt w i = Working ty buf cc"
    and ok: "R ro" "pools_clean pl"
  shows "view cd T reg R I rn0 (hs @ [(ro, cc)]) (wRunner (conn_step cd T reg i ro pl w) i)
    (wAt (conn_step cd T reg i ro pl w) i)"
proof -
  from view obtain rn rn1 where rn: "explains cd T reg rn0 hs rn" "recv_frame rn = (Some (ty, buf), rn1)"
    "peers rn1 (wRunner w i)" and hs: "\<forall>h \<in> set (hs @ [(ro, cc)]). R (fst h) \<and> I (snd h)"
    using ok(1) by (auto simp: view_def)
  let ?here = "with_pools pl ((wRunner w i)\<lparr>rnCache := cc\<rparr>)"
  have rel: "runner_same (rn1\<lparr>rnCache := cc\<rparr>) ?here" by (rule with_pools_same [OF peers_at [OF rn(3)] ok(2)])
  have rnd: "handle_round cd ro T reg (\<lambda>_. cc) rn = serve_frame cd ro T reg ty buf (rn1\<lparr>rnCache := cc\<rparr>)"
    by (simp add: handle_round_steps rn(2))
  show ?thesis
  proof (cases "serve_frame cd ro T reg ty buf (rn1\<lparr>rnCache := cc\<rparr>)")
    case (Inl xu)
    obtain x u where xu: "xu = (x, u)" by (cases xu)
    with serve_frame_same [OF rel, of cd ro T reg ty buf] Inl obtain u' where
      u': "serve_frame cd ro T reg ty buf ?here = Inl (x, u')" "runner_same u u'" by auto
    from explains_leave [OF rn(1) rnd [unfolded Inl xu]]
    have "explains_gone cd T reg rn0 (hs @ [(ro, cc)]) (conn_Close (ioConn (rnIo u')))"
      using runner_sameD(5) [OF u'(2)] by simp
    with at u'(1) hs show ?thesis by (simp add: conn_step_def view_def)
  next
    case (Inr u)
    with serve_frame_same [OF rel, of cd ro T reg ty buf] obtain u' where
      u': "serve_frame cd ro T reg ty buf ?here = Inr u'" "runner_same u u'" by auto
    from explains_round [OF rn(1) rnd [unfolded Inr]] same_peers [OF u'(2)] at u'(1) hs show ?thesis
      by (auto simp: conn_step_def view_def)
  qed
qed

lemma view_step:
  assumes "view cd T reg R I rn0 hs (wRunner w i) (wAt w i)" "label_ok R l" "I (wCache w)"
  shows "\<exists>hs'. view cd T reg R I rn0 hs' (wRunner (world_step cd T reg l w) i) (wAt (world_step cd T reg l w) i)"
proof (cases "goes i l")
  case True
  then obtain ro pl where l: "l = Go i ro pl" by (cases l) auto
  show ?thesis
  proof (cases "wAt w i")
    case Reading
    with view_read [of cd T reg R I rn0 hs w i ro pl] assms(1) l show ?thesis by auto
  next
    case (Called ty buf)
    with view_access [of cd T reg R I rn0 hs w i ty buf ro pl] assms(1,3) l show ?thesis by auto
  next
    case (Working ty buf cc)
    with view_serve [of cd T reg R I rn0 hs w i ty buf cc ro pl] assms(1,2) l show ?thesis by auto
  next
    case Gone
    with assms(1) l show ?thesis by (auto simp: conn_step_def)
  qed
next
  case False
  with assms(1) show ?thesis by (auto simp: world_step_other)
qed

lemma view_run:
  assumes "\<forall>l \<in> set sched. label_ok R l" "cache_stays cd T reg I sched w"
    and "view cd T reg R I rn0 hs (wRunner w i) (wAt w i)"
  shows "\<exists>hs'. view cd T reg R I rn0 hs' (wRunner (world_run cd T reg sched w) i) (wAt (world_run cd T reg sched w) i)"
  using assms
proof (induction sched arbitrary: w hs)
  case (Cons l ls)
  then have ok: "label_ok R l" "I (wCache w)" by simp_all
  from view_step [OF Cons.prems(3) ok] obtain hs' where
    "view cd T reg R I rn0 hs' (wRunner (world_step cd T reg l w) i) (wAt (world_step cd T reg l w) i)" by blast
  with Cons.IH [of "world_step cd T reg l w" hs'] Cons.prems(1,2) show ?case by simp
qed auto

text \<open>Every history is that of some arguments of \<open>handleConn\<close>.\<close>

lemma along_exists:
  assumes "\<forall>h \<in> set hs. R (fst h) \<and> I (snd h)" "R ro0" "I cc0"
  shows "\<exists>ros env. along hs ros env \<and> (\<forall>j. R (ros j)) \<and> (\<forall>j cc. I (env j cc))"
proof -
  let ?h = "\<lambda>j. if j < length hs then hs ! j else (ro0, cc0)"
  have "R (fst (?h j)) \<and> I (snd (?h j))" for j using assms by simp
  moreover have "along hs (\<lambda>j. fst (?h j)) (\<lambda>j _. snd (?h j))" by (simp add: along_def)
  ultimately show ?thesis by blast
qed

lemma connection_view:
  assumes "pools_ok rn" "\<forall>l \<in> set sched. label_ok R l" "cache_stays cd T reg I sched (start_world rn conns)"
    and "wAt (world_run cd T reg sched (start_world rn conns)) i = Gone"
  obtains hs where "\<forall>h \<in> set hs. R (fst h) \<and> I (snd h)"
    "explains_gone cd T reg (set_conn (conns i) rn) hs
      (ioConn (rnIo (wRunner (world_run cd T reg sched (start_world rn conns)) i)))"
proof -
  have "pools_ok (set_conn (conns i) rn)" using assms(1) by (simp add: pools_ok_def set_conn_def)
  from view_start [OF this] have "view cd T reg R I (set_conn (conns i) rn) []
      (wRunner (start_world rn conns) i) (wAt (start_world rn conns) i)" by simp
  from view_run [OF assms(2,3) this] assms(4) that show thesis by (auto simp: view_def)
qed

subsection \<open>The history of the shared cache\<close>

fun label_events :: "codec \<Rightarrow> ('k, 'c) ttl_ops \<Rightarrow> 'c registry \<Rightarrow> 'k label \<Rightarrow> 'k world \<Rightarrow> 'c conf_event list" where
  "label_events cd T reg (Go i ro pl) w =
     (case wAt w i of Called ty buf \<Rightarrow> fst (cache_access cd T reg ty buf (wCache w)) | _ \<Rightarrow> [])"
| "label_events cd T reg (Clock f) w = [OExpire]"

fun world_events ::
  "codec \<Rightarrow> ('k, 'c) ttl_ops \<Rightarrow> 'c registry \<Rightarrow> 'k label list \<Rightarrow> 'k world \<Rightarrow> 'c conf_event list" where
  "world_events cd T reg [] w = []"
| "world_events cd T reg (l # ls) w = label_events cd T reg l w @ world_events cd T reg ls (world_step cd T reg l w)"

text \<open>A clock step lets entries expire.\<close>

definition expires :: "('k \<Rightarrow> string \<Rightarrow> 'c cache_val option) \<Rightarrow> ('k ConfCache \<Rightarrow> 'k ConfCache) \<Rightarrow> bool" where
  "expires live f \<longleftrightarrow> (\<forall>cc. tokenCounter (f cc) = tokenCounter cc \<and>
     live (tokenCache (f cc)) \<subseteq>\<^sub>m live (tokenCache cc) \<and> live (keyCache (f cc)) \<subseteq>\<^sub>m live (keyCache cc))"

lemma cache_access_run:
  assumes "conf_run T live reg tr cc"
  shows "conf_run T live reg (tr @ fst (cache_access cd T reg ty buf cc)) (snd (cache_access cd T reg ty buf cc))"
proof -
  have s: "conf_run T live reg (tr @ [OSet req a]) cc'" if "ConfCache_Set T reg req cc = (a, cc')" for req a cc'
    by (rule run_Set [OF assms that])
  have g: "conf_run T live reg (tr @ [OGet t a]) cc'" if "GetRuleConf T t cc = (a, cc')" for t a cc'
    using run_Get [OF assms] that by (simp add: GetRuleConf_def)
  show ?thesis using assms s g by (simp add: cache_access_def split: rt.split prod.split)
qed

lemma label_events_run:
  assumes "conf_run T live reg tr (wCache w)" "\<And>f. l = Clock f \<Longrightarrow> expires live f"
  shows "conf_run T live reg (tr @ label_events cd T reg l w) (wCache (world_step cd T reg l w))"
proof (cases l)
  case (Go i ro pl)
  show ?thesis unfolding Go world_step_cache
    using assms(1) cache_access_run [OF assms(1)] by (cases "wAt w i") simp_all
next
  case (Clock f)
  with assms(2) run_Expire [OF assms(1), of "f (wCache w)"] show ?thesis by (simp add: expires_def)
qed

lemma world_events_run:
  assumes "conf_run T live reg tr (wCache w)" "\<And>f. Clock f \<in> set sched \<Longrightarrow> expires live f"
  shows "conf_run T live reg (tr @ world_events cd T reg sched w) (wCache (world_run cd T reg sched w))"
  using assms
proof (induction sched arbitrary: tr w)
  case (Cons l ls)
  have "conf_run T live reg (tr @ label_events cd T reg l w) (wCache (world_step cd T reg l w))"
    by (rule label_events_run [OF Cons.prems(1)]) (use Cons.prems(2) in auto)
  from Cons.IH [OF this] Cons.prems(2) show ?case by simp
qed simp

lemma label_events_length: "length (label_events cd T reg l w) \<le> 1"
  by (cases l) (simp_all add: cache_access_def split: at.split rt.split prod.split)

lemma world_events_length: "length (world_events cd T reg sched w) \<le> length sched"
proof (induction sched arbitrary: w)
  case (Cons l ls)
  from Cons.IH [of "world_step cd T reg l w"] label_events_length [of cd T reg l w] show ?case by simp
qed simp

subsection \<open>Two connections\<close>

text \<open>The runner of the samples with a configuration under the token 1.  Connection
  0 carries the two turns of \<open>Dialogue\<close> with this token, connection 1 prepares another configuration and closes in the
  middle of a frame.\<close>

definition pair_cache :: "(string \<Rightarrow> bytes cache_val option) ConfCache" where
  "pair_cache = \<lparr>tokenCache = [token_key 1 \<mapsto> CConf ask_conf], keyCache = Map.empty, tokenCounter = 1\<rparr>"

definition pair_conns :: "nat \<Rightarrow> conn" where
  "pair_conns i = \<lparr>rd = (if i = 0 then
       [RdData [2, 0, 0, 1, 1, 3, 0, 0, 1, 5, 3, 0], RdData [0, 2, 6, 7, 4, 0, 0, 1, 1, 3, 0, 0, 2, 8, 9]]
     else [RdData [1, 0, 0, 1, 1, 2, 0]]), wr = [WrOk 1], sent = [], closed = False\<rparr>"

definition pair_pools :: pools where
  "pair_pools = \<lparr>plReqs = [], plReqResps = [], plResps = [], plBuilders = [NewBuilder], plPicks = [Some 0]\<rparr>"

definition pair_sched :: "(string \<Rightarrow> bytes cache_val option) label list" where
  "pair_sched = concat (replicate 100 [Go 0 (\<lambda>_. rev) pair_pools, Go 1 (\<lambda>_. rev) pair_pools, Clock (\<lambda>cc. cc)])"

abbreviation pair_runner :: "(string \<Rightarrow> bytes cache_val option) runner" where
  "pair_runner \<equiv> sample_runner\<lparr>rnCache := pair_cache\<rparr>"

lemma own_steps_append: "own_steps i (xs @ ys) = own_steps i xs + own_steps i ys"
  by (simp add: own_steps_def)

lemma own_steps_rounds: "own_steps i (concat (replicate n ls)) = n * own_steps i ls"
  by (induction n) (simp_all add: own_steps_append)

lemma pair_sched_steps: "own_steps i pair_sched = (if i < 2 then 100 else 0)"
  unfolding pair_sched_def own_steps_rounds by (cases i) auto

lemma pair_pools_clean: "pools_clean pair_pools"
  by (simp add: pools_clean_def pair_pools_def request_pool.pool_ok_def reqresp_pool.pool_ok_def
      response_pool.pool_ok_def builder_pool.pool_ok_def builder_clean_def NewBuilder_def)

lemma pair_sched_ok: "\<forall>l \<in> set pair_sched. label_ok (\<lambda>ro. ro = (\<lambda>_. rev)) l"
  using pair_pools_clean by (auto simp: pair_sched_def)

abbreviation pair_holds :: "(string \<Rightarrow> bytes cache_val option) ConfCache \<Rightarrow> bool" where
  "pair_holds cc \<equiv> tokenCache cc (token_key 1) = Some (CConf ask_conf)"

lemma pair_GetRuleConf: "pair_holds cc \<Longrightarrow> \<exists>cc'. GetRuleConf map_ttl 1 cc = (Val (Inr ask_conf), cc') \<and> pair_holds cc'"
  by (simp add: GetRuleConf_def ConfCache_Get_def map_ttl_def)

lemma pair_sched_length: "length pair_sched = 300"
  by (simp add: pair_sched_def length_concat sum_list_replicate map_replicate_const)

lemma pair_stays: "cache_stays talk_codec map_ttl ask_reg pair_holds pair_sched (start_world pair_runner pair_conns)"
proof -
  have "holds_token (\<lambda>s. s) 1 ask_conf 1 (wCache (start_world pair_runner pair_conns))"
    by (simp add: holds_token_def pair_cache_def)
  from token_stays [OF map_ttl_spec this, of pair_sched] show ?thesis
    unfolding pair_sched_length by (auto simp: pair_sched_def)
qed

lemma pair_left: "3 * rd_left (pair_conns i) + 1 \<le> 100"
  by (simp add: pair_conns_def rd_left_def)

lemma pair_conns_sent [simp]: "sent (pair_conns i) = []"
  by (simp add: pair_conns_def)

lemma pair_runner_ok: "runner_ok pair_runner"
  using sample_runner_ok' by simp

subsection \<open>Properties\<close>

text \<open>C25: one operation on the cache per request.  What the dispatch of a request does to the shared cache
  is the one operation \<open>cache_access\<close>, and the cache matters to it only through the result of that
  operation: with another cache on which the operation has the same result, the dispatch answers the same, does
  the same to the connection and the pools, and leaves what the operation leaves.\<close>

theorem dispatchRPC_one_access:
  assumes "dispatchRPC cd ro T reg ty buf rn = (res, rn')"
  shows "rnCache rn' = snd (cache_access cd T reg ty buf (rnCache rn)) \<and>
    (\<forall>cc. fst (cache_access cd T reg ty buf cc) = fst (cache_access cd T reg ty buf (rnCache rn)) \<longrightarrow>
      dispatchRPC cd ro T reg ty buf (rn\<lparr>rnCache := cc\<rparr>) =
        (res, rn'\<lparr>rnCache := snd (cache_access cd T reg ty buf cc)\<rparr>))"
  using dispatch_access [of cd T reg ty buf ro, unfolded one_access_def, rule_format, OF assms] by simp

theorem dispatchRPC_one_access_witness:
  "tokenCounter (rnCache (snd (dispatchRPC talk_codec (\<lambda>_. rev) map_ttl ask_reg RPCPrepareConf [1] pair_runner))) = 2"
proof -
  obtain res rn' where d: "dispatchRPC talk_codec (\<lambda>_. rev) map_ttl ask_reg RPCPrepareConf [1] pair_runner = (res, rn')"
    by (cases "dispatchRPC talk_codec (\<lambda>_. rev) map_ttl ask_reg RPCPrepareConf [1] pair_runner")
  have k: "go_string_opt (pqKey sample_preq) = ''1''"
    by (simp add: sample_preq_def go_string_opt_def go_string_def char_of_def bit_0)
  have "parse_confs ask_reg (pqConf sample_preq) = Val [(''p'', [7])]"
    by (simp add: sample_preq_def ask_opts_def findPlugin_def go_string_opt_def go_string_def char_of_def bit_0 Let_def)
  then have "tokenCounter (snd (cache_access talk_codec map_ttl ask_reg RPCPrepareConf [1] pair_cache)) = 2"
    by (simp add: cache_access_def talk_codec_def sample_codec_def ConfCache_Set_def k map_ttl_def store_conf_def pair_cache_def)
  with dispatchRPC_one_access [OF d] d show ?thesis by simp
qed

text \<open>C10: the isolation of connections.  However the goroutines of any number of connections are
  interleaved, whatever the other peers send, whatever the shared pools hold and whenever
  entries expire: what one connection has carried when its goroutine is gone is what \<open>handleConn\<close> alone carries on
  it, for some caches between its requests, each of which satisfies what the shared cache satisfies throughout.\<close>

theorem connections_isolated:
  assumes "pools_ok rn" "\<forall>l \<in> set sched. label_ok R l" "R ro0"
    and "cache_stays cd T reg I sched (start_world rn conns)"
    and "wAt (world_run cd T reg sched (start_world rn conns)) i = Gone"
  shows "\<exists>ros env. (\<forall>j. R (ros j)) \<and> (\<forall>j cc. I (env j cc)) \<and>
    ioConn (rnIo (wRunner (world_run cd T reg sched (start_world rn conns)) i)) =
      ioConn (rnIo (handleConn cd ros T reg env (set_conn (conns i) rn)))"
proof -
  from connection_view [OF assms(1,2,4,5)] obtain hs where
    hs: "\<forall>h \<in> set hs. R (fst h) \<and> I (snd h)" and
    g: "explains_gone cd T reg (set_conn (conns i) rn) hs
      (ioConn (rnIo (wRunner (world_run cd T reg sched (start_world rn conns)) i)))" .
  have "I (rnCache rn)" using cache_stays_here [OF assms(4)] by simp
  from along_exists [OF hs assms(3) this] obtain ros env where
    a: "along hs ros env" "\<forall>j. R (ros j)" "\<forall>j cc. I (env j cc)" by blast
  with g have "ioConn (rnIo (handleConn cd ros T reg env (set_conn (conns i) rn))) =
      ioConn (rnIo (wRunner (world_run cd T reg sched (start_world rn conns)) i))" by (simp add: explains_gone_def)
  with a(2,3) show ?thesis by (intro exI [of _ ros] exI [of _ env]) simp
qed

theorem connections_isolated_witness:
  "\<exists>ros env. (\<forall>j. ros j = (\<lambda>_. rev)) \<and> (\<forall>j cc. pair_holds (env j cc)) \<and>
    ioConn (rnIo (wRunner (world_run talk_codec map_ttl ask_reg pair_sched (start_world pair_runner pair_conns)) 1)) =
      ioConn (rnIo (handleConn talk_codec ros map_ttl ask_reg env (set_conn (pair_conns 1) pair_runner)))"
proof -
  have "pools_ok pair_runner" using pair_runner_ok by (simp add: runner_ok_def)
  moreover have "wAt (world_run talk_codec map_ttl ask_reg pair_sched (start_world pair_runner pair_conns)) 1 = Gone"
    by (rule connections_gone [of pair_conns]) (simp only: pair_sched_steps, use pair_left [of 1] in simp)
  ultimately show ?thesis
    using connections_isolated [OF _ pair_sched_ok refl pair_stays, of 1] by simp
qed

text \<open>C20: every goroutine ends.  Whatever the others do, a goroutine is gone, and its connection closed, once it
  has taken three steps for each unit of what its peer has in store, and one more.  The units (\<open>rd_left\<close>) are the
  pieces that reads deliver, or end with an error, and the bytes in them.\<close>

theorem connections_end:
  assumes "3 * rd_left (conns i) + 1 \<le> own_steps i sched"
  shows "wAt (world_run cd T reg sched (start_world rn conns)) i = Gone \<and>
    closed (ioConn (rnIo (wRunner (world_run cd T reg sched (start_world rn conns)) i)))"
proof -
  have g: "wAt (world_run cd T reg sched (start_world rn conns)) i = Gone" by (rule connections_gone [of conns i, OF assms])
  with gone_closed_run [OF start_gone_closed, of cd T reg sched rn conns] show ?thesis by (simp add: gone_closed_def)
qed

theorem connections_end_witness:
  "closed (ioConn (rnIo (wRunner (world_run talk_codec map_ttl ask_reg pair_sched (start_world pair_runner pair_conns)) 1)))"
proof -
  have "3 * rd_left (pair_conns 1) + 1 \<le> own_steps 1 pair_sched" unfolding pair_sched_steps using pair_left [of 1] by simp
  from connections_end [of pair_conns 1, OF this] show ?thesis by blast
qed

text \<open>C3: requests are served whatever the other connections do.  When the peer of one connection sends
  requests, each with its answers to the questions asked meanwhile, takes what it is sent and then closes, then
  after enough steps of its goroutine, in any interleaving with others, each request has been
  answered in order by its questions and one right reply; provided
  what these requests need of the shared cache holds throughout.  (The configuration of a token does until it
  expires, by \<open>token_stays\<close>.)\<close>

theorem connections_served:
  assumes av: "avail (conns i) = concat (map (\<lambda>t. frame (tRequest t) @ tAnswers t) ts)"
    and wr: "wr_clean (conns i)" and ok: "runner_ok rn"
    and len: "\<And>t. t \<in> set ts \<Longrightarrow> length (snd (tRequest t)) < 2 ^ 24"
    and q: "\<And>ro t. R ro \<Longrightarrow> t \<in> set ts \<Longrightarrow> serves cd ro T reg I t"
    and sched: "\<forall>l \<in> set sched. label_ok R l" "R ro0" "cache_stays cd T reg I sched (start_world rn conns)"
    and steps: "3 * rd_left (conns i) + 1 \<le> own_steps i sched"
  shows "\<exists>replies. list_all2 tReply ts replies \<and>
    sent (ioConn (rnIo (wRunner (world_run cd T reg sched (start_world rn conns)) i))) =
      sent (conns i) @ concat (map2 (\<lambda>t g. tAsks t @ frame g) ts replies)"
proof -
  let ?rn = "set_conn (conns i) rn"
  have "pools_ok rn" using ok by (simp add: runner_ok_def)
  from connection_view [OF this sched(1,3) connections_gone [of conns i, OF steps]] obtain hs where
    hs: "\<forall>h \<in> set hs. R (fst h) \<and> I (snd h)" and g: "explains_gone cd T reg ?rn hs
      (ioConn (rnIo (wRunner (world_run cd T reg sched (start_world rn conns)) i)))" .
  have I: "I (rnCache rn)" using cache_stays_here [OF sched(3)] by simp
  from along_exists [OF hs sched(2) I] obtain ros env where
    a: "along hs ros env" and R: "\<And>j. R (ros j)" and E: "\<And>j cc. I (env j cc)" by blast
  have "\<exists>replies rn'. handle_loop cd ros T reg env 0 ?rn = (Val (), rn') \<and> list_all2 tReply ts replies \<and>
      sent (ioConn (rnIo rn')) = sent (ioConn (rnIo ?rn)) @ concat (map2 (\<lambda>t g. tAsks t @ frame g) ts replies)"
    by (rule handle_loop_serves [where I = I]) (use av wr ok len q R E I in auto)
  moreover have "ioConn (rnIo (wRunner (world_run cd T reg sched (start_world rn conns)) i)) =
      ioConn (rnIo (handleConn cd ros T reg env ?rn))" using g a by (simp add: explains_gone_def)
  ultimately show ?thesis by (auto simp: handleConn_def conn_Close_def)
qed

theorem connections_served_witness:
  "sent (ioConn (rnIo (wRunner (world_run talk_codec map_ttl ask_reg pair_sched (start_world pair_runner pair_conns)) 0))) =
    [3, 0, 0, 1, 1, 3, 0, 0, 1, 2, 2, 0, 0, 2, 4, 4, 3, 0, 0, 1, 3, 4, 0, 0, 3, 5, 9, 8]"
proof -
  let ?ts = "[ask_request_turn, ask_response_turn]"
  have av: "avail (pair_conns 0) = concat (map (\<lambda>t. frame (tRequest t) @ tAnswers t) ?ts)"
    by (simp only: ask_turns_input) (simp add: avail_def pair_conns_def)
  have wr: "wr_clean (pair_conns 0)" by (auto simp: wr_clean_def pair_conns_def)
  have srv: "serves talk_codec ro map_ttl ask_reg pair_holds t" if "ro = (\<lambda>_. rev)" "t \<in> set ?ts" for ro t
    using that ask_request_serves [of pair_holds, OF pair_GetRuleConf] ask_response_serves [of pair_holds, OF pair_GetRuleConf]
    by auto
  have n: "3 * rd_left (pair_conns 0) + 1 \<le> own_steps 0 pair_sched" unfolding pair_sched_steps using pair_left [of 0] by simp
  from connections_served [OF av wr pair_runner_ok ask_turns_length srv pair_sched_ok refl pair_stays n]
  obtain replies where "list_all2 tReply ?ts replies"
    "sent (ioConn (rnIo (wRunner (world_run talk_codec map_ttl ask_reg pair_sched (start_world pair_runner pair_conns)) 0))) =
      concat (map2 (\<lambda>t g. tAsks t @ frame g) ?ts replies)" by auto
  then show ?thesis by (simp only: ask_turns_output)
qed

text \<open>C4: the shared cache, over all connections.  In every interleaving of the goroutines of any number of connections,
  with entries expiring at any time, the cache of a new runner goes through a history of \<open>Set\<close> and \<open>Get\<close> calls, those the
  handlers make, in the order of the schedule.  So on whatever connection a token is used, it is answered by
  \<open>ErrNotFound\<close> or by the parsed configuration of a request that got this token, on whatever connection, and
  a token belongs to one key; and preparing a configuration gives a token or panics in a plugin's \<open>ParseConf\<close>.  This
  holds for schedules shorter than the range of the counter.\<close>

theorem connections_history:
  assumes "ttl_spec T live" "newConfCache T ttl = Some (rnCache rn)"
    and "\<And>f. Clock f \<in> set sched \<Longrightarrow> expires live f" "length sched < 2 ^ 32 - 1"
  shows "let tr = world_events cd T reg sched (start_world rn conns);
             cc = wCache (world_run cd T reg sched (start_world rn conns))
    in conf_run T live reg tr cc \<and>
      (\<forall>t. fst (ConfCache_Get T t cc) = Val (Inl ErrNotFound) \<or>
        (\<exists>req c. issued tr req t \<and> parse_confs reg (pqConf req) = Val c \<and> fst (ConfCache_Get T t cc) = Val (Inr c))) \<and>
      (\<forall>req req' t. issued tr req t \<and> issued tr req' t \<longrightarrow> go_string_opt (pqKey req) = go_string_opt (pqKey req')) \<and>
      (\<forall>req. (\<exists>t. fst (ConfCache_Set T reg req cc) = Val (Inr t)) \<or>
        fst (ConfCache_Set T reg req cc) = Panic \<and> parse_confs reg (pqConf req) = Panic)"
proof -
  let ?tr = "world_events cd T reg sched (start_world rn conns)"
  let ?cc = "wCache (world_run cd T reg sched (start_world rn conns))"
  have "conf_run T live reg [] (wCache (start_world rn conns))" using run_new [OF assms(2)] by simp
  from world_events_run [OF this assms(3)] have run: "conf_run T live reg ?tr ?cc" by simp
  have "length ?tr < 2 ^ 32 - 1" using world_events_length [of cd T reg sched "start_world rn conns"] assms(4) by simp
  show ?thesis unfolding Let_def
    by (rule conjI [OF run ConfCache_history [OF assms(1) run \<open>length ?tr < 2 ^ 32 - 1\<close>]])
qed

text \<open>Two connections prepare the same key, one after the other: they get the same token.\<close>

theorem connections_history_witness:
  "\<exists>cc. conf_run map_ttl (\<lambda>s. s) [(''p'', sample_opts)]
      [OSet sample_preq (Val (Inr 1)), OSet sample_preq (Val (Inr 1)), OExpire] cc \<and>
    fst (ConfCache_Get map_ttl 1 cc) \<in> {Val (Inl ErrNotFound), Val (Inr [(''p'', [7])])}"
proof -
  let ?c0 = "\<lparr>tokenCache = Map.empty, keyCache = Map.empty, tokenCounter = 0\<rparr> :: (string \<Rightarrow> bytes cache_val option) ConfCache"
  let ?c1 = "\<lparr>tokenCache = [token_key 1 \<mapsto> CConf [(''p'', [7])]], keyCache = [''1'' \<mapsto> CToken 1], tokenCounter = 1\<rparr>"
  let ?rn = "sample_runner\<lparr>rnCache := ?c0\<rparr>" and ?reg = "[(''p'', sample_opts)]"
  let ?g = "\<lambda>i. Go i (\<lambda>_. rev) pair_pools" and ?x = "Clock (\<lambda>cc. cc\<lparr>keyCache := Map.empty\<rparr>)"
  let ?w = "start_world ?rn (\<lambda>i. \<lparr>rd = [RdData [1, 0, 0, 1, 1]], wr = [], sent = [], closed = False\<rparr>)"
  have k: "go_string_opt (pqKey sample_preq) = ''1''"
    by (simp add: sample_preq_def go_string_opt_def go_string_def char_of_def bit_0)
  have s0: "cache_access sample_codec map_ttl ?reg RPCPrepareConf [1] ?c0 = ([OSet sample_preq (Val (Inr 1))], ?c1)"
    by (simp add: cache_access_def sample_codec_def ConfCache_Set_def k map_ttl_def sample_parse store_conf_def)
  have s1: "cache_access sample_codec map_ttl ?reg RPCPrepareConf [1] ?c1 = ([OSet sample_preq (Val (Inr 1))], ?c1)"
    by (simp add: cache_access_def sample_codec_def ConfCache_Set_def k map_ttl_def)
  have "avail (ioConn (rnIo (wRunner ?w i))) = frame (RPCPrepareConf, [1]) @ []" for i
    by (simp add: avail_def frame_def put_header_def PutUint32_def rpc_defs)
  then obtain c where c: "\<And>i :: nat. recv_frame (wRunner ?w i) = (Some (RPCPrepareConf, [1]), set_conn c (wRunner ?w 0))"
    by (rule recv_frame_ok) auto
  have ev: "world_events sample_codec map_ttl ?reg [?g 0, ?g 1, ?g 0, ?g 1, ?x] ?w =
      [OSet sample_preq (Val (Inr 1)), OSet sample_preq (Val (Inr 1)), OExpire]"
    using c [of 0] c [of 1] by (simp add: conn_step_def set_local_def s0 s1)
  have ex: "expires (\<lambda>s. s) f" if "Clock f \<in> set [?g 0, ?g 1, ?g 0, ?g 1, ?x]" for f
    using that by (auto simp: expires_def)
  have new: "newConfCache map_ttl 60 = Some (rnCache ?rn)" by (simp add: newConfCache_def newTTLCache_def map_ttl_def)
  have len: "length [?g 0, ?g 1, ?g 0, ?g 1, ?x] < 2 ^ 32 - 1" by simp
  let ?cc = "wCache (world_run sample_codec map_ttl ?reg [?g 0, ?g 1, ?g 0, ?g 1, ?x] ?w)"
  note h = connections_history [where sched = "[?g 0, ?g 1, ?g 0, ?g 1, ?x]" and cd = sample_codec and reg = ?reg and
      conns = "\<lambda>i. \<lparr>rd = [RdData [1, 0, 0, 1, 1]], wr = [], sent = [], closed = False\<rparr>", OF map_ttl_spec new ex len,
      unfolded Let_def ev]
  note r = conjunct1 [OF h] spec [OF conjunct1 [OF conjunct2 [OF h]], of 1]
  from r(2) have "fst (ConfCache_Get map_ttl 1 ?cc) \<in> {Val (Inl ErrNotFound), Val (Inr [(''p'', [7])])}"
    using sample_parse by (auto simp: issued_def)
  with r(1) show ?thesis by blast
qed

end
