(* ===== verification/Read_Only.thy ===== *)
theory Read_Only
  imports Plugin_Phases
begin

section \<open>Plugins that only look\<close>

text \<open>
  Which methods leave no trace in the answer.  A filter that only reads the id, the address, the
  method, the path, variables and the context makes the runner answer without an action.
  Other readers leave one: \<open>Header()\<close>, \<open>Args()\<close>, \<open>RespHeader()\<close> and \<open>Body()\<close> create or fill fields
  \<open>hasChanges\<close> looks at, so the answer is a rewrite, and after \<open>Body()\<close> it sends the body back.
\<close>

fun req_reads :: "req_call \<Rightarrow> bool" where
  "req_reads CallID = True"
| "req_reads CallSrcIP = True"
| "req_reads CallMethod = True"
| "req_reads CallPath = True"
| "req_reads (CallVar name) = True"
| "req_reads CallContext = True"
| "req_reads _ = False"

definition untouched :: "req_state \<Rightarrow> bool" where
  "untouched st \<longleftrightarrow> \<not> ReqResponse_HasChange (fst st) \<and> \<not> Request_hasChanges (fst (snd st))"

lemma Request_Var_changes: "Request_Var cd name r s = (v, r', s') \<Longrightarrow> Request_hasChanges r' = Request_hasChanges r"
  by (auto simp: Request_Var_def Request_hasChanges_def Let_def dest!: Request_ask_frame
      split: option.splits prod.splits rt.splits sum.splits)

lemma exec_reads_untouched: "req_reads c \<Longrightarrow> untouched st \<Longrightarrow> exec_req cd ro c st = (v, st') \<Longrightarrow> untouched st'"
  by (cases c; cases st)
    (auto simp: untouched_def on_r_def on_io_def split: prod.splits dest: Request_Var_changes)

lemma run_untouched:
  "calls_only req_reads p \<Longrightarrow> untouched st \<Longrightarrow> run_req cd ro p st = (res, st') \<Longrightarrow> untouched st'"
  unfolding run_req_def
  by (rule run_only_inv [where I = untouched and P = req_reads and exec = "exec_req cd ro"]) (rule exec_reads_untouched)

definition reads_only :: "'c registry \<Rightarrow> (string \<times> 'c) list \<Rightarrow> bool" where
  "reads_only reg conf \<longleftrightarrow> (\<forall>(name, v) \<in> set conf. \<forall>p. findPlugin reg name = Some p \<longrightarrow>
     calls_only req_reads (RequestFilter p v))"

lemma requestPhase_untouched:
  "reads_only reg conf \<Longrightarrow> untouched st \<Longrightarrow> requestPhase_filter cd ro reg conf st = (res, st') \<Longrightarrow> untouched st'"
proof (induction conf arbitrary: st)
  case (Cons c conf)
  obtain name v where c: "c = (name, v)" by (cases c)
  show ?case
  proof (cases "findPlugin reg name")
    case None
    with Cons c show ?thesis by (simp add: reads_only_def)
  next
    case (Some p)
    obtain r st1 where r: "run_req cd ro (RequestFilter p v) st = (r, st1)"
      by (cases "run_req cd ro (RequestFilter p v) st") auto
    have "calls_only req_reads (RequestFilter p v)" "reads_only reg conf"
      using Cons.prems(1) Some c by (auto simp: reads_only_def)
    moreover from run_untouched [OF this(1) Cons.prems(2) r] have "untouched st1" .
    ultimately show ?thesis using Cons.IH Cons.prems(3) Some c r
      by (cases r) (auto split: if_splits)
  qed
qed simp

text \<open>Reading the body, in contrast, is a change.\<close>

lemma bdMsg_inject: "b\<lparr>bdMsg := x\<rparr> = b\<lparr>bdMsg := y\<rparr> \<longleftrightarrow> x = y"
  by (auto dest: arg_cong [where f = bdMsg])

lemma Request_Body_rewrites:
  assumes "Request_Body cd r s = (Val (Inr (Some b)), r', s')" "request_ok r'" "ranges_ok ro"
  shows "\<exists>rw. rwBody rw = Some b \<and>
    (\<forall>bd. Request_FetchChanges ro rid r' bd = Val (True, Finish (MsgHTTPReqResp rid (Some (ActionRewrite rw))) bd))"
proof -
  have body: "reqBody r' = Some b"
    using assms(1) by (auto simp: Request_Body_def Let_def split: option.splits list.splits prod.splits rt.splits sum.splits)
  then have ch: "Request_hasChanges r'" by (simp add: Request_hasChanges_def)
  from Request_FetchChanges_kind [OF assms(2,3) ch, of rid] obtain rw where
    rw: "\<forall>bd. Request_FetchChanges ro rid r' bd = Val (True, Finish (MsgHTTPReqResp rid (Some (ActionRewrite rw))) bd)"
    by blast
  have "rwBody rw = Some b"
    using rw [THEN spec, of NewBuilder] ch body
    by (auto simp: Request_FetchChanges_def Finish_def Let_def bdMsg_inject split: rt.splits)
  with rw show ?thesis by blast
qed

text \<open>C24: plugins that only look leave no trace.  When the filters of all configured plugins only read the id,
  the address, the method, the path, variables and the context, whatever they compute and
  whatever APISIX answers, an answer of the handler has no action: APISIX goes on with the
  request as it was.\<close>

theorem HTTPReqCall_read_only:
  assumes "pools_ok rn" "ranges_ok ro" "GetRootAsHTTPReqCall cd buf = Val q"
    and "GetRuleConf T (hqConfToken q) (rnCache rn) = (Val (Inr conf), cc)" and "reads_only reg conf"
    and "fst (HTTPReqCall cd ro T reg buf rn) = Val x"
  shows "\<exists>bd. x = Inr bd \<and> bdMsg bd = Some (MsgHTTPReqResp (hqId q) None)"
proof -
  let ?st = "req_start q (rnIo rn)"
  obtain f w r s where f: "requestPhase_filter cd ro reg conf ?st = (f, (w, r, s))"
    by (cases "requestPhase_filter cd ro reg conf ?st") auto
  have "untouched ?st"
    by (simp add: untouched_def req_start_def newReqResponse_def ReqResponse_HasChange_def fresh_request_def newRequest_def
        Request_hasChanges_def)
  from requestPhase_untouched [OF assms(5) this f] have un: "\<not> ReqResponse_HasChange w" "\<not> Request_hasChanges r"
    by (simp_all add: untouched_def)
  have tok: "Request_ConfToken (fst (snd ?st)) = Val (hqConfToken q)"
    by (simp add: req_start_def fresh_request_def Request_ConfToken_def with_r_def)
  show ?thesis
  proof (cases f)
    case Panic
    then have "reqCall_main cd ro T reg ?st (rnCache rn) = (Panic, (w, r, s), cc)"
      using f tok assms(4) by (simp add: reqCall_main_def reqCall_finish_def)
    from HTTPReqCall_fresh [OF assms(1,3) this] assms(6) show ?thesis by auto
  next
    case (Val e)
    from reqCall_main_answer [OF assms(2,4) f [unfolded Val]] obtain bd s' act where
      m: "reqCall_main cd ro T reg ?st (rnCache rn) = (Val (Inr bd), (w, r, s'), cc)"
      "bdMsg bd = Some (MsgHTTPReqResp (hqId q) act)" "answer_kind ro (hqId q) w r act" by blast
    from HTTPReqCall_fresh [OF assms(1,3) m(1)] m(2,3) un assms(6) show ?thesis by (auto simp: answer_kind_def)
  qed
qed

definition look_opts :: "bytes pluginOpts" where
  "look_opts = sample_opts\<lparr>RequestFilter := (\<lambda>_. Call CallPath (\<lambda>p. Call CallMethod (\<lambda>m.
     if m = RStr ''GET'' then Done else Call CallID (\<lambda>_. Crash))))\<rparr>"

theorem HTTPReqCall_read_only_witness:
  "\<exists>bd. fst (HTTPReqCall sample_codec (\<lambda>_. rev) map_ttl [(''p'', look_opts)] [1] sample_runner) = Val (Inr bd) \<and>
    bdMsg bd = Some (MsgHTTPReqResp 9 None)"
proof -
  let ?reg = "[(''p'', look_opts)]" and ?conf = "[(''x'', [1]), (''p'', [7]), (''p'', [8])] :: (string \<times> bytes) list"
  have ids: "hqConfToken sample_hreq = 1" "hqId sample_hreq = 9" by (simp_all add: sample_hreq_def)
  obtain st where "requestPhase_filter sample_codec (\<lambda>_. rev) ?reg ?conf (req_start sample_hreq (rnIo sample_runner)) = (Val None, st)"
    by (simp add: req_start_def findPlugin_def look_opts_def sample_opts_def run_req_def on_r_def api_defs
        fresh_request_def newReqResponse_def ReqResponse_HasChange_def Request_Method_def Request_Path_def sample_codec_def
        newRequest_def with_r_def sample_hreq_def)
  then obtain w r s where f: "requestPhase_filter sample_codec (\<lambda>_. rev) ?reg ?conf
      (req_start sample_hreq (rnIo sample_runner)) = (Val None, (w, r, s))" by (cases st) auto
  have g: "GetRuleConf map_ttl (hqConfToken sample_hreq) (rnCache sample_runner) = (Val (Inr ?conf), rnCache sample_runner)"
    using sample_GetRuleConf by (simp add: ids)
  from reqCall_main_answer [OF ranges_ok_rev g f] obtain bd s' act where
    "reqCall_main sample_codec (\<lambda>_. rev) map_ttl ?reg (req_start sample_hreq (rnIo sample_runner)) (rnCache sample_runner) =
      (Val (Inr bd), (w, r, s'), rnCache sample_runner)" by blast
  from HTTPReqCall_fresh [OF sample_runner_ok sample_codec_req this]
  have h: "fst (HTTPReqCall sample_codec (\<lambda>_. rev) map_ttl ?reg [1] sample_runner) = Val (Inr bd)" by auto
  have "reads_only ?reg ?conf" by (auto simp: reads_only_def findPlugin_def look_opts_def)
  from HTTPReqCall_read_only [OF sample_runner_ok ranges_ok_rev sample_codec_req g this h] h ids show ?thesis by auto
qed

end
