(* ===== verification/Spec2Isabelle.thy ===== *)
theory Spec2Isabelle
  imports Demo_Behaviour Header_Interface Command Conf_Concurrent Server_Concurrent Read_Only
begin

text \<open>
  A verification of the APISIX Go plugin runner (https://github.com/apache/apisix-go-plugin-runner).

  \<^bold>\<open>The program.\<close>  APISIX talks to the runner over a Unix socket with frames of a type byte, a
  24-bit length and a flatbuffers message.  \<open>PrepareConf\<close> sends the configurations of the
  plugins of a route and gets a token; \<open>HTTPReqCall\<close> and \<open>HTTPRespCall\<close> send a request or a
  response with a token, run the plugins' filters and answer with what they changed.  During
  a filter the runner may ask back for a variable or a body (\<open>ExtraInfo\<close>).

  \<^bold>\<open>The theories\<close>, with the files under \<open>src/\<close> they model:

  \<^item> \<open>Runner_Prelude\<close>: Go values (bytes, strings, maps with an open iteration order, errors,
    panics as the value \<open>Panic\<close>) and the lemmas about them.
  \<^item> \<open>Util_Msg\<close> (internal/util/msg.go): a connection with a scripted peer (\<open>conn\<close>: the pieces
    reads deliver and the answers of writes), the read and write loops, the frame header.
    Lemmas: what is read and sent does not depend on the pieces, short streams are errors.
  \<^item> \<open>Util_Pool\<close> (internal/util/pool.go): flatbuffers messages as values, the builder, and
    \<open>sync.Pool\<close>, whose choice is an oracle (\<open>ioPicks\<close>); the contract \<open>reset_pool\<close>.
  \<^item> \<open>Http_Header\<close> (internal/http/header.go): the header with its own and received part, with
    \<open>net/http\<close> canonicalisation; refinement of an abstract header store by \<open>Get\<close> and by the
    entries of \<open>HeaderBuild\<close> after any sequence of \<open>Set\<close> and \<open>Del\<close>, with the exceptions (\<open>deletes\<close>, \<open>redeleted\<close>).
  \<^item> \<open>Extra_Info\<close> (the exchange in request.go and response.go), with \<open>io\<close>, the part of the
    world the handlers change: connection, builders, oracle, contexts; contract \<open>var_source\<close>.
  \<^item> \<open>Req_Response\<close>, \<open>Request\<close>, \<open>Response\<close> (internal/http/req-response.go, request.go,
    response.go): one record and one definition per method, the pools, and \<open>FetchChanges\<close>;
    contracts \<open>status_writer\<close> and \<open>change_source\<close>.
  \<^item> \<open>Plugin_Api\<close> (pkg/http/http.go): the methods a filter may call, and filters as programs
    over them; invariants and simulations hold for every program.
  \<^item> \<open>Plugin_Registry\<close>, \<open>Plugin_Phases\<close> (internal/plugin/plugin.go): registration, the filter
    loops (contract \<open>filter_chain\<close>) and the two handlers on the state \<open>runner\<close>.
  \<^item> \<open>Conf\<close> (internal/plugin/conf.go): tokens, keys and parsed configurations; histories of
    calls and expiry (\<open>conf_run\<close>) and their invariant.  \<open>Conf_Concurrent\<close>: \<open>Set\<close> statement by
    statement under its mutex, any number of goroutines interleaved with \<open>Get\<close> and expiry
    (\<open>conc_run\<close>), and a simulation by the runs in which \<open>Set\<close> is one step (\<open>atom_run\<close>).
  \<^item> \<open>Server\<close> (internal/server): dispatch, error reports, the size check and the connection
    loop; \<open>Startup\<close> (rest of server.go, pkg/log, pkg/runner, version.go): TTL, address, the
    order of start-up actions, the logger; \<open>Command\<close> (cmd/go-runner/main.go): the commands as data
    and the run modes.
  \<^item> \<open>Dialogue\<close>: the filters' meaning without a connection (\<open>requestPhase_spec\<close>,
    \<open>responsePhase_spec\<close>: APISIX answers by a function, the questions are returned), and that the code
    over a connection refines it (\<open>follows\<close>; contracts \<open>dialogue_api\<close>, \<open>dialogue_chain\<close>, \<open>asks_once\<close>);
    with it, a whole connection as a list of turns (\<open>turn\<close>, \<open>serves\<close>).
  \<^item> \<open>Pool_Blind\<close>: runners that differ in the contents of the shared pools only dispatch alike
    (\<open>runner_same\<close>, by the contract \<open>api_relation\<close> of \<open>Plugin_Api\<close>).
  \<^item> \<open>Server_Concurrent\<close> (internal/server/server.go again): any number of connections at once.  A \<open>world\<close> has the
    shared cache and each goroutine's state and position; a schedule is a list of steps
    (\<open>world_run\<close>).  A round of \<open>handleConn\<close> is three steps: read a frame, one operation on the cache, the rest.
  \<^item> \<open>Read_Only\<close>: which methods a filter can call without leaving a trace in the answer.
  \<^item> \<open>Demo_Plugins\<close>, \<open>Response_Rewrite\<close>, \<open>Demo_Behaviour\<close> (cmd/go-runner/plugins, pkg/plugin):
    the shipped plugins as programs, and what they do.
  \<^item> \<open>Http_Recorder\<close> (pkg/httptest/recorder.go): the recorder for plugin tests, compared with the
    response of the runner by a simulation (\<open>api_simulation\<close>) for the calls on which they agree (\<open>rec_call\<close>).  \<open>Header_Interface\<close> (the \<open>Header\<close> of
    pkg/http/http.go): what the runner's header and the recorder's have in common (\<open>header_object\<close>).
  \<^item> This theory: a configuration from its preparation to the request that uses it, and a shipped
    plugin from its registration to the answer.

  \<^bold>\<open>What the theorems show.\<close>  Transport: frames are read and written whole however the stream is
  split, every request on a connection gets the questions of its plugins and one right reply, in order,
  every connection ends closed.  State: pools hold clean objects, answers do not depend on what pools
  hold, each context is cancelled exactly once, tokens belong to one key and keep their configurations,
  also under concurrent use of the cache, whose mutex makes \<open>Set\<close> atomic and is always released.
  Concurrency: whatever the goroutines of other connections do, a connection carries what a run of
  \<open>handleConn\<close> alone would carry (\<open>connections_isolated\<close>), so its requests are served rightly
  (\<open>connections_served\<close>); every goroutine ends within three of its own steps for each piece and each byte of its peer's
  input, and one more (\<open>connections_end\<close>); and the shared cache goes
  through a history in the sense of \<open>Conf\<close>, so a token means the same on every connection, and what is
  stored under it stays until it expires (\<open>token_stays\<close>).
  Function: APISIX is told the answer the filters left (\<open>HTTPReqCall_answer\<close>, \<open>HTTPRespCall_answer\<close>); the filters
  run in order until a response exists.  The entries for headers give the receiver the first values the
  plugin's calls ask for, except under keys deleted, set and deleted again (\<open>HeaderBuild_refines\<close>); those for
  arguments give it the plugin's arguments, except names left with an empty list (\<open>Request_args_roundtrip\<close>);
  \<open>Get\<close> reads what the calls ask for, except that a received header shines through an empty value
  (\<open>Header_Get_refines\<close>).  Some theorems state where the code falls short: \<open>oversize_reply_corrupt\<close>, \<open>Header_Del_lost\<close>, \<open>ConfCache_stale_key\<close>,
  \<open>responsePhase_header_read_stops\<close>, \<open>ResponseRewrite_plain\<close>, \<open>recorder_nil_header\<close>, \<open>Request_Body_rewrites\<close>.

  \<^bold>\<open>Bounds.\<close>  No definition takes fuel: loops over a connection decrease the script of the peer
  (\<open>input_left\<close>), the others a length.  Token histories are bounded by \<open>2 ^ 32\<close> calls, where the
  counter wraps; the TTL theorem covers settings below \<open>2 ^ 32\<close> seconds; frames of requests
  have at most \<open>2 ^ 24 - 1\<close> bytes, as the header allows.

  \<^bold>\<open>Parameters.\<close>  Flatbuffers encoding and decoding (\<open>codec\<close>), the TTL cache (\<open>ttl_ops\<close> with the law
  \<open>ttl_spec\<close>), JSON text, rate limiter and regular expressions (\<open>libs\<close>), the choice of
  \<open>sync.Pool\<close>, the iteration order of maps (\<open>range_orders\<close>), zap's loggers, the operating
  system's answers, and in \<open>Server\<close> the other connections' effect on the shared cache (\<open>env\<close>), which
  \<open>Server_Concurrent\<close> replaces by the other goroutines themselves.

  \<^bold>\<open>Not modelled.\<close>  The steps of \<open>Server_Concurrent\<close> are coarser than statements: that \<open>Set\<close> can be taken as one step
  is \<open>ConfCache_linearizable\<close>, that a handler has one step on the cache \<open>dispatchRPC_one_access\<close>, and what the
  pools hold meanwhile does not matter by \<open>dispatchRPC_pool_blind\<close>; that \<open>sync.Pool\<close> gives an object to one
  goroutine at a time is its contract.  State that a plugin shares between requests by itself, and a
  number by which a plugin could tell contexts of different connections apart, are not represented.  The registry is filled before the server
  starts, so its mutex is not represented, and the TTL cache's own lock is part of the parameter.
  What log messages say (\<open>WriteErr\<close> only logs) and what zap does with them, how cobra and enumflag parse a
  command line, the contents of profiles, \<open>time.Sleep\<close> and the end-to-end test tools (tests/e2e/tools, which drive a
  running APISIX over HTTP) are left out.  A plugin that writes into the map \<open>Header.View()\<close> returns, which the
  interface calls read-only, is outside the model.  A message is decoded as a whole when it arrives, so a malformed
  one panics there, while the code takes the root only and panics when it reads the field.  \<open>fill_filters\<close> starts
  from fresh values also when a configuration has the key \<open>filters\<close> twice, where \<open>encoding/json\<close> may reuse the elements
  of the first list.
\<close>

section \<open>From the configuration to the answer\<close>

text \<open>The dispatch of \<open>PrepareConf\<close> for a key without a live token: the token issued, and what the
  cache knows of it afterwards.\<close>

lemma dispatch_prepared:
  assumes "ttl_spec T live" "runner_ok rn" "GetRootAsPrepareConf cd pbuf = Val preq"
    and "parse_confs reg (pqConf preq) = Val conf" "go_string_opt (pqKey preq) = key"
    and "key = [] \<or> live (keyCache (rnCache rn)) key = None"
    and "length (encode_msg cd (MsgPrepareConfResp (tokenCounter (rnCache rn) + 1))) < MaxDataSize"
  obtains bd rn1 cc where
    "dispatchRPC cd ro T reg RPCPrepareConf pbuf rn = (Val (bd, RPCPrepareConf), rn1)"
    "bdMsg bd = Some (MsgPrepareConfResp (tokenCounter (rnCache rn) + 1))" "runner_ok rn1"
    "GetRuleConf T (tokenCounter (rnCache rn) + 1) (rnCache rn1) = (Val (Inr conf), cc)"
proof -
  let ?t = "tokenCounter (rnCache rn) + 1"
  from ConfCache_Set_miss [OF assms(1,5,6,4)] obtain cc where cc:
    "ConfCache_Set T reg preq (rnCache rn) = (Val (Inr ?t), cc)"
    "live (tokenCache cc) = (live (tokenCache (rnCache rn)))(token_key ?t \<mapsto> CConf conf)" by blast
  from dispatch_PrepareConf [OF assms(3) cc(1) assms(7), of ro] obtain bd s1 where p:
    "dispatchRPC cd ro T reg RPCPrepareConf pbuf rn = (Val (bd, RPCPrepareConf), rn\<lparr>rnCache := cc, rnIo := s1\<rparr>)"
    "bdMsg bd = Some (MsgPrepareConfResp ?t)" by blast
  have "runner_ok (rn\<lparr>rnCache := cc, rnIo := s1\<rparr>)" using dispatchRPC_ok [OF p(1) assms(2)] by simp
  moreover have "\<exists>cc2. GetRuleConf T ?t cc = (Val (Inr conf), cc2)"
    using ConfCache_Get_live [OF assms(1), of ?t cc] cc(2) by (auto simp: GetRuleConf_def)
  ultimately show thesis using that [OF p] by auto
qed

text \<open>The dispatch of \<open>HTTPReqCall\<close> when the token is known and the filters return.\<close>

lemma dispatch_called:
  assumes "pools_ok rn" "ranges_ok ro" "GetRootAsHTTPReqCall cd buf = Val q"
    and "GetRuleConf T (hqConfToken q) (rnCache rn) = (Val (Inr conf), cc)"
    and "requestPhase_filter cd ro reg conf (req_start q (rnIo rn)) = (Val e, (w, r, s))"
    and size: "\<forall>m. length (encode_msg cd m) < MaxDataSize"
  obtains bd rn' act where "dispatchRPC cd ro T reg RPCHTTPReqCall buf rn = (Val (bd, RPCHTTPReqCall), rn')"
    "bdMsg bd = Some (MsgHTTPReqResp (hqId q) act)" "answer_kind ro (hqId q) w r act"
proof -
  from reqCall_main_answer [OF assms(2,4,5)] obtain bd s' act where m:
    "reqCall_main cd ro T reg (req_start q (rnIo rn)) (rnCache rn) = (Val (Inr bd), (w, r, s'), cc)"
    "bdMsg bd = Some (MsgHTTPReqResp (hqId q) act)" "answer_kind ro (hqId q) w r act" by blast
  from HTTPReqCall_fresh [OF assms(1,3) m(1)] obtain rn' where
    h: "HTTPReqCall cd ro T reg buf rn = (Val (Inr bd), rn')" by blast
  have ty: "typeHandlerMap cd ro T reg RPCHTTPReqCall = Some (HTTPReqCall cd ro T reg)"
    by (simp add: typeHandlerMap_def rpc_defs)
  from dispatch_answer [OF ty h m(2) spec [OF size]] m(2,3) show thesis by (rule that)
qed

text \<open>C2: prepare, then call.  When APISIX sends configurations under a key without a live
  token, the server answers with a new token.  When it then sends a request with this token,
  the server hands the plugins exactly the configurations they had parsed before, in their
  order, and, if the filters return, answers with the id of the request and the action the filters left.\<close>

theorem prepare_then_call:
  assumes "ttl_spec T live" "runner_ok rn" "ranges_ok ro"
    and "GetRootAsPrepareConf cd pbuf = Val preq" "parse_confs reg (pqConf preq) = Val conf"
    and "go_string_opt (pqKey preq) = key" "key = [] \<or> live (keyCache (rnCache rn)) key = None"
    and size: "\<forall>m. length (encode_msg cd m) < MaxDataSize"
  shows "\<exists>t bd1 rn1. t = tokenCounter (rnCache rn) + 1 \<and>
    dispatchRPC cd ro T reg RPCPrepareConf pbuf rn = (Val (bd1, RPCPrepareConf), rn1) \<and>
    bdMsg bd1 = Some (MsgPrepareConfResp t) \<and>
    (\<forall>cbuf q e w r s. GetRootAsHTTPReqCall cd cbuf = Val q \<and> hqConfToken q = t \<and>
       requestPhase_filter cd ro reg conf (req_start q (rnIo rn1)) = (Val e, (w, r, s)) \<longrightarrow>
       (\<exists>bd2 rn2 act. dispatchRPC cd ro T reg RPCHTTPReqCall cbuf rn1 = (Val (bd2, RPCHTTPReqCall), rn2) \<and>
          bdMsg bd2 = Some (MsgHTTPReqResp (hqId q) act) \<and> answer_kind ro (hqId q) w r act))"
proof -
  obtain bd1 rn1 cc where p: "dispatchRPC cd ro T reg RPCPrepareConf pbuf rn = (Val (bd1, RPCPrepareConf), rn1)"
    "bdMsg bd1 = Some (MsgPrepareConfResp (tokenCounter (rnCache rn) + 1))" "runner_ok rn1"
    "GetRuleConf T (tokenCounter (rnCache rn) + 1) (rnCache rn1) = (Val (Inr conf), cc)"
    by (rule dispatch_prepared [OF assms(1,2,4-7) spec [OF size]])
  have ok: "pools_ok rn1" using p(3) by (simp add: runner_ok_def)
  have call: "\<exists>bd2 rn2 act. dispatchRPC cd ro T reg RPCHTTPReqCall cbuf rn1 = (Val (bd2, RPCHTTPReqCall), rn2) \<and>
      bdMsg bd2 = Some (MsgHTTPReqResp (hqId q) act) \<and> answer_kind ro (hqId q) w r act"
    if q: "GetRootAsHTTPReqCall cd cbuf = Val q" "hqConfToken q = tokenCounter (rnCache rn) + 1"
      and f: "requestPhase_filter cd ro reg conf (req_start q (rnIo rn1)) = (Val e, (w, r, s))"
    for cbuf q e w r s
    using dispatch_called [OF ok assms(3) q(1) p(4) [folded q(2)] f size] by blast
  show ?thesis
    by (rule exI [of _ "tokenCounter (rnCache rn) + 1"], rule exI [of _ bd1], rule exI [of _ rn1])
      (use p(1,2) call in blast)
qed

theorem prepare_then_call_witness:
  "\<exists>bd1 rn1 bd2 rn2. dispatchRPC (sample_codec\<lparr>GetRootAsHTTPReqCall := \<lambda>_. Val (sample_hreq\<lparr>hqConfToken := 2\<rparr>)\<rparr>)
      (\<lambda>_. rev) map_ttl [(''p'', sample_opts)] RPCPrepareConf [1] sample_runner = (Val (bd1, RPCPrepareConf), rn1) \<and>
    bdMsg bd1 = Some (MsgPrepareConfResp 2) \<and>
    dispatchRPC (sample_codec\<lparr>GetRootAsHTTPReqCall := \<lambda>_. Val (sample_hreq\<lparr>hqConfToken := 2\<rparr>)\<rparr>)
      (\<lambda>_. rev) map_ttl [(''p'', sample_opts)] RPCHTTPReqCall [2] rn1 = (Val (bd2, RPCHTTPReqCall), rn2) \<and>
    bdMsg bd2 = Some (MsgHTTPReqResp 9 None)"
proof -
  let ?q = "sample_hreq\<lparr>hqConfToken := 2\<rparr>"
  let ?cd = "sample_codec\<lparr>GetRootAsHTTPReqCall := \<lambda>_. Val ?q\<rparr>"
  let ?reg = "[(''p'', sample_opts)]"
  have dec: "GetRootAsPrepareConf ?cd [1] = Val sample_preq" by (simp add: sample_codec_def)
  have size: "\<forall>m. length (encode_msg ?cd m) < MaxDataSize"
    by (simp add: sample_codec_def MaxDataSize_def push_bit_eq_mult)
  have t: "tokenCounter (rnCache sample_runner) + 1 = 2"
    and miss: "go_string_opt (pqKey sample_preq) = [] \<or> keyCache (rnCache sample_runner) (go_string_opt (pqKey sample_preq)) = None"
    by (simp_all add: sample_runner_def)
  have f: "requestPhase_filter ?cd (\<lambda>_. rev) ?reg [(''p'', [7])] (req_start ?q s) =
      (Val None, (newReqResponse, fresh_request ?q (ioNextCtx s),
        s\<lparr>ioPicks := tl (tl (ioPicks s)), ioNextCtx := Suc (ioNextCtx s)\<rparr>))" for s
    by (simp add: req_start_def findPlugin_def sample_opts_def run_req_def ReqResponse_HasChange_def newReqResponse_def)
  have k: "answer_kind ro rid newReqResponse (fresh_request q n) act \<longleftrightarrow> act = None" for ro rid q n act
    by (simp add: answer_kind_def ReqResponse_HasChange_def newReqResponse_def Request_hasChanges_def
        fresh_request_def newRequest_def)
  from prepare_then_call [where live = "\<lambda>s. s" and reg = ?reg, OF map_ttl_spec sample_runner_ok' ranges_ok_rev dec
      sample_parse refl miss size, unfolded t]
  obtain bd1 rn1 where p: "dispatchRPC ?cd (\<lambda>_. rev) map_ttl ?reg RPCPrepareConf [1] sample_runner =
      (Val (bd1, RPCPrepareConf), rn1)" "bdMsg bd1 = Some (MsgPrepareConfResp 2)"
    and c: "\<And>cbuf q e w r s. GetRootAsHTTPReqCall ?cd cbuf = Val q \<Longrightarrow> hqConfToken q = 2 \<Longrightarrow>
       requestPhase_filter ?cd (\<lambda>_. rev) ?reg [(''p'', [7])] (req_start q (rnIo rn1)) = (Val e, (w, r, s)) \<Longrightarrow>
       \<exists>bd2 rn2 act. dispatchRPC ?cd (\<lambda>_. rev) map_ttl ?reg RPCHTTPReqCall cbuf rn1 = (Val (bd2, RPCHTTPReqCall), rn2) \<and>
          bdMsg bd2 = Some (MsgHTTPReqResp (hqId q) act) \<and> answer_kind (\<lambda>_. rev) (hqId q) w r act"
    by blast
  from c [of "[2]" ?q, OF _ _ f] p show ?thesis by (auto simp: k sample_hreq_def)
qed

section \<open>A shipped plugin from its registration to the answer\<close>

text \<open>What the say plugin makes of its configuration, and of a request.\<close>

abbreviation say_stop :: "string \<Rightarrow> action option" where
  "say_stop b \<equiv> Some (ActionStop \<lparr>stStatus = 200, stHeaders = Some [(''X-Resp-A6-Runner'', Some ''Go'')],
     stBody = Some (go_bytes b)\<rparr>)"

abbreviation say_opts :: "('f, 'l, 'r) libs \<Rightarrow> ('f, 'l, 'r) demo_conf pluginOpts" where
  "say_opts L \<equiv> \<lparr>ParseConf = Say_ParseConf L, RequestFilter = Say_RequestFilter, ResponseFilter = Default_ResponseFilter\<rparr>"

lemma say_registered:
  assumes "demo_inits L ro draw reserve [] = Inr reg"
  shows "findPlugin reg ''say'' = Some (say_opts L)"
proof -
  have "run_inits (demo_plugins L ro draw reserve) [] = Some reg" using assms by (simp add: demo_inits_run)
  moreover have "\<lparr>plName = ''say'', plParseConf = Say_ParseConf L, plRequestFilter = Say_RequestFilter,
      plResponseFilter = Default_ResponseFilter\<rparr> \<in> set (demo_plugins L ro draw reserve)"
    by (simp add: demo_plugins_def plugin_defs)
  ultimately show ?thesis using demo_plugins_register [of L ro draw reserve] by fastforce
qed

lemma say_parsed:
  assumes "findPlugin reg ''say'' = Some (say_opts L)" "js_parse L js = Some (JObj [(''body'', JStr b)])"
  shows "parse_confs reg [Some \<lparr>teName = Some (go_bytes ''say''), teValue = Some js\<rparr>] =
    Val [(''say'', SayC \<lparr>sayBody = b\<rparr>)]"
proof -
  have "fold_key ''body'' = ''body''" by (simp add: fold_char_def is_upper_def)
  with assms(2) have "Say_ParseConf L (Some js) = Val (Inr (SayC \<lparr>sayBody = b\<rparr>))"
    by (simp add: Say_ParseConf_def Unmarshal_def)
  with assms(1) show ?thesis by (simp add: go_string_opt_def Let_def)
qed

lemma say_called:
  fixes L :: "('f, 'l, 'r) libs"
  assumes ok: "pools_ok rn" "ranges_ok ro" and found: "findPlugin reg ''say'' = Some (say_opts L)" and b: "b \<noteq> []"
    and conf: "GetRuleConf T t (rnCache rn) = (Val (Inr [(''say'', SayC \<lparr>sayBody = b\<rparr>)]), cc)"
    and q: "GetRootAsHTTPReqCall cd cbuf = Val q" "hqConfToken q = t"
    and size: "\<forall>m. length (encode_msg cd m) < MaxDataSize"
  shows "\<exists>bd rn'. dispatchRPC cd ro T reg RPCHTTPReqCall cbuf rn = (Val (bd, RPCHTTPReqCall), rn') \<and>
    bdMsg bd = Some (MsgHTTPReqResp (hqId q) (say_stop b))"
proof -
  let ?c = "\<lparr>sayBody = b\<rparr>" and ?conf = "SayC \<lparr>sayBody = b\<rparr> :: ('f, 'l, 'r) demo_conf"
  obtain r s where st: "req_start q (rnIo rn) = (newReqResponse, r, s)" by (simp add: req_start_def)
  from ok(2) have "range_ok (ro RStopHdr)" by (simp add: ranges_okD)
  from Say_effect [where ro = ro and cd = cd and c = ?c and r = r and s = s and rid = "hqId q" and bd = NewBuilder, OF this] b
  obtain w where w: "run_req cd ro (Say_RequestFilter ?conf) (newReqResponse, r, s) = (Val (), w, r, s)"
    "ReqResponse_FetchChanges ro (hqId q) w NewBuilder = (True, Finish (MsgHTTPReqResp (hqId q) (say_stop b)) NewBuilder)"
    by auto
  have ch: "ReqResponse_HasChange w" using w(2) by (auto simp: ReqResponse_FetchChanges_def split: if_splits)
  have f: "requestPhase_filter cd ro reg [(''say'', ?conf)] (req_start q (rnIo rn)) = (Val None, (w, r, s))"
    using found w(1) ch by (simp add: st)
  from dispatch_called [OF ok q(1) conf [folded q(2)] f size] obtain bd rn' act where
    d: "dispatchRPC cd ro T reg RPCHTTPReqCall cbuf rn = (Val (bd, RPCHTTPReqCall), rn')"
    "bdMsg bd = Some (MsgHTTPReqResp (hqId q) act)" "answer_kind ro (hqId q) w r act" by blast
  from d(3) ch w(2) have "bdMsg (Finish (MsgHTTPReqResp (hqId q) act) NewBuilder) =
      bdMsg (Finish (MsgHTTPReqResp (hqId q) (say_stop b)) NewBuilder)"
    unfolding answer_kind_def by (metis (no_types, lifting) prod.inject)
  then show ?thesis using d(1,2) by (simp add: Finish_def)
qed

text \<open>C35: the say plugin, end to end.  After the \<open>init\<close> functions of the shipped plugins, when APISIX
  sends the configuration \<open>{"body": b}\<close> for \<open>say\<close> with a non-empty \<open>b\<close>, under a key without a live token, it
  gets a new token; every request it then sends with this token is answered with the stop action: status 200,
  the header \<open>X-Resp-A6-Runner: Go\<close> and the body \<open>b\<close>.\<close>

theorem say_end_to_end:
  fixes L :: "('f, 'l, 'r) libs"
  assumes "ttl_spec T live" "runner_ok rn" "ranges_ok ro"
    and reg: "demo_inits L ro' draw reserve [] = Inr reg"
    and dec: "GetRootAsPrepareConf cd pbuf = Val preq"
    and conf: "pqConf preq = [Some \<lparr>teName = Some (go_bytes ''say''), teValue = Some js\<rparr>]"
    and js: "js_parse L js = Some (JObj [(''body'', JStr b)])" "b \<noteq> []"
    and key: "go_string_opt (pqKey preq) = key" "key = [] \<or> live (keyCache (rnCache rn)) key = None"
    and size: "\<forall>m. length (encode_msg cd m) < MaxDataSize"
  shows "\<exists>t bd1 rn1. t = tokenCounter (rnCache rn) + 1 \<and>
    dispatchRPC cd ro T reg RPCPrepareConf pbuf rn = (Val (bd1, RPCPrepareConf), rn1) \<and>
    bdMsg bd1 = Some (MsgPrepareConfResp t) \<and>
    (\<forall>cbuf q. GetRootAsHTTPReqCall cd cbuf = Val q \<and> hqConfToken q = t \<longrightarrow>
       (\<exists>bd2 rn2. dispatchRPC cd ro T reg RPCHTTPReqCall cbuf rn1 = (Val (bd2, RPCHTTPReqCall), rn2) \<and>
          bdMsg bd2 = Some (MsgHTTPReqResp (hqId q) (Some (ActionStop \<lparr>stStatus = 200,
            stHeaders = Some [(''X-Resp-A6-Runner'', Some ''Go'')], stBody = Some (go_bytes b)\<rparr>)))))"
proof -
  note found = say_registered [OF reg]
  obtain bd1 rn1 cc where p: "dispatchRPC cd ro T reg RPCPrepareConf pbuf rn = (Val (bd1, RPCPrepareConf), rn1)"
    "bdMsg bd1 = Some (MsgPrepareConfResp (tokenCounter (rnCache rn) + 1))" "runner_ok rn1"
    "GetRuleConf T (tokenCounter (rnCache rn) + 1) (rnCache rn1) = (Val (Inr [(''say'', SayC \<lparr>sayBody = b\<rparr>)]), cc)"
    by (rule dispatch_prepared [OF assms(1,2) dec say_parsed [OF found js(1), folded conf] key spec [OF size]])
  have "pools_ok rn1" using p(3) by (simp add: runner_ok_def)
  note call = say_called [OF this assms(3) found js(2) p(4) _ _ size]
  show ?thesis
    by (rule exI [of _ "tokenCounter (rnCache rn) + 1"], rule exI [of _ bd1], rule exI [of _ rn1])
      (use p(1,2) call in blast)
qed

definition demo_runner :: "(string \<Rightarrow> (nat, nat, byte) demo_conf cache_val option) runner" where
  "demo_runner = \<lparr>rnCache = \<lparr>tokenCache = Map.empty, keyCache = Map.empty, tokenCounter = 0\<rparr>,
     rnReqs = [], rnReqResps = [], rnResps = [], rnIo = no_io\<rparr>"

lemma demo_runner_ok: "runner_ok demo_runner"
  by (simp add: runner_ok_def pools_ok_def ctx_ok_def demo_runner_def no_io_def request_pool.pool_ok_def
      reqresp_pool.pool_ok_def response_pool.pool_ok_def builder_pool.pool_ok_def)

definition say_preq :: preq where
  "say_preq = \<lparr>pqKey = None, pqConf = [Some \<lparr>teName = Some (go_bytes ''say''), teValue = Some [9]\<rparr>]\<rparr>"

theorem say_end_to_end_witness:
  "\<exists>reg bd1 rn1 bd2 rn2.
    demo_inits (sample_libs\<lparr>js_parse := \<lambda>_. Some (JObj [(''body'', JStr ''hi'')])\<rparr>) (\<lambda>_. rev) 0 (\<lambda>_. True) [] = Inr reg \<and>
    dispatchRPC (sample_codec\<lparr>GetRootAsPrepareConf := \<lambda>_. Val say_preq\<rparr>) (\<lambda>_. rev) map_ttl reg RPCPrepareConf [1]
      demo_runner = (Val (bd1, RPCPrepareConf), rn1) \<and> bdMsg bd1 = Some (MsgPrepareConfResp 1) \<and>
    dispatchRPC (sample_codec\<lparr>GetRootAsPrepareConf := \<lambda>_. Val say_preq\<rparr>) (\<lambda>_. rev) map_ttl reg RPCHTTPReqCall [1]
      rn1 = (Val (bd2, RPCHTTPReqCall), rn2) \<and>
    bdMsg bd2 = Some (MsgHTTPReqResp 9 (Some (ActionStop \<lparr>stStatus = 200,
      stHeaders = Some [(''X-Resp-A6-Runner'', Some ''Go'')], stBody = Some (go_bytes ''hi'')\<rparr>)))"
proof -
  let ?cd = "sample_codec\<lparr>GetRootAsPrepareConf := \<lambda>_. Val say_preq\<rparr>"
  let ?L = "sample_libs\<lparr>js_parse := \<lambda>_. Some (JObj [(''body'', JStr ''hi'')])\<rparr>"
  obtain reg where reg: "demo_inits ?L (\<lambda>_. rev) 0 (\<lambda>_. True) [] = Inr reg"
    using demo_plugins_register [of ?L "\<lambda>_. rev" 0 "\<lambda>_. True"]
    by (cases "demo_inits ?L (\<lambda>_. rev) 0 (\<lambda>_. True) []") (auto simp: demo_inits_run)
  have dec: "GetRootAsPrepareConf ?cd [1] = Val say_preq" "GetRootAsHTTPReqCall ?cd [1] = Val sample_hreq"
    by (simp_all add: sample_codec_def)
  have conf: "pqConf say_preq = [Some \<lparr>teName = Some (go_bytes ''say''), teValue = Some [9]\<rparr>]"
    and key: "go_string_opt (pqKey say_preq) = []" by (simp_all add: say_preq_def go_string_opt_def)
  have js: "js_parse ?L [9] = Some (JObj [(''body'', JStr ''hi'')])" by simp
  have size: "\<forall>m. length (encode_msg ?cd m) < MaxDataSize"
    by (simp add: sample_codec_def MaxDataSize_def push_bit_eq_mult)
  have t: "tokenCounter (rnCache demo_runner) + 1 = 1" "hqConfToken sample_hreq = 1" "hqId sample_hreq = 9"
    by (simp_all add: demo_runner_def sample_hreq_def)
  from say_end_to_end [where live = "\<lambda>s. s", OF map_ttl_spec demo_runner_ok ranges_ok_rev reg dec(1) conf js _ key _ size,
      unfolded t(1)]
  obtain bd1 rn1 where p: "dispatchRPC ?cd (\<lambda>_. rev) map_ttl reg RPCPrepareConf [1] demo_runner = (Val (bd1, RPCPrepareConf), rn1)"
    "bdMsg bd1 = Some (MsgPrepareConfResp 1)"
    and c: "\<And>cbuf q. GetRootAsHTTPReqCall ?cd cbuf = Val q \<Longrightarrow> hqConfToken q = 1 \<Longrightarrow>
      \<exists>bd2 rn2. dispatchRPC ?cd (\<lambda>_. rev) map_ttl reg RPCHTTPReqCall cbuf rn1 = (Val (bd2, RPCHTTPReqCall), rn2) \<and>
        bdMsg bd2 = Some (MsgHTTPReqResp (hqId q) (Some (ActionStop \<lparr>stStatus = 200,
          stHeaders = Some [(''X-Resp-A6-Runner'', Some ''Go'')], stBody = Some (go_bytes ''hi'')\<rparr>)))" by blast
  from c [OF dec(2) t(2)] p reg t(3) show ?thesis by auto
qed

end
